(* ===== verification/AsPrelude.thy ===== *)
theory AsPrelude
  imports Complex_Main "HOL-Library.AList" "HOL-Library.Sublist"
begin

text \<open>
  The prelude of the development: the shape in which a Python statement is modelled (a
  state transformer that may raise and keeps the state reached when it raises), the
  ordered dictionaries of \<^verbatim>\<open>collections.OrderedDict\<close> and of keyword arguments, Python
  values as they appear in trace and log fields, and the few string routines the platform
  uses (\<open>str(int)\<close>, \<open>int(str)\<close>, \<open>strip\<close>, \<open>startswith\<close>, \<open>split\<close>).
  Strings are lists of code points below 256.
\<close>

named_theorems preserve_intro "rules that build the preservation of an invariant by a program"
named_theorems run_simps "evaluation of the statement combinators"

section \<open>Statements that may raise\<close>

text \<open>
  A program takes the state to a result and the state reached: \<open>Inl\<close> carries a raised
  exception, \<open>Inr\<close> a returned value. The state of a raising program is the one reached
  when the exception left it, because Python does not roll mutations back.
\<close>

type_synonym ('e, 's, 'a) prog = "'s \<Rightarrow> ('e + 'a) \<times> 's"
type_synonym ('e, 's) stmt = "('e, 's, unit) prog"

definition ret :: "'a \<Rightarrow> ('e, 's, 'a) prog" where
  "ret a = (\<lambda>s. (Inr a, s))"

definition raise :: "'e \<Rightarrow> ('e, 's, 'a) prog" where
  "raise e = (\<lambda>s. (Inl e, s))"

definition upd :: "('s \<Rightarrow> 's) \<Rightarrow> ('e, 's) stmt" where
  "upd f = (\<lambda>s. (Inr (), f s))"

definition bindp :: "('e, 's, 'a) prog \<Rightarrow> ('a \<Rightarrow> ('e, 's, 'b) prog) \<Rightarrow> ('e, 's, 'b) prog" where
  "bindp m f = (\<lambda>s. case m s of (Inl e, s') \<Rightarrow> (Inl e, s') | (Inr a, s') \<Rightarrow> f a s')"

definition getp :: "('s \<Rightarrow> ('e, 's, 'a) prog) \<Rightarrow> ('e, 's, 'a) prog" where
  "getp f = (\<lambda>s. f s s)"

definition whenp :: "bool \<Rightarrow> ('e, 's) stmt \<Rightarrow> ('e, 's) stmt" where
  "whenp b m = (if b then m else ret ())"

fun block :: "('e, 's) stmt list \<Rightarrow> ('e, 's) stmt" where
  "block [] = ret ()"
| "block (m # ms) = bindp m (\<lambda>_. block ms)"

text \<open>\<open>try: m finally: fin\<close>, for a \<open>fin\<close> that only assigns.\<close>

definition finallyp :: "('e, 's, 'a) prog \<Rightarrow> ('s \<Rightarrow> 's) \<Rightarrow> ('e, 's, 'a) prog" where
  "finallyp m fin = (\<lambda>s. case m s of (r, s') \<Rightarrow> (r, fin s'))"

text \<open>A statement on one component of a pair of states.\<close>

definition on_fst :: "('e, 's, 'a) prog \<Rightarrow> ('e, 's \<times> 't, 'a) prog" where
  "on_fst m = (\<lambda>(s, t). case m s of (r, s') \<Rightarrow> (r, (s', t)))"

definition on_snd :: "('e, 't, 'a) prog \<Rightarrow> ('e, 's \<times> 't, 'a) prog" where
  "on_snd m = (\<lambda>(s, t). case m t of (r, t') \<Rightarrow> (r, (s, t')))"

lemma ret_run [simp, run_simps]: "ret a s = (Inr a, s)"
  by (simp add: ret_def)

lemma raise_run [simp, run_simps]: "raise e s = (Inl e, s)"
  by (simp add: raise_def)

lemma upd_run [simp, run_simps]: "upd f s = (Inr (), f s)"
  by (simp add: upd_def)

lemma getp_run [simp, run_simps]: "getp f s = f s s"
  by (simp add: getp_def)

lemma whenp_run [run_simps]: "whenp b m s = (if b then m s else (Inr (), s))"
  by (simp add: whenp_def)

lemma whenp_simps [simp]: "whenp True m = m" "whenp False m = ret ()"
  by (simp_all add: whenp_def)

lemma bindp_Inr: "m s = (Inr a, s') \<Longrightarrow> bindp m f s = f a s'"
  by (simp add: bindp_def)

lemma bindp_Inl: "m s = (Inl e, s') \<Longrightarrow> bindp m f s = (Inl e, s')"
  by (simp add: bindp_def)

lemma bindp_upd [simp, run_simps]: "bindp (upd g) f s = f () (g s)"
  by (simp add: bindp_def)

lemma bindp_ret [simp, run_simps]: "bindp (ret a) f = f a"
  by (simp add: bindp_def)

lemma bindp_raise [simp, run_simps]: "bindp (raise e) f s = (Inl e, s)"
  by (simp add: bindp_def)

lemma on_fst_run: "m s = (r, s') \<Longrightarrow> on_fst m (s, t) = (r, (s', t))"
  by (simp add: on_fst_def)

lemma on_snd_run: "m t = (r, t') \<Longrightarrow> on_snd m (s, t) = (r, (s, t'))"
  by (simp add: on_snd_def)

lemma on_snd_upd [simp, run_simps]: "on_snd (upd f) (s, t) = (Inr (), (s, f t))"
  by (simp add: on_snd_def)

lemma on_fst_upd [simp, run_simps]: "on_fst (upd f) (s, t) = (Inr (), (f s, t))"
  by (simp add: on_fst_def)

section \<open>Preservation of an invariant by a program\<close>

definition preserves :: "('s \<Rightarrow> bool) \<Rightarrow> ('e, 's, 'a) prog \<Rightarrow> bool" where
  "preserves I m \<longleftrightarrow> (\<forall>s. I s \<longrightarrow> I (snd (m s)))"

lemma preservesI [intro]: "(\<And>s. I s \<Longrightarrow> I (snd (m s))) \<Longrightarrow> preserves I m"
  by (simp add: preserves_def)

lemma preservesD: "preserves I m \<Longrightarrow> I s \<Longrightarrow> I (snd (m s))"
  by (simp add: preserves_def)

lemma preserves_ret [preserve_intro]: "preserves I (ret a)"
  by (simp add: preserves_def)

lemma preserves_raise [preserve_intro]: "preserves I (raise e)"
  by (simp add: preserves_def)

lemma preserves_upd [preserve_intro]: "(\<And>s. I s \<Longrightarrow> I (f s)) \<Longrightarrow> preserves I (upd f)"
  by (simp add: preserves_def)

lemma preserves_bindp [preserve_intro]:
  assumes "preserves I m" and "\<And>a. preserves I (f a)"
  shows "preserves I (bindp m f)"
proof (rule preservesI)
  fix s
  assume "I s"
  obtain r s' where m: "m s = (r, s')" by (cases "m s")
  with \<open>I s\<close> assms(1) have "I s'" by (auto simp: preserves_def dest: spec [of _ s])
  with m assms(2) show "I (snd (bindp m f s))"
    by (cases r) (auto simp: bindp_def preserves_def)
qed

lemma preserves_getp [preserve_intro]: "(\<And>s. preserves I (f s)) \<Longrightarrow> preserves I (getp f)"
  by (simp add: preserves_def)

lemma preserves_whenp [preserve_intro]: "(b \<Longrightarrow> preserves I m) \<Longrightarrow> preserves I (whenp b m)"
  by (cases b) (simp_all add: preserves_ret)

lemma preserves_block_Nil [preserve_intro]: "preserves I (block [])"
  by (simp add: preserves_ret)

lemma preserves_block_Cons [preserve_intro]:
  "preserves I m \<Longrightarrow> preserves I (block ms) \<Longrightarrow> preserves I (block (m # ms))"
  by (simp add: preserves_bindp)

lemma preserves_if [preserve_intro]:
  "(b \<Longrightarrow> preserves I m) \<Longrightarrow> (\<not> b \<Longrightarrow> preserves I n) \<Longrightarrow> preserves I (if b then m else n)"
  by simp

lemma preserves_case_option [preserve_intro]:
  "(x = None \<Longrightarrow> preserves I m) \<Longrightarrow> (\<And>a. x = Some a \<Longrightarrow> preserves I (f a)) \<Longrightarrow>
   preserves I (case x of None \<Rightarrow> m | Some a \<Rightarrow> f a)"
  by (cases x) simp_all

lemma preserves_case_sum [preserve_intro]:
  "(\<And>a. x = Inl a \<Longrightarrow> preserves I (f a)) \<Longrightarrow> (\<And>b. x = Inr b \<Longrightarrow> preserves I (g b)) \<Longrightarrow>
   preserves I (case x of Inl a \<Rightarrow> f a | Inr b \<Rightarrow> g b)"
  by (cases x) simp_all

lemma preserves_case_prod [preserve_intro]:
  "(\<And>a b. x = (a, b) \<Longrightarrow> preserves I (f a b)) \<Longrightarrow> preserves I (case x of (a, b) \<Rightarrow> f a b)"
  by (cases x) simp

lemma preserves_finallyp [preserve_intro]:
  "preserves I m \<Longrightarrow> (\<And>s. I s \<Longrightarrow> I (fin s)) \<Longrightarrow> preserves I (finallyp m fin)"
  by (auto simp: preserves_def finallyp_def split: prod.splits)

section \<open>Ordered dictionaries\<close>

text \<open>
  A dictionary is an association list with distinct keys in insertion order; an
  assignment to a present key keeps the key's place (\<open>AList.update\<close>), as Python's does.
\<close>

type_synonym ('k, 'v) odict = "('k \<times> 'v) list"

abbreviation od_keys :: "('k, 'v) odict \<Rightarrow> 'k list" where
  "od_keys d \<equiv> map fst d"

definition od_wf :: "('k, 'v) odict \<Rightarrow> bool" where
  "od_wf d \<longleftrightarrow> distinct (od_keys d)"

text \<open>\<open>d.update(e)\<close> and \<open>{**d, **e}\<close>.\<close>

definition od_update :: "('k, 'v) odict \<Rightarrow> ('k, 'v) odict \<Rightarrow> ('k, 'v) odict" where
  "od_update d e = fold (\<lambda>(k, v). AList.update k v) e d"

text \<open>\<open>d.move_to_end(k)\<close> of a present key; an absent key is left to the callers' guards.\<close>

definition od_move_to_end :: "'k \<Rightarrow> ('k, 'v) odict \<Rightarrow> ('k, 'v) odict" where
  "od_move_to_end k d =
     (case map_of d k of None \<Rightarrow> d | Some v \<Rightarrow> AList.delete k d @ [(k, v)])"

lemma od_update_Nil [simp]: "od_update d [] = d"
  by (simp add: od_update_def)

lemma od_update_Cons [simp]: "od_update d ((k, v) # e) = od_update (AList.update k v d) e"
  by (simp add: od_update_def)

lemma map_of_od_update: "distinct (od_keys e) \<Longrightarrow>
    map_of (od_update d e) k = (case map_of e k of None \<Rightarrow> map_of d k | Some v \<Rightarrow> Some v)"
proof (induction e arbitrary: d)
  case Nil
  then show ?case by simp
next
  case (Cons kv e)
  obtain k' v where kv: "kv = (k', v)" by (cases kv)
  from Cons show ?case
    by (auto simp: kv update_conv' split: option.splits dest: map_of_SomeD
          intro: map_of_SomeD) (force dest: map_of_SomeD)+
qed

lemma od_wf_Nil [simp]: "od_wf []"
  by (simp add: od_wf_def)

lemma od_wf_update [simp]: "od_wf d \<Longrightarrow> od_wf (AList.update k v d)"
  by (simp add: od_wf_def distinct_update)

lemma od_wf_od_update: "od_wf d \<Longrightarrow> od_wf (od_update d e)"
  by (induction e arbitrary: d) auto

lemma keys_delete: "od_keys (AList.delete k d) = filter (\<lambda>k'. k' \<noteq> k) (od_keys d)"
  by (induction d) auto

lemma keys_move_to_end:
  "k \<in> set (od_keys d) \<Longrightarrow> od_keys (od_move_to_end k d) = filter (\<lambda>k'. k' \<noteq> k) (od_keys d) @ [k]"
  by (auto simp: od_move_to_end_def keys_delete map_of_eq_None_iff split: option.splits)

lemma od_wf_move_to_end [simp]: "od_wf d \<Longrightarrow> od_wf (od_move_to_end k d)"
  by (auto simp: od_wf_def od_move_to_end_def keys_delete split: option.splits)

lemma map_of_move_to_end [simp]: "map_of (od_move_to_end k d) = map_of d"
  by (auto simp: od_move_to_end_def fun_eq_iff map_add_def delete_conv' split: option.splits)

lemma keys_update_present: "k \<in> set (od_keys d) \<Longrightarrow> od_keys (AList.update k v d) = od_keys d"
  by (induction d) auto

lemma keys_update_absent: "k \<notin> set (od_keys d) \<Longrightarrow> od_keys (AList.update k v d) = od_keys d @ [k]"
  by (induction d) auto

lemma set_keys_update [simp]: "set (od_keys (AList.update k v d)) = insert k (set (od_keys d))"
  by (induction d) auto

lemma keys_od_update: "set (od_keys (od_update d e)) = set (od_keys d) \<union> set (od_keys e)"
proof (induction e arbitrary: d)
  case Nil
  then show ?case by simp
next
  case (Cons kv e)
  obtain k v where kv: "kv = (k, v)" by (cases kv)
  have "set (od_keys (od_update d (kv # e))) =
      set (od_keys (AList.update k v d)) \<union> set (od_keys e)"
    by (simp only: kv od_update_Cons Cons.IH)
  then show ?case by (simp only: set_keys_update) (auto simp: kv)
qed

lemma filter_neq_absent: "k \<notin> set xs \<Longrightarrow> filter (\<lambda>x. x \<noteq> k) xs = xs"
  by (induction xs) auto

lemma keys_touch:
  "od_keys (od_move_to_end k (AList.update k v d)) = filter (\<lambda>k'. k' \<noteq> k) (od_keys d) @ [k]"
proof (cases "k \<in> set (od_keys d)")
  case True
  then have "od_keys (AList.update k v d) = od_keys d" by (rule keys_update_present)
  with True show ?thesis by (simp add: keys_move_to_end)
next
  case False
  then have eq: "od_keys (AList.update k v d) = od_keys d @ [k]" by (rule keys_update_absent)
  then have mem: "k \<in> set (od_keys (AList.update k v d))" by simp
  show ?thesis by (simp only: keys_move_to_end [OF mem] eq) simp
qed

section \<open>Python values in trace and log fields\<close>

datatype pyval = PNone | PBool bool | PInt int | PStr string

type_synonym fields = "(string, pyval) odict"

text \<open>\<open>x or d\<close>: the first operand unless it is falsy.\<close>

fun py_truthy :: "pyval \<Rightarrow> bool" where
  "py_truthy PNone = False"
| "py_truthy (PBool b) = b"
| "py_truthy (PInt i) = (i \<noteq> 0)"
| "py_truthy (PStr s) = (s \<noteq> [])"

definition py_or :: "pyval \<Rightarrow> pyval \<Rightarrow> pyval" where
  "py_or a b = (if py_truthy a then a else b)"

section \<open>Strings\<close>

text \<open>\<open>str(n)\<close> and \<open>int(s)\<close> in base ten.\<close>

definition digit_char :: "nat \<Rightarrow> char" where
  "digit_char d = char_of (48 + d)"

fun nat_str :: "nat \<Rightarrow> string" where
  "nat_str n = (if n < 10 then [digit_char n] else nat_str (n div 10) @ [digit_char (n mod 10)])"

declare nat_str.simps [simp del]

definition int_str :: "int \<Rightarrow> string" where
  "int_str i = (if i < 0 then ''-'' @ nat_str (nat (- i)) else nat_str (nat i))"

definition is_digit :: "char \<Rightarrow> bool" where
  "is_digit c \<longleftrightarrow> 48 \<le> (of_char c :: nat) \<and> (of_char c :: nat) \<le> 57"

definition nat_of_digits :: "string \<Rightarrow> nat" where
  "nat_of_digits s = foldl (\<lambda>a c. 10 * a + (of_char c - 48)) 0 s"

text \<open>\<open>str.isspace\<close> on code points below 256, which is also the regular expression class \<open>\s\<close>.\<close>

definition is_space :: "char \<Rightarrow> bool" where
  "is_space c = (let n = (of_char c :: nat) in
     (9 \<le> n \<and> n \<le> 13) \<or> (28 \<le> n \<and> n \<le> 32) \<or> n = 133 \<or> n = 160)"

definition py_strip :: "string \<Rightarrow> string" where
  "py_strip s = rev (dropWhile is_space (rev (dropWhile is_space s)))"

definition startswith :: "string \<Rightarrow> string \<Rightarrow> bool" where
  "startswith s p \<longleftrightarrow> take (length p) s = p"

definition endswith :: "string \<Rightarrow> string \<Rightarrow> bool" where
  "endswith s p \<longleftrightarrow> length p \<le> length s \<and> drop (length s - length p) s = p"

definition removeprefix :: "string \<Rightarrow> string \<Rightarrow> string" where
  "removeprefix s p = (if startswith s p then drop (length p) s else s)"

definition removesuffix :: "string \<Rightarrow> string \<Rightarrow> string" where
  "removesuffix s p = (if p \<noteq> [] \<and> endswith s p then take (length s - length p) s else s)"

text \<open>\<open>s.split(c)\<close> for a one-character separator: always at least one part.\<close>

fun split_on :: "char \<Rightarrow> string \<Rightarrow> string list" where
  "split_on c [] = [[]]"
| "split_on c (x # xs) =
     (if x = c then [] # split_on c xs
      else case split_on c xs of [] \<Rightarrow> [[x]] | p # ps \<Rightarrow> (x # p) # ps)"

text \<open>\<open>xs[:limit]\<close> with Python's reading of a negative bound.\<close>

definition py_take :: "int \<Rightarrow> 'a list \<Rightarrow> 'a list" where
  "py_take limit xs = (if 0 \<le> limit then take (nat limit) xs
                       else take (nat (int (length xs) + limit)) xs)"

lemma startswith_append [simp]: "startswith (p @ s) p"
  by (simp add: startswith_def)

lemma startswith_iff_prefix: "startswith s p \<longleftrightarrow> prefix p s"
  by (metis append_eq_conv_conj append_take_drop_id prefix_def startswith_def)

lemma of_char_digit_char: "d < 10 \<Longrightarrow> (of_char (digit_char d) :: nat) = 48 + d"
  by (simp add: digit_char_def)

lemma is_digit_digit_char [simp]: "d < 10 \<Longrightarrow> is_digit (digit_char d)"
  by (simp add: is_digit_def of_char_digit_char)

lemma nat_str_digits: "c \<in> set (nat_str n) \<Longrightarrow> is_digit c"
proof (induction n rule: nat_str.induct)
  case (1 n)
  then show ?case
    by (subst (asm) nat_str.simps) (auto split: if_splits)
qed

lemma nat_str_nonempty [simp]: "nat_str n \<noteq> []"
  by (subst nat_str.simps) simp

lemma nat_of_digits_snoc: "nat_of_digits (s @ [c]) = 10 * nat_of_digits s + (of_char c - 48)"
  by (simp add: nat_of_digits_def)

lemma nat_of_digits_nat_str [simp]: "nat_of_digits (nat_str n) = n"
proof (induction n rule: nat_str.induct)
  case (1 n)
  show ?case
  proof (cases "n < 10")
    case True
    then show ?thesis
      by (subst nat_str.simps) (simp add: nat_of_digits_def of_char_digit_char)
  next
    case False
    then have "nat_str n = nat_str (n div 10) @ [digit_char (n mod 10)]"
      by (subst nat_str.simps) simp
    with False 1 show ?thesis
      by (simp add: nat_of_digits_snoc of_char_digit_char)
  qed
qed

lemma not_space_digit: "is_digit c \<Longrightarrow> \<not> is_space c"
  by (auto simp: is_digit_def is_space_def Let_def)

lemma split_on_nonempty [simp]: "split_on c s \<noteq> []"
  by (induction s) (auto split: list.splits)

lemma split_on_absent: "c \<notin> set s \<Longrightarrow> split_on c s = [s]"
  by (induction s) auto

lemma length_py_take: "0 \<le> limit \<Longrightarrow> int (length (py_take limit xs)) \<le> limit"
  by (simp add: py_take_def)

section \<open>Dropping the oldest entries\<close>

text \<open>
  \<open>while len(xs) > limit: xs.pop(0)\<close> and its \<open>popitem(last=False)\<close> form: entries leave from
  the front, and popping an empty container raises.
\<close>

fun drop_oldest :: "'e \<Rightarrow> int \<Rightarrow> 'a list \<Rightarrow> ('e + unit) \<times> 'a list" where
  "drop_oldest exn limit [] = (if limit < 0 then (Inl exn, []) else (Inr (), []))"
| "drop_oldest exn limit (x # xs) =
     (if limit < int (length (x # xs)) then drop_oldest exn limit xs else (Inr (), x # xs))"

definition last_n :: "nat \<Rightarrow> 'a list \<Rightarrow> 'a list" where
  "last_n n xs = drop (length xs - n) xs"

lemma drop_oldest_nonneg: "0 \<le> limit \<Longrightarrow> drop_oldest exn limit xs = (Inr (), last_n (nat limit) xs)"
proof (induction xs)
  case Nil
  then show ?case by (simp add: last_n_def)
next
  case (Cons x xs)
  then have "int (length (x # xs)) \<le> limit \<Longrightarrow> length (x # xs) - nat limit = 0" by linarith
  moreover have "limit < int (length (x # xs)) \<Longrightarrow>
      length (x # xs) - nat limit = Suc (length xs - nat limit)"
    using Cons.prems by simp
  ultimately show ?case using Cons by (cases "limit < int (length (x # xs))") (simp_all add: last_n_def)
qed

lemma drop_oldest_neg: "limit < 0 \<Longrightarrow> drop_oldest exn limit xs = (Inl exn, [])"
  by (induction xs) auto

lemma length_last_n [simp]: "length (last_n n xs) = min n (length xs)"
  by (auto simp: last_n_def)

lemma last_n_all: "length xs \<le> n \<Longrightarrow> last_n n xs = xs"
  by (simp add: last_n_def)

lemma last_n_0 [simp]: "last_n 0 xs = []"
  by (simp add: last_n_def)

lemma last_n_snoc: "last_n (Suc n) (xs @ [x]) = last_n n xs @ [x]"
  by (simp add: last_n_def)

lemma last_n_suffix: "suffix (last_n n xs) xs"
  by (simp add: last_n_def suffix_drop)

lemma map_last_n: "map f (last_n n xs) = last_n n (map f xs)"
  by (simp add: last_n_def drop_map)

lemma set_last_n: "set (last_n n xs) \<subseteq> set xs"
  by (simp add: last_n_def set_drop_subset)

lemma last_n_append: "last_n n (xs @ ys) = last_n (n - length ys) xs @ last_n n ys"
proof (cases "length ys \<le> n")
  case True
  then have "length xs + length ys - n = length xs - (n - length ys)" by linarith
  with True show ?thesis by (simp add: last_n_def)
next
  case False
  then show ?thesis by (simp add: last_n_def)
qed

lemma last_n_last_n [simp]: "last_n m (last_n n xs) = last_n (min m n) xs"
proof -
  have "length (last_n n xs) - m + (length xs - n) = length xs - min m n"
    unfolding length_last_n by linarith
  then have "drop (length (last_n n xs) - m) (drop (length xs - n) xs) = drop (length xs - min m n) xs"
    by simp
  then show ?thesis by (simp only: last_n_def)
qed

end
