(* ===== verification/AsErrors.thy ===== *)
theory AsErrors
  imports AsPrelude
begin

text \<open>
  The shared error model of \<^verbatim>\<open>errors.py\<close>: the rows an \<^verbatim>\<open>ErrorCode\<close> member is bound to,
  the framework's own family, the reason-phrase table and \<^verbatim>\<open>AsError\<close> with the log
  fields it renders. The exceptions the modelled code can raise are values of \<open>pyexc\<close>.
\<close>

section \<open>Codes\<close>

record error_code =
  ec_code :: string
  ec_sip_status :: int
  ec_message :: string

datatype skeleton_error_code =
    CFG_MISSING | CFG_INVALID | CFG_PORT_UNAVAILABLE | CFG_PEER_INVALID
  | PEER_NOT_ALLOWED | PEER_UNREACHABLE | PEER_MALFORMED_REQUEST
  | INTERNAL_ERROR

fun skeleton_row :: "skeleton_error_code \<Rightarrow> error_code" where
  "skeleton_row CFG_MISSING =
     \<lparr>ec_code = ''AS-CFG-001'', ec_sip_status = 500,
      ec_message = ''required configuration value is missing''\<rparr>"
| "skeleton_row CFG_INVALID =
     \<lparr>ec_code = ''AS-CFG-002'', ec_sip_status = 500,
      ec_message = ''configuration value failed validation''\<rparr>"
| "skeleton_row CFG_PORT_UNAVAILABLE =
     \<lparr>ec_code = ''AS-CFG-003'', ec_sip_status = 500,
      ec_message = ''signalling port cannot be bound''\<rparr>"
| "skeleton_row CFG_PEER_INVALID =
     \<lparr>ec_code = ''AS-CFG-004'', ec_sip_status = 500,
      ec_message = ''trunk peer configuration is not usable''\<rparr>"
| "skeleton_row PEER_NOT_ALLOWED =
     \<lparr>ec_code = ''AS-PEER-001'', ec_sip_status = 403,
      ec_message = ''source address is not an allowed trunk peer''\<rparr>"
| "skeleton_row PEER_UNREACHABLE =
     \<lparr>ec_code = ''AS-PEER-002'', ec_sip_status = 503,
      ec_message = ''next hop peer did not answer''\<rparr>"
| "skeleton_row PEER_MALFORMED_REQUEST =
     \<lparr>ec_code = ''AS-PEER-003'', ec_sip_status = 400,
      ec_message = ''request from the trunk could not be parsed''\<rparr>"
| "skeleton_row INTERNAL_ERROR =
     \<lparr>ec_code = ''AS-INT-001'', ec_sip_status = 500,
      ec_message = ''unexpected internal failure''\<rparr>"

definition SIP_PHRASES :: "(int \<times> string) list" where
  "SIP_PHRASES =
     [(400, ''Bad Request''),
      (403, ''Forbidden''),
      (404, ''Not Found''),
      (480, ''Temporarily Unavailable''),
      (500, ''Server Internal Error''),
      (503, ''Service Unavailable''),
      (603, ''Decline''),
      (608, ''Rejected'')]"

definition sip_status_for :: "error_code \<Rightarrow> int" where
  "sip_status_for code = ec_sip_status code"

section \<open>The error value\<close>

record as_error =
  ae_code :: error_code
  ae_detail :: string
  ae_call_id :: "string option"
  ae_context :: "(string, string) odict"

text \<open>\<open>detail or code.message\<close>: an empty detail falls back to the message as well.\<close>

definition mk_as_error ::
    "error_code \<Rightarrow> string option \<Rightarrow> string option \<Rightarrow> (string, string) odict option \<Rightarrow> as_error" where
  "mk_as_error code detail call_id context =
     \<lparr>ae_code = code,
      ae_detail = (case detail of None \<Rightarrow> ec_message code
                   | Some d \<Rightarrow> if d = [] then ec_message code else d),
      ae_call_id = call_id,
      ae_context = (case context of None \<Rightarrow> [] | Some c \<Rightarrow> c)\<rparr>"

definition as_sip_status :: "as_error \<Rightarrow> int" where
  "as_sip_status e = ec_sip_status (ae_code e)"

definition as_sip_phrase :: "as_error \<Rightarrow> string" where
  "as_sip_phrase e = (case map_of SIP_PHRASES (as_sip_status e) of
     None \<Rightarrow> ''Server Internal Error'' | Some p \<Rightarrow> p)"

definition as_log_fields :: "as_error \<Rightarrow> (string, string) odict" where
  "as_log_fields e = od_update
     [(''error_code'', ec_code (ae_code e)),
      (''sip_status'', int_str (as_sip_status e)),
      (''error_detail'', ae_detail e)]
     (ae_context e)"

datatype pyexc =
    AssertionError | AttributeError | IndexError | KeyError | TypeError | ValueError
  | NotImplementedError | RuntimeError | OSError | RaisedAs as_error | OtherExc string

section \<open>Facts\<close>

instantiation skeleton_error_code :: enum
begin

definition "enum_skeleton_error_code =
  [CFG_MISSING, CFG_INVALID, CFG_PORT_UNAVAILABLE, CFG_PEER_INVALID,
   PEER_NOT_ALLOWED, PEER_UNREACHABLE, PEER_MALFORMED_REQUEST, INTERNAL_ERROR]"

definition "enum_all_skeleton_error_code P \<longleftrightarrow> list_all P (Enum.enum :: skeleton_error_code list)"
definition "enum_ex_skeleton_error_code P \<longleftrightarrow> list_ex P (Enum.enum :: skeleton_error_code list)"

instance
proof
  show all: "(UNIV :: skeleton_error_code set) = set Enum.enum"
    by (auto simp: enum_skeleton_error_code_def intro: skeleton_error_code.exhaust)
  show "distinct (Enum.enum :: skeleton_error_code list)" by (simp add: enum_skeleton_error_code_def)
  show "enum_class.enum_all P \<longleftrightarrow> Ball UNIV P" for P :: "skeleton_error_code \<Rightarrow> bool"
    by (simp add: enum_all_skeleton_error_code_def all list_all_iff)
  show "enum_class.enum_ex P \<longleftrightarrow> Bex UNIV P" for P :: "skeleton_error_code \<Rightarrow> bool"
    by (simp add: enum_ex_skeleton_error_code_def all list_ex_iff)
qed

end

lemma skeleton_code_inj: "ec_code (skeleton_row a) = ec_code (skeleton_row b) \<Longrightarrow> a = b"
proof -
  have "distinct (map (\<lambda>c. ec_code (skeleton_row c)) Enum.enum)" by (simp add: enum_skeleton_error_code_def)
  then have "inj (\<lambda>c. ec_code (skeleton_row c))" by (simp add: distinct_map UNIV_enum)
  then show "ec_code (skeleton_row a) = ec_code (skeleton_row b) \<Longrightarrow> a = b" by (rule injD)
qed

lemma skeleton_phrase_listed: "map_of SIP_PHRASES (ec_sip_status (skeleton_row c)) \<noteq> None"
  by (cases c) (simp_all add: SIP_PHRASES_def)

lemma as_log_fields_lookup:
  "distinct (od_keys (ae_context e)) \<Longrightarrow>
   map_of (as_log_fields e) k =
     (case map_of (ae_context e) k of Some v \<Rightarrow> Some v
      | None \<Rightarrow> map_of [(''error_code'', ec_code (ae_code e)),
                        (''sip_status'', int_str (as_sip_status e)),
                        (''error_detail'', ae_detail e)] k)"
  by (simp add: as_log_fields_def map_of_od_update split: option.splits)

lemma as_log_fields_wf: "od_wf (as_log_fields e)"
  unfolding as_log_fields_def by (rule od_wf_od_update) (simp add: od_wf_def)

lemma as_log_fields_keys:
  "set (od_keys (as_log_fields e)) =
     {''error_code'', ''sip_status'', ''error_detail''} \<union> set (od_keys (ae_context e))"
  by (simp only: as_log_fields_def keys_od_update) auto

text \<open>
  Every failure the framework itself can report goes on the wire with the reason
  phrase of its own status (never the fallback phrase of a status missing from the table),
  and the codes of the family are pairwise distinct, so a logged code names one row.
\<close>
lemma skeleton_codes_reported_faithfully:
  "(\<forall>c d. ec_code (skeleton_row c) = ec_code (skeleton_row d) \<longrightarrow> c = d) \<and>
   (\<forall>c detail cid ctx.
      map_of SIP_PHRASES (sip_status_for (skeleton_row c)) =
        Some (as_sip_phrase (mk_as_error (skeleton_row c) detail cid ctx)))"
proof (intro conjI allI impI)
  fix c d
  assume "ec_code (skeleton_row c) = ec_code (skeleton_row d)"
  then show "c = d" by (rule skeleton_code_inj)
next
  fix c detail cid ctx
  show "map_of SIP_PHRASES (sip_status_for (skeleton_row c)) =
        Some (as_sip_phrase (mk_as_error (skeleton_row c) detail cid ctx))"
    using skeleton_phrase_listed [of c]
    by (auto simp: sip_status_for_def as_sip_phrase_def as_sip_status_def mk_as_error_def)
qed

end
