(* ===== verification/AsHop.thy ===== *)
theory AsHop
  imports AsErrors
begin

text \<open>
  The next-hop value object of \<^verbatim>\<open>hop.py\<close>. The pydantic machinery is third-party code; what
  the source declares of the model (its fields, their defaults and their bounds) is here,
  as the record, the check of a field assignment and the constructor that refuses it.
\<close>

datatype hop_transport = Udp | Tls

fun transport_str :: "hop_transport \<Rightarrow> string" where
  "transport_str Udp = ''udp''"
| "transport_str Tls = ''tls''"

record next_hop =
  nh_name :: string
  nh_address :: string
  nh_port :: int
  nh_transport :: hop_transport
  nh_priority :: int
  nh_description :: string

definition hop_valid :: "next_hop \<Rightarrow> bool" where
  "hop_valid h \<longleftrightarrow> 1 \<le> nh_port h \<and> nh_port h \<le> 65535 \<and> 1 \<le> nh_priority h"

definition mk_next_hop ::
    "string \<Rightarrow> string \<Rightarrow> int option \<Rightarrow> hop_transport option \<Rightarrow> int option \<Rightarrow> string option
     \<Rightarrow> pyexc + next_hop" where
  "mk_next_hop name address port transport priority description =
     (let h = \<lparr>nh_name = name, nh_address = address,
               nh_port = (case port of None \<Rightarrow> 5060 | Some p \<Rightarrow> p),
               nh_transport = (case transport of None \<Rightarrow> Udp | Some t \<Rightarrow> t),
               nh_priority = (case priority of None \<Rightarrow> 1 | Some p \<Rightarrow> p),
               nh_description = (case description of None \<Rightarrow> [] | Some d \<Rightarrow> d)\<rparr>
      in if hop_valid h then Inr h else Inl ValueError)"

definition hop_addr :: "next_hop \<Rightarrow> string \<times> int" where
  "hop_addr h = (nh_address h, nh_port h)"

lemma mk_next_hop_valid: "mk_next_hop n a p t pr d = Inr h \<Longrightarrow> hop_valid h"
  by (auto simp: mk_next_hop_def Let_def split: if_splits)

end
