(* ===== verification/AsMetrics.thy ===== *)
theory AsMetrics
  imports AsErrors
begin

text \<open>
  The counter registry of \<^verbatim>\<open>observability/metrics.py\<close>, each method as a whole. That the lock
  makes the methods of several threads whole is shown in \<open>RegistryThreads\<close>.
\<close>

section \<open>The registry\<close>

datatype call_disposition = COMPLETED | FAILED | REJECTED | NO_MATCH | ABANDONED

fun disposition_value :: "call_disposition \<Rightarrow> string" where
  "disposition_value COMPLETED = ''completed''"
| "disposition_value FAILED = ''failed''"
| "disposition_value REJECTED = ''rejected''"
| "disposition_value NO_MATCH = ''no_match''"
| "disposition_value ABANDONED = ''abandoned''"

datatype peer_status = UNKNOWN | REACHABLE | UNREACHABLE | DEGRADED

fun peer_status_value :: "peer_status \<Rightarrow> string" where
  "peer_status_value UNKNOWN = ''unknown''"
| "peer_status_value REACHABLE = ''reachable''"
| "peer_status_value UNREACHABLE = ''unreachable''"
| "peer_status_value DEGRADED = ''degraded''"

type_synonym counter = "(string, int) odict"

text \<open>\<open>Counter\<close>: a missing key reads as 0; \<open>c[k] += n\<close>.\<close>

definition counter_get :: "counter \<Rightarrow> string \<Rightarrow> int" where
  "counter_get c k = (case map_of c k of None \<Rightarrow> 0 | Some n \<Rightarrow> n)"

definition counter_add :: "string \<Rightarrow> int \<Rightarrow> counter \<Rightarrow> counter" where
  "counter_add k n c = AList.update k (counter_get c k + n) c"

record metrics_registry =
  mr_calls_total :: int
  mr_calls_by_disposition :: counter
  mr_errors_by_code :: counter
  mr_rule_hits :: counter
  mr_peer_status :: "(string, peer_status) odict"
  mr_counters :: counter

definition empty_registry :: metrics_registry where
  "empty_registry = \<lparr>mr_calls_total = 0, mr_calls_by_disposition = [], mr_errors_by_code = [],
     mr_rule_hits = [], mr_peer_status = [], mr_counters = []\<rparr>"

definition record_call_started :: "metrics_registry \<Rightarrow> metrics_registry" where
  "record_call_started m = m\<lparr>mr_calls_total := mr_calls_total m + 1\<rparr>"

definition record_call_disposition :: "call_disposition \<Rightarrow> metrics_registry \<Rightarrow> metrics_registry" where
  "record_call_disposition d m =
     m\<lparr>mr_calls_by_disposition := counter_add (disposition_value d) 1 (mr_calls_by_disposition m)\<rparr>"

definition record_error :: "string \<Rightarrow> metrics_registry \<Rightarrow> metrics_registry" where
  "record_error code m = m\<lparr>mr_errors_by_code := counter_add code 1 (mr_errors_by_code m)\<rparr>"

definition record_rule_hit :: "string \<Rightarrow> metrics_registry \<Rightarrow> metrics_registry" where
  "record_rule_hit rule m = m\<lparr>mr_rule_hits := counter_add rule 1 (mr_rule_hits m)\<rparr>"

definition record_counter :: "string \<Rightarrow> int \<Rightarrow> metrics_registry \<Rightarrow> metrics_registry" where
  "record_counter name amount m = m\<lparr>mr_counters := counter_add name amount (mr_counters m)\<rparr>"

definition set_peer_status :: "string \<Rightarrow> peer_status \<Rightarrow> metrics_registry \<Rightarrow> metrics_registry" where
  "set_peer_status peer st m = m\<lparr>mr_peer_status := AList.update peer st (mr_peer_status m)\<rparr>"

record metrics_snapshot =
  ms_calls_total :: int
  ms_calls_by_disposition :: counter
  ms_errors_by_code :: counter
  ms_rule_hits :: counter
  ms_peer_status :: "(string, string) odict"
  ms_counters :: counter

definition snapshot :: "metrics_registry \<Rightarrow> metrics_snapshot" where
  "snapshot m = \<lparr>ms_calls_total = mr_calls_total m,
     ms_calls_by_disposition = mr_calls_by_disposition m,
     ms_errors_by_code = mr_errors_by_code m,
     ms_rule_hits = mr_rule_hits m,
     ms_peer_status = map (\<lambda>(name, st). (name, peer_status_value st)) (mr_peer_status m),
     ms_counters = mr_counters m\<rparr>"

section \<open>The interface of a counter\<close>

text \<open>
  What a client of a counter relies on: a bump adds to its own key and to no other. What a
  run of bumps adds follows here once for every counter of the registry.
\<close>

locale keyed_counter =
  fixes bump :: "'k \<Rightarrow> int \<Rightarrow> 's \<Rightarrow> 's"
    and cnt :: "'s \<Rightarrow> 'k \<Rightarrow> int"
  assumes cnt_bump: "cnt (bump k n s) j = cnt s j + (if j = k then n else 0)"
begin

lemma cnt_fold: "cnt (fold (\<lambda>(k, n). bump k n) ops s) j =
    cnt s j + sum_list (map snd (filter (\<lambda>(k, n). k = j) ops))"
  by (induction ops arbitrary: s) (auto simp: cnt_bump)

end

section \<open>Runs of operations\<close>

text \<open>One call of a recording method, and the registry after a sequence of them.\<close>

datatype metric_op =
    CallStarted | CallEnded call_disposition | ErrorSeen string | RuleHit string
  | CounterAdd string int | PeerStatusSet string peer_status

fun apply_metric_op :: "metric_op \<Rightarrow> metrics_registry \<Rightarrow> metrics_registry" where
  "apply_metric_op CallStarted = record_call_started"
| "apply_metric_op (CallEnded d) = record_call_disposition d"
| "apply_metric_op (ErrorSeen c) = record_error c"
| "apply_metric_op (RuleHit r) = record_rule_hit r"
| "apply_metric_op (CounterAdd n a) = record_counter n a"
| "apply_metric_op (PeerStatusSet p st) = set_peer_status p st"

definition run_metric_ops :: "metric_op list \<Rightarrow> metrics_registry \<Rightarrow> metrics_registry" where
  "run_metric_ops ops m = fold apply_metric_op ops m"

lemmas metric_op_defs = record_call_started_def record_call_disposition_def record_error_def
  record_rule_hit_def record_counter_def set_peer_status_def

lemma counter_get_add [simp]: "counter_get (counter_add k n c) j = counter_get c j + (if j = k then n else 0)"
  by (simp add: counter_get_def counter_add_def update_conv')

lemma disposition_value_inj [simp]: "disposition_value a = disposition_value b \<longleftrightarrow> a = b"
  by (cases a; cases b) simp_all

interpretation kc: keyed_counter counter_add counter_get
  by unfold_locales simp

text \<open>The abstract registry: what a sequence of calls adds to each counter.\<close>

fun disposition_adds :: "metric_op \<Rightarrow> (string \<times> int) list" where
  "disposition_adds (CallEnded d) = [(disposition_value d, 1)]"
| "disposition_adds _ = []"

fun error_adds :: "metric_op \<Rightarrow> (string \<times> int) list" where
  "error_adds (ErrorSeen c) = [(c, 1)]"
| "error_adds _ = []"

fun rule_adds :: "metric_op \<Rightarrow> (string \<times> int) list" where
  "rule_adds (RuleHit r) = [(r, 1)]"
| "rule_adds _ = []"

fun counter_adds :: "metric_op \<Rightarrow> (string \<times> int) list" where
  "counter_adds (CounterAdd n a) = [(n, a)]"
| "counter_adds _ = []"

definition add_all :: "(string \<times> int) list \<Rightarrow> counter \<Rightarrow> counter" where
  "add_all adds c = fold (\<lambda>(k, n). counter_add k n) adds c"

lemma add_all_simps [simp]:
  "add_all [] c = c"
  "add_all ((k, n) # adds) c = add_all adds (counter_add k n c)"
  "add_all (adds @ adds') c = add_all adds' (add_all adds c)"
  by (simp_all add: add_all_def)

lemma apply_metric_op_fields:
  "mr_calls_total (apply_metric_op x m) = mr_calls_total m + (if x = CallStarted then 1 else 0)"
  "mr_calls_by_disposition (apply_metric_op x m) =
     add_all (disposition_adds x) (mr_calls_by_disposition m)"
  "mr_errors_by_code (apply_metric_op x m) = add_all (error_adds x) (mr_errors_by_code m)"
  "mr_rule_hits (apply_metric_op x m) = add_all (rule_adds x) (mr_rule_hits m)"
  "mr_counters (apply_metric_op x m) = add_all (counter_adds x) (mr_counters m)"
  by (cases x; simp add: metric_op_defs)+

lemma run_metric_ops_fields:
  "mr_calls_total (run_metric_ops ops m) = mr_calls_total m + int (count_list ops CallStarted)"
  "mr_calls_by_disposition (run_metric_ops ops m) =
     add_all (concat (map disposition_adds ops)) (mr_calls_by_disposition m)"
  "mr_errors_by_code (run_metric_ops ops m) =
     add_all (concat (map error_adds ops)) (mr_errors_by_code m)"
  "mr_rule_hits (run_metric_ops ops m) = add_all (concat (map rule_adds ops)) (mr_rule_hits m)"
  "mr_counters (run_metric_ops ops m) = add_all (concat (map counter_adds ops)) (mr_counters m)"
  by (induction ops arbitrary: m) (simp_all add: run_metric_ops_def apply_metric_op_fields)

lemma counter_get_add_all:
  "counter_get (add_all adds c) j = counter_get c j + sum_list (map snd (filter (\<lambda>(k, n). k = j) adds))"
  unfolding add_all_def by (rule kc.cnt_fold)

lemma disposition_adds_count:
  "sum_list (map snd (filter (\<lambda>(k, n). k = disposition_value d) (concat (map disposition_adds ops)))) =
   int (count_list ops (CallEnded d))"
proof (induction ops)
  case Nil
  then show ?case by simp
next
  case (Cons x ops)
  then show ?case by (cases x) auto
qed

lemma error_adds_count:
  "sum_list (map snd (filter (\<lambda>(k, n). k = code) (concat (map error_adds ops)))) =
   int (count_list ops (ErrorSeen code))"
proof (induction ops)
  case Nil
  then show ?case by simp
next
  case (Cons x ops)
  then show ?case by (cases x) auto
qed

text \<open>What the application counters of a name gain.\<close>

fun counter_gain :: "string \<Rightarrow> metric_op \<Rightarrow> int" where
  "counter_gain k (CounterAdd n a) = (if n = k then a else 0)"
| "counter_gain k _ = 0"

lemma rule_adds_count:
  "sum_list (map snd (filter (\<lambda>(k, n). k = rule) (concat (map rule_adds ops)))) =
   int (count_list ops (RuleHit rule))"
proof (induction ops)
  case Nil
  then show ?case by simp
next
  case (Cons x ops)
  then show ?case by (cases x) auto
qed

lemma counter_adds_sum:
  "sum_list (map snd (filter (\<lambda>(k, n). k = name) (concat (map counter_adds ops)))) =
   sum_list (map (counter_gain name) ops)"
proof (induction ops)
  case Nil
  then show ?case by simp
next
  case (Cons x ops)
  then show ?case by (cases x) auto
qed

text \<open>Every counter after a sequence of calls.\<close>

lemma run_metric_ops_counts:
  "counter_get (mr_calls_by_disposition (run_metric_ops ops m)) (disposition_value d) =
     counter_get (mr_calls_by_disposition m) (disposition_value d) + int (count_list ops (CallEnded d))"
  "counter_get (mr_errors_by_code (run_metric_ops ops m)) code =
     counter_get (mr_errors_by_code m) code + int (count_list ops (ErrorSeen code))"
  "counter_get (mr_rule_hits (run_metric_ops ops m)) rule =
     counter_get (mr_rule_hits m) rule + int (count_list ops (RuleHit rule))"
  "counter_get (mr_counters (run_metric_ops ops m)) name =
     counter_get (mr_counters m) name + sum_list (map (counter_gain name) ops)"
  unfolding run_metric_ops_fields counter_get_add_all disposition_adds_count error_adds_count
    rule_adds_count counter_adds_sum by (rule refl)+

end
