(* ===== verification/AsLogging.thy ===== *)
theory AsLogging
  imports AsErrors
begin

text \<open>
  The structured logging of \<^verbatim>\<open>observability/logging.py\<close>: the guards and the extra dictionary of
  \<^verbatim>\<open>log_event\<close>, the attribute check of the standard library's \<^verbatim>\<open>Logger.makeRecord\<close> that it
  goes through, and the payload dictionary \<^verbatim>\<open>StructuredFormatter.format\<close> hands to
  \<^verbatim>\<open>json.dumps\<close>. The handler and the output stream are not modelled: the lines that reach
  the handler are kept in a list.
\<close>

section \<open>Levels and directions\<close>

type_synonym log_level = int

abbreviation DEBUG :: log_level where "DEBUG \<equiv> 10"
abbreviation INFO :: log_level where "INFO \<equiv> 20"
abbreviation WARNING :: log_level where "WARNING \<equiv> 30"
abbreviation ERROR :: log_level where "ERROR \<equiv> 40"

definition level_name :: "log_level \<Rightarrow> string" where
  "level_name l = (case map_of [(10, ''debug''), (20, ''info''), (30, ''warning''), (40, ''error''),
     (50, ''critical'')] l of Some n \<Rightarrow> n | None \<Rightarrow> ''level '' @ int_str l)"

definition INBOUND :: string where "INBOUND = ''in''"
definition OUTBOUND :: string where "OUTBOUND = ''out''"
definition INTERNAL :: string where "INTERNAL = ''internal''"

definition DEFAULT_DIRECTION :: pyval where "DEFAULT_DIRECTION = PStr ''-''"
definition DEFAULT_UNKNOWN :: pyval where "DEFAULT_UNKNOWN = PStr ''-''"

section \<open>Emitting an event\<close>

text \<open>
  A line that reached the handler: level, module of the caller, message, and the
  attributes the \<^verbatim>\<open>extra\<close> dictionary put on the record, in that dictionary's order.
\<close>

record log_line =
  ll_level :: log_level
  ll_module :: string
  ll_event :: string
  ll_extra :: fields

record log_sink =
  ls_threshold :: log_level
  ls_lines :: "log_line list"

text \<open>
  The attributes every \<^verbatim>\<open>LogRecord\<close> of Python 3.10 has before \<^verbatim>\<open>extra\<close> is merged, and the
  two names \<^verbatim>\<open>makeRecord\<close> reserves besides them.
\<close>

definition RECORD_ATTRS :: "string list" where
  "RECORD_ATTRS = [''name'', ''msg'', ''args'', ''levelname'', ''levelno'', ''pathname'', ''filename'',
     ''module'', ''exc_info'', ''exc_text'', ''stack_info'', ''lineno'', ''funcName'', ''created'',
     ''msecs'', ''relativeCreated'', ''thread'', ''threadName'', ''processName'', ''process'']"

definition reserved_attr :: "string \<Rightarrow> bool" where
  "reserved_attr k \<longleftrightarrow> k \<in> set RECORD_ATTRS \<or> k \<in> {''message'', ''asctime''}"

text \<open>The keyword arguments of one call, a duplicate being Python's \<open>TypeError\<close> at the call.\<close>

definition log_kwargs_ok :: "fields \<Rightarrow> bool" where
  "log_kwargs_ok kw \<longleftrightarrow> distinct (od_keys kw) \<and>
     list_all (\<lambda>k. k \<notin> {''logger'', ''level'', ''event''}) (od_keys kw)"

definition named_kwargs :: "string list" where
  "named_kwargs = [''call_id'', ''direction'', ''peer'']"

definition log_extra :: "fields \<Rightarrow> fields" where
  "log_extra kw = od_update
     [(''call_id'', case map_of kw ''call_id'' of None \<Rightarrow> DEFAULT_UNKNOWN | Some v \<Rightarrow> py_or v DEFAULT_UNKNOWN),
      (''direction'', case map_of kw ''direction'' of None \<Rightarrow> DEFAULT_DIRECTION | Some v \<Rightarrow> v),
      (''peer'', case map_of kw ''peer'' of None \<Rightarrow> DEFAULT_UNKNOWN | Some v \<Rightarrow> py_or v DEFAULT_UNKNOWN)]
     (filter (\<lambda>(k, v). k \<notin> set named_kwargs) kw)"

definition log_event :: "string \<Rightarrow> log_level \<Rightarrow> string \<Rightarrow> fields \<Rightarrow> (pyexc, log_sink) stmt" where
  "log_event modname level event kw =
     (if \<not> log_kwargs_ok kw then raise TypeError
      else getp (\<lambda>s.
        if level \<le> 0 \<or> level < ls_threshold s then ret ()
        else if list_ex reserved_attr (od_keys (log_extra kw)) then raise KeyError
        else upd (\<lambda>s. s\<lparr>ls_lines := ls_lines s @
               [\<lparr>ll_level = level, ll_module = modname, ll_event = event, ll_extra = log_extra kw\<rparr>]\<rparr>)))"

section \<open>Rendering a line\<close>

text \<open>
  \<^verbatim>\<open>StructuredFormatter.format\<close> up to the JSON encoding: the payload dictionary. The fixed
  fields come first; of the record's own attributes only the extras survive the skip list.
  An extra named \<^verbatim>\<open>getMessage\<close> shadows the method, so the message cannot be read.
\<close>

definition FORMAT_SKIPPED :: "string list" where
  "FORMAT_SKIPPED = [''args'', ''msg'', ''levelno'', ''levelname'', ''pathname'', ''filename'', ''module'',
     ''name'', ''message'', ''asctime'', ''exc_info'', ''exc_text'', ''stack_info'', ''lineno'',
     ''funcName'', ''created'', ''msecs'', ''relativeCreated'', ''thread'', ''threadName'',
     ''processName'', ''process'', ''taskName'']"

definition LOG_FIELDS :: "string list" where
  "LOG_FIELDS = [''timestamp'', ''level'', ''module'', ''call_id'', ''direction'', ''peer'', ''event'']"

definition attr_or :: "fields \<Rightarrow> string \<Rightarrow> pyval \<Rightarrow> pyval" where
  "attr_or extra k d = (case map_of extra k of None \<Rightarrow> d | Some v \<Rightarrow> v)"

definition mandatory_payload :: "string \<Rightarrow> log_line \<Rightarrow> fields" where
  "mandatory_payload ts l =
     [(''timestamp'', PStr ts), (''level'', PStr (level_name (ll_level l))),
      (''module'', PStr (ll_module l)),
      (''call_id'', attr_or (ll_extra l) ''call_id'' DEFAULT_UNKNOWN),
      (''direction'', attr_or (ll_extra l) ''direction'' DEFAULT_DIRECTION),
      (''peer'', attr_or (ll_extra l) ''peer'' DEFAULT_UNKNOWN),
      (''event'', PStr (ll_event l))]"

definition format_keeps :: "fields \<Rightarrow> string \<Rightarrow> pyval \<Rightarrow> bool" where
  "format_keeps payload k v \<longleftrightarrow>
     k \<notin> set (od_keys payload) \<and> \<not> startswith k ''_'' \<and> k \<notin> set FORMAT_SKIPPED \<and> v \<noteq> PNone"

fun format_extras :: "fields \<Rightarrow> fields \<Rightarrow> fields" where
  "format_extras payload [] = payload"
| "format_extras payload ((k, v) # rest) =
     format_extras (if format_keeps payload k v then payload @ [(k, v)] else payload) rest"

definition format :: "string \<Rightarrow> log_line \<Rightarrow> pyexc + fields" where
  "format ts l =
     (if map_of (ll_extra l) ''getMessage'' \<noteq> None then Inl TypeError
      else Inr (format_extras (mandatory_payload ts l) (ll_extra l)))"

section \<open>Facts\<close>

lemma log_kwargs_okD: "log_kwargs_ok kw \<Longrightarrow> distinct (od_keys kw)"
  by (simp add: log_kwargs_ok_def)

lemma log_extra_lookup:
  assumes "distinct (od_keys kw)"
  shows "map_of (log_extra kw) k =
    (if k = ''direction'' then Some (attr_or kw ''direction'' DEFAULT_DIRECTION)
     else if k \<in> {''call_id'', ''peer''} then
       Some (case map_of kw k of None \<Rightarrow> DEFAULT_UNKNOWN | Some v \<Rightarrow> py_or v DEFAULT_UNKNOWN)
     else map_of kw k)"
proof -
  let ?rest = "filter (\<lambda>(k, v). k \<notin> set named_kwargs) kw"
  have d: "distinct (od_keys ?rest)"
    using assms by (induction kw) auto
  have rest: "map_of ?rest j = (if j \<in> set named_kwargs then None else map_of kw j)" for j
    by (induction kw) auto
  show ?thesis
    unfolding log_extra_def map_of_od_update [OF d] rest
    by (auto simp: named_kwargs_def attr_or_def split: option.splits)
qed

lemma log_extra_keys:
  "set (od_keys (log_extra kw)) = {''call_id'', ''direction'', ''peer''} \<union> set (od_keys kw)"
proof -
  have "set (od_keys (filter (\<lambda>(k, v). k \<notin> set named_kwargs) kw)) = set (od_keys kw) - set named_kwargs"
    by (induction kw) auto
  then show ?thesis
    unfolding log_extra_def keys_od_update by (auto simp: named_kwargs_def)
qed

lemma log_event_run [run_simps]:
  "log_event m lev ev kw s =
     (if \<not> log_kwargs_ok kw then (Inl TypeError, s)
      else if lev \<le> 0 \<or> lev < ls_threshold s then (Inr (), s)
      else if list_ex reserved_attr (od_keys (log_extra kw)) then (Inl KeyError, s)
      else (Inr (), s\<lparr>ls_lines := ls_lines s @
             [\<lparr>ll_level = lev, ll_module = m, ll_event = ev, ll_extra = log_extra kw\<rparr>]\<rparr>))"
  by (simp add: log_event_def)

text \<open>A call whose fields avoid the reserved names never raises.\<close>

definition fields_clean :: "fields \<Rightarrow> bool" where
  "fields_clean kw \<longleftrightarrow> log_kwargs_ok kw \<and> list_all (\<lambda>k. \<not> reserved_attr k) (od_keys kw)"

lemma reserved_named [simp]:
  "\<not> reserved_attr ''call_id''" "\<not> reserved_attr ''direction''" "\<not> reserved_attr ''peer''"
  by (simp_all add: reserved_attr_def RECORD_ATTRS_def)

lemma fields_clean_extra: "fields_clean kw \<Longrightarrow> \<not> list_ex reserved_attr (od_keys (log_extra kw))"
  unfolding list_ex_iff log_extra_keys by (auto simp: fields_clean_def list_all_iff)

lemma log_event_clean:
  "fields_clean kw \<Longrightarrow> fst (log_event m lev ev kw s) = Inr ()"
  by (simp add: log_event_run fields_clean_extra) (simp add: fields_clean_def)

lemma log_event_threshold [simp]: "ls_threshold (snd (log_event m lev ev kw s)) = ls_threshold s"
  by (simp add: log_event_run)

lemma format_extras_prefix: "\<exists>xs. format_extras payload ex = payload @ xs"
  by (induction payload ex rule: format_extras.induct) auto

lemma format_extras_wf: "distinct (od_keys payload) \<Longrightarrow> distinct (od_keys (format_extras payload ex))"
  by (induction payload ex rule: format_extras.induct) (auto simp: format_keeps_def)

lemma map_of_format_extras_in:
  "k \<in> set (od_keys payload) \<Longrightarrow> map_of (format_extras payload ex) k = map_of payload k"
proof -
  assume "k \<in> set (od_keys payload)"
  then obtain v where "map_of payload k = Some v"
    by (cases "map_of payload k") (simp_all only: map_of_eq_None_iff option.inject ex_simps, auto)
  moreover obtain xs where "format_extras payload ex = payload @ xs"
    using format_extras_prefix by blast
  ultimately show ?thesis by (simp add: map_add_Some_iff)
qed

lemma map_of_format_extras:
  "distinct (od_keys ex) \<Longrightarrow> k \<notin> set (od_keys payload) \<Longrightarrow>
   map_of (format_extras payload ex) k =
     (case map_of ex k of None \<Rightarrow> None | Some v \<Rightarrow> if format_keeps payload k v then Some v else None)"
proof (induction payload ex rule: format_extras.induct)
  case (1 payload)
  then show ?case by (simp add: map_of_eq_None_iff)
next
  case (2 payload j v rest)
  show ?case
  proof (cases "k = j")
    case True
    then have nin: "k \<notin> set (od_keys rest)" using "2.prems" by auto
    show ?thesis
    proof (cases "format_keeps payload j v")
      case keep: True
      then have "map_of (format_extras (payload @ [(k, v)]) rest) k = map_of (payload @ [(k, v)]) k"
        by (intro map_of_format_extras_in) simp
      also have "\<dots> = Some v"
        using "2.prems"(2) by (simp add: map_add_def map_of_eq_None_iff [THEN iffD2] split: option.splits)
      finally show ?thesis using True keep by simp
    next
      case False
      with True nin 2 show ?thesis by (simp add: map_of_eq_None_iff [THEN iffD2])
    qed
  next
    case False
    let ?p = "if format_keeps payload j v then payload @ [(j, v)] else payload"
    have keeps: "format_keeps ?p k = format_keeps payload k"
      using False by (auto simp: format_keeps_def fun_eq_iff)
    have "map_of (format_extras ?p rest) k =
      (case map_of rest k of None \<Rightarrow> None | Some v \<Rightarrow> if format_keeps ?p k v then Some v else None)"
      using 2 False by simp
    then show ?thesis using False by (simp only: format_extras.simps keeps) simp
  qed
qed

lemma mandatory_keys [simp]: "od_keys (mandatory_payload ts l) = LOG_FIELDS"
  by (simp add: mandatory_payload_def LOG_FIELDS_def)

text \<open>
  The field contract of a log line. An event of positive level, at or above the logger's, whose
  fields avoid the reserved names, appends one line, and that line renders as the seven
  documented fields in their order followed by the extras: each extra the caller gave is
  there with its value, unless it is None, private (a leading underscore), the
  \<^verbatim>\<open>taskName\<close> attribute or named like one of the seven fields.
\<close>
lemma log_line_field_contract:
  assumes "fields_clean kw" and "ls_threshold s \<le> lev" "0 < lev" and "''getMessage'' \<notin> set (od_keys kw)"
  shows "\<exists>line payload.
     log_event m lev ev kw s = (Inr (), s\<lparr>ls_lines := ls_lines s @ [line]\<rparr>)
   \<and> format ts line = Inr payload
   \<and> take 7 (od_keys payload) = LOG_FIELDS \<and> distinct (od_keys payload)
   \<and> map_of payload ''event'' = Some (PStr ev)
   \<and> (\<forall>k v. map_of kw k = Some v \<and> k \<notin> set LOG_FIELDS \<longrightarrow>
        map_of payload k =
          (if v = PNone \<or> startswith k ''_'' \<or> k = ''taskName'' then None else Some v))"
proof -
  let ?line = "\<lparr>ll_level = lev, ll_module = m, ll_event = ev, ll_extra = log_extra kw\<rparr>"
  let ?pay = "format_extras (mandatory_payload ts ?line) (log_extra kw)"
  have dk: "distinct (od_keys kw)" using assms(1) by (simp add: fields_clean_def log_kwargs_ok_def)
  have de: "distinct (od_keys (log_extra kw))"
    unfolding log_extra_def by (fold od_wf_def, rule od_wf_od_update) (simp add: od_wf_def)
  have ev: "log_event m lev ev kw s = (Inr (), s\<lparr>ls_lines := ls_lines s @ [?line]\<rparr>)"
    using assms fields_clean_extra [OF assms(1)] by (simp add: log_event_run fields_clean_def)
  have fmt: "format ts ?line = Inr ?pay"
    using assms(4) by (simp add: format_def log_extra_lookup [OF dk] map_of_eq_None_iff)
  obtain xs where xs: "?pay = mandatory_payload ts ?line @ xs" using format_extras_prefix by blast
  then have "take 7 (od_keys ?pay) = LOG_FIELDS" by (simp add: LOG_FIELDS_def)
  moreover have "distinct (od_keys ?pay)"
    by (rule format_extras_wf) (simp add: LOG_FIELDS_def)
  moreover have "map_of ?pay ''event'' = Some (PStr ev)"
    by (subst map_of_format_extras_in) (simp_all add: LOG_FIELDS_def mandatory_payload_def)
  moreover have "map_of ?pay k = (if v = PNone \<or> startswith k ''_'' \<or> k = ''taskName'' then None else Some v)"
    if kv: "map_of kw k = Some v" and nf: "k \<notin> set LOG_FIELDS" for k v
  proof -
    have "k \<in> set (od_keys kw)" using kv by (auto dest: map_of_SomeD intro: rev_image_eqI)
    then have "\<not> reserved_attr k" using assms(1) by (auto simp: fields_clean_def list_all_iff)
    then have skip: "k \<in> set FORMAT_SKIPPED \<longleftrightarrow> k = ''taskName''"
      by (auto simp: reserved_attr_def RECORD_ATTRS_def FORMAT_SKIPPED_def)
    have "map_of (log_extra kw) k = Some v"
      using kv nf by (simp add: log_extra_lookup [OF dk] LOG_FIELDS_def)
    then show ?thesis
      using nf skip by (auto simp: map_of_format_extras [OF de] format_keeps_def)
  qed
  ultimately show ?thesis using ev fmt by blast
qed

end
