(* ===== verification/AsRecency.thy ===== *)
theory AsRecency
  imports AsPrelude
begin

text \<open>
  The recency discipline that the trace recorder and the caller-state store share: a
  container that orders its keys by last use and keeps the most recent ones.
\<close>

section \<open>Keeping the last entries\<close>

lemma last_n_filter:
  "distinct xs \<Longrightarrow> last_n n (filter (\<lambda>j. j \<noteq> k) (last_n (Suc n) xs)) = last_n n (filter (\<lambda>j. j \<noteq> k) xs)"
proof (induction xs arbitrary: n rule: rev_induct)
  case Nil
  then show ?case by (simp add: last_n_def)
next
  case (snoc x xs)
  show ?case
  proof (cases "x = k")
    case True
    then have "k \<notin> set xs" using snoc.prems by auto
    moreover have "k \<notin> set (last_n n xs)" using calculation set_last_n by fastforce
    ultimately show ?thesis by (simp add: last_n_snoc True filter_neq_absent)
  next
    case False
    then show ?thesis
      using snoc by (cases n) (simp_all add: last_n_snoc)
  qed
qed

lemma remdups_snoc: "remdups (ks @ [k]) = filter (\<lambda>j. j \<noteq> k) (remdups ks) @ [k]"
  by (induction ks) auto

lemma filter_last_n: "distinct xs \<Longrightarrow> filter (\<lambda>k. k \<in> set (last_n n xs)) xs = last_n n xs"
proof -
  assume d: "distinct xs"
  have eq: "xs = take (length xs - n) xs @ last_n n xs" by (simp add: last_n_def)
  define a where "a = take (length xs - n) xs"
  define b where "b = last_n n xs"
  have xs: "xs = a @ b" using eq by (simp add: a_def b_def)
  with d have "set a \<inter> set b = {}" by simp
  then have "filter (\<lambda>k. k \<in> set b) a = []" by (auto simp: filter_empty_conv)
  moreover have "filter (\<lambda>k. k \<in> set b) b = b" by simp
  ultimately have "filter (\<lambda>k. k \<in> set b) (a @ b) = b" by (simp only: filter_append append_Nil)
  then show ?thesis using xs b_def by metis
qed

lemma in_last_n_iff:
  "distinct xs \<Longrightarrow> k \<in> set (last_n n xs) \<longleftrightarrow> k \<in> set xs \<and> k \<notin> set (take (length xs - n) xs)"
proof -
  assume d: "distinct xs"
  define a where "a = take (length xs - n) xs"
  define b where "b = last_n n xs"
  have xs: "xs = a @ b" by (simp add: a_def b_def last_n_def)
  then have "set a \<inter> set b = {}" using d by simp
  then have "k \<in> set b \<longleftrightarrow> k \<in> set (a @ b) \<and> k \<notin> set a" by auto
  then have "k \<in> set b \<longleftrightarrow> k \<in> set xs \<and> k \<notin> set a" by (simp only: xs [symmetric])
  then show ?thesis by (simp only: a_def b_def)
qed

lemma delete_filter: "AList.delete k d = filter (\<lambda>e. fst e \<noteq> k) d"
  by (induction d) auto

lemma map_of_last_n:
  assumes "distinct (od_keys d)"
  shows "map_of (last_n n d) k = (if k \<in> set (last_n n (od_keys d)) then map_of d k else None)"
proof -
  have split: "d = take (length d - n) d @ last_n n d" by (simp add: last_n_def)
  have keys: "set (od_keys (last_n n d)) = set (last_n n (od_keys d))" by (simp add: map_last_n)
  have "distinct (od_keys (take (length d - n) d @ last_n n d))" using assms split by metis
  then have disj: "set (od_keys (take (length d - n) d)) \<inter> set (od_keys (last_n n d)) = {}"
    by (simp del: set_map)
  show ?thesis
  proof (cases "k \<in> set (od_keys (last_n n d))")
    case True
    then obtain v where "map_of (last_n n d) k = Some v"
      by (cases "map_of (last_n n d) k") (auto simp: map_of_eq_None_iff)
    moreover from this have "map_of (take (length d - n) d) k = None"
      using disj True by (simp only: map_of_eq_None_iff set_map [symmetric]) blast
    ultimately have "map_of (take (length d - n) d @ last_n n d) k = Some v"
      by (simp add: map_add_def)
    then have "map_of d k = Some v" using split by simp
    moreover note \<open>map_of (last_n n d) k = Some v\<close>
    ultimately show ?thesis using True keys by simp
  next
    case False
    then have "map_of (last_n n d) k = None" by (simp add: map_of_eq_None_iff)
    then show ?thesis using False keys by simp
  qed
qed

lemma od_wf_last_n: "od_wf d \<Longrightarrow> od_wf (last_n n d)"
  by (simp add: od_wf_def map_last_n) (simp add: last_n_def)

section \<open>The interface of a recency store\<close>

text \<open>
  A store that keeps the most recently touched keys: touching a key moves it behind all
  others and then keeps only the last \<open>cap\<close>. What a client relies on is that it can tell
  from the touches alone which keys are still there, and in which order.
\<close>

locale recency_store =
  fixes touch :: "'k \<Rightarrow> 's \<Rightarrow> 's"
    and keys :: "'s \<Rightarrow> 'k list"
    and cap :: nat
    and inv :: "'s \<Rightarrow> bool"
  assumes keys_touch: "inv s \<Longrightarrow> keys (touch k s) = last_n cap (filter (\<lambda>j. j \<noteq> k) (keys s) @ [k])"
    and inv_touch: "inv s \<Longrightarrow> inv (touch k s)"
begin

lemma keys_after:
  assumes "inv s" and "keys s = []"
  shows "keys (fold touch ks s) = last_n cap (remdups ks) \<and> inv (fold touch ks s)"
proof (induction ks rule: rev_induct)
  case Nil
  then show ?case using assms by (simp add: last_n_def)
next
  case (snoc k ks)
  then have "keys (fold touch (ks @ [k]) s) =
      last_n cap (filter (\<lambda>j. j \<noteq> k) (last_n cap (remdups ks)) @ [k])"
    by (simp add: keys_touch)
  also have "\<dots> = last_n cap (remdups (ks @ [k]))"
    by (cases cap) (simp_all add: remdups_snoc last_n_snoc last_n_filter)
  finally show ?case using snoc by (simp add: inv_touch)
qed

lemma bounded: "inv s \<Longrightarrow> length (keys (touch k s)) \<le> cap"
  by (simp add: keys_touch)

lemma survives:
  assumes "inv s" "keys s = []" "k \<notin> set later" "length (remdups later) < cap"
  shows "k \<in> set (keys (fold touch (ks @ k # later) s))"
proof -
  have "\<exists>zs. remdups (ks @ k # later) = zs @ k # remdups later"
    using assms(3) by (induction ks) auto
  then obtain zs where zs: "remdups (ks @ k # later) = (zs @ [k]) @ remdups later" by auto
  have "keys (fold touch (ks @ k # later) s) = last_n cap ((zs @ [k]) @ remdups later)"
    using keys_after [OF assms(1,2)] zs by metis
  also have "\<dots> = last_n (cap - length (remdups later)) (zs @ [k]) @ last_n cap (remdups later)"
    by (rule last_n_append)
  finally show ?thesis
    using assms(4) by (cases "cap - length (remdups later)") (simp_all add: last_n_snoc)
qed

end

end
