(* ===== verification/PyRegex.thy ===== *)
theory PyRegex
  imports AsPrelude
begin

text \<open>
  The part of Python's \<^verbatim>\<open>re\<close> module the platform's patterns use: classes, greedy
  repetitions of a class, sequences, a greedy optional part, numbered groups and the
  anchors of \<^verbatim>\<open>MULTILINE\<close> mode. \<open>ms\<close> lists the ways a pattern matches at a position in
  the order in which the backtracking matcher tries them, so the first one is the match
  Python returns.
\<close>

section \<open>Patterns and their matches\<close>

datatype pre =
    Eps
  | Cls "char \<Rightarrow> bool"
  | Star "char \<Rightarrow> bool"
  | Plus "char \<Rightarrow> bool"
  | Seq pre pre
  | Opt pre
  | Grp nat pre
  | Bol
  | Eol

abbreviation Lit :: "char \<Rightarrow> pre" where
  "Lit c \<equiv> Cls (\<lambda>x. x = c)"

text \<open>\<^verbatim>\<open>IGNORECASE\<close> for an ASCII letter given in lower case.\<close>

definition to_lower :: "char \<Rightarrow> char" where
  "to_lower c = (let n = (of_char c :: nat) in if 65 \<le> n \<and> n \<le> 90 then char_of (n + 32) else c)"

abbreviation LitI :: "char \<Rightarrow> pre" where
  "LitI c \<equiv> Cls (\<lambda>x. to_lower x = c)"

fun seqs :: "pre list \<Rightarrow> pre" where
  "seqs [] = Eps"
| "seqs [r] = r"
| "seqs (r # rs) = Seq r (seqs rs)"

type_synonym captures = "(nat \<times> string) list"

text \<open>The character before a position after \<open>c\<close> has been consumed.\<close>

definition adv :: "char option \<Rightarrow> string \<Rightarrow> char option" where
  "adv prev c = (if c = [] then prev else Some (last c))"

definition newline :: char where
  "newline = CHR 0x0A"

text \<open>The prefixes of \<open>s\<close> of length \<open>hi\<close> down to \<open>lo\<close>, each with the rest.\<close>

fun prefixes_down :: "nat \<Rightarrow> nat \<Rightarrow> string \<Rightarrow> (string \<times> string \<times> captures) list" where
  "prefixes_down lo 0 s = (if lo = 0 then [([], s, [])] else [])"
| "prefixes_down lo (Suc n) s =
     (if Suc n < lo then [] else (take (Suc n) s, drop (Suc n) s, []) # prefixes_down lo n s)"

fun ms :: "pre \<Rightarrow> char option \<Rightarrow> string \<Rightarrow> (string \<times> string \<times> captures) list" where
  "ms Eps prev s = [([], s, [])]"
| "ms (Cls p) prev s = (case s of [] \<Rightarrow> [] | x # xs \<Rightarrow> if p x then [([x], xs, [])] else [])"
| "ms (Star p) prev s = prefixes_down 0 (length (takeWhile p s)) s"
| "ms (Plus p) prev s = prefixes_down 1 (length (takeWhile p s)) s"
| "ms (Seq a b) prev s =
     concat (map (\<lambda>(c, r, g). map (\<lambda>(c', r', g'). (c @ c', r', g @ g')) (ms b (adv prev c) r))
                 (ms a prev s))"
| "ms (Opt a) prev s = ms a prev s @ [([], s, [])]"
| "ms (Grp n a) prev s = map (\<lambda>(c, r, g). (c, r, (n, c) # g)) (ms a prev s)"
| "ms Bol prev s = (if prev = None \<or> prev = Some newline then [([], s, [])] else [])"
| "ms Eol prev s = (case s of [] \<Rightarrow> [([], s, [])]
                    | x # _ \<Rightarrow> if x = newline then [([], s, [])] else [])"

text \<open>\<open>pattern.match(s)\<close> and \<open>pattern.search(s)\<close>: the captured groups, if any match.\<close>

definition re_match :: "pre \<Rightarrow> string \<Rightarrow> captures option" where
  "re_match r s = (case ms r None s of [] \<Rightarrow> None | (_, _, g) # _ \<Rightarrow> Some g)"

fun re_search_from :: "pre \<Rightarrow> char option \<Rightarrow> string \<Rightarrow> captures option" where
  "re_search_from r prev [] = (case ms r prev [] of [] \<Rightarrow> None | (_, _, g) # _ \<Rightarrow> Some g)"
| "re_search_from r prev (x # xs) =
     (case ms r prev (x # xs) of
        [] \<Rightarrow> re_search_from r (Some x) xs
      | (_, _, g) # _ \<Rightarrow> Some g)"

definition re_search :: "pre \<Rightarrow> string \<Rightarrow> captures option" where
  "re_search r s = re_search_from r None s"

section \<open>Facts about matching\<close>

lemma ms_Lit_Cons [simp]: "ms (Cls p) prev (x # xs) = (if p x then [([x], xs, [])] else [])"
  by simp

lemma prefixes_down_head:
  "lo \<le> n \<Longrightarrow> prefixes_down lo n s =
     (take n s, drop n s, []) # (case n of 0 \<Rightarrow> [] | Suc m \<Rightarrow> prefixes_down lo m s)"
  by (cases n) auto

lemma prefixes_down_empty: "n < lo \<Longrightarrow> prefixes_down lo n s = []"
  by (cases n) auto

lemma takeWhile_drop_ne: "n < length (takeWhile p s) \<Longrightarrow> \<exists>x xs. drop n s = x # xs \<and> p x"
proof -
  assume n: "n < length (takeWhile p s)"
  then have "n < length s" using length_takeWhile_le order_less_le_trans by blast
  then have "drop n s = s ! n # drop (Suc n) s" by (rule Cons_nth_drop_Suc [symmetric])
  moreover have "p (s ! n)" using n by (metis nth_mem set_takeWhileD takeWhile_nth)
  ultimately show ?thesis by blast
qed

text \<open>
  A greedy repetition whose continuation cannot start inside the repeated class has one
  match at most: the whole run of the class.
\<close>

lemma concat_prefixes_short:
  assumes "\<And>c x xs. p x \<Longrightarrow> F (c, x # xs, []) = []" and "n < length (takeWhile p s)"
  shows "concat (map F (prefixes_down lo n s)) = []"
  using assms(2)
proof (induction n)
  case 0
  then obtain x xs where "s = x # xs" "p x" using takeWhile_drop_ne [of 0 p s] by auto
  with assms(1) show ?case by simp
next
  case (Suc n)
  then obtain x xs where "drop (Suc n) s = x # xs" "p x" using takeWhile_drop_ne by blast
  with assms(1) Suc show ?case by simp
qed

lemma concat_prefixes:
  assumes "\<And>c x xs. p x \<Longrightarrow> F (c, x # xs, []) = []"
  shows "concat (map F (prefixes_down lo (length (takeWhile p s)) s)) =
    (if lo \<le> length (takeWhile p s) then F (takeWhile p s, dropWhile p s, []) else [])"
proof (cases "lo \<le> length (takeWhile p s)")
  case True
  have eq: "take (length (takeWhile p s)) s = takeWhile p s"
    "drop (length (takeWhile p s)) s = dropWhile p s"
    by (simp_all add: takeWhile_eq_take [symmetric] dropWhile_eq_drop [symmetric])
  have "concat (map F (case length (takeWhile p s) of 0 \<Rightarrow> [] | Suc m \<Rightarrow> prefixes_down lo m s)) = []"
  proof (cases "length (takeWhile p s)")
    case (Suc m)
    then have "m < length (takeWhile p s)" by simp
    with assms have "concat (map F (prefixes_down lo m s)) = []"
      by (rule concat_prefixes_short)
    with Suc show ?thesis by simp
  qed simp
  with True eq show ?thesis by (simp only: prefixes_down_head list.map concat.simps) simp
next
  case False
  then show ?thesis by (simp add: prefixes_down_empty)
qed

definition starts_outside :: "pre \<Rightarrow> (char \<Rightarrow> bool) \<Rightarrow> bool" where
  "starts_outside b p \<longleftrightarrow> (\<forall>prev x xs. p x \<longrightarrow> ms b prev (x # xs) = [])"

lemma starts_outside_Cls: "(\<And>x. p x \<Longrightarrow> \<not> q x) \<Longrightarrow> starts_outside (Cls q) p"
  by (auto simp: starts_outside_def)

lemma starts_outside_Seq: "starts_outside a p \<Longrightarrow> starts_outside (Seq a b) p"
  by (simp add: starts_outside_def)

abbreviation seq_step ::
    "pre \<Rightarrow> char option \<Rightarrow> string \<times> string \<times> captures \<Rightarrow> (string \<times> string \<times> captures) list" where
  "seq_step b prev \<equiv>
     (\<lambda>x. map (\<lambda>y. (fst x @ fst y, fst (snd y), snd (snd x) @ snd (snd y)))
              (ms b (adv prev (fst x)) (fst (snd x))))"

lemma ms_Seq: "ms (Seq a b) prev s = concat (map (seq_step b prev) (ms a prev s))"
  by (simp add: case_prod_unfold)

lemma ms_Grp: "ms (Grp n a) prev s = map (\<lambda>x. (fst x, fst (snd x), (n, fst x) # snd (snd x))) (ms a prev s)"
  by (simp add: case_prod_beta)

lemma ms_Seq_Star:
  assumes "starts_outside b p"
  shows "ms (Seq (Star p) b) prev s = seq_step b prev (takeWhile p s, dropWhile p s, [])"
  unfolding ms_Seq ms.simps(3)
  by (subst concat_prefixes) (use assms in \<open>auto simp: starts_outside_def\<close>)

lemma ms_Seq_Plus:
  assumes "starts_outside b p"
  shows "ms (Seq (Plus p) b) prev s =
    (if takeWhile p s = [] then [] else seq_step b prev (takeWhile p s, dropWhile p s, []))"
  unfolding ms_Seq ms.simps(4)
  by (subst concat_prefixes) (use assms in \<open>auto simp: starts_outside_def Suc_le_eq\<close>)

lemma ms_Seq_Grp_Plus:
  assumes "starts_outside b p"
  shows "ms (Seq (Grp n (Plus p)) b) prev s =
    (if takeWhile p s = [] then []
     else seq_step b prev (takeWhile p s, dropWhile p s, [(n, takeWhile p s)]))"
proof -
  have "ms (Seq (Grp n (Plus p)) b) prev s = concat (map
      (\<lambda>x. seq_step b prev (fst x, fst (snd x), (n, fst x) # snd (snd x)))
      (prefixes_down 1 (length (takeWhile p s)) s))"
    unfolding ms_Seq ms_Grp ms.simps(4) by (simp add: comp_def)
  also have "\<dots> = (if 1 \<le> length (takeWhile p s) then
      seq_step b prev (takeWhile p s, dropWhile p s, [(n, takeWhile p s)]) else [])"
    by (subst concat_prefixes) (use assms in \<open>auto simp: starts_outside_def\<close>)
  finally show ?thesis by (simp add: Suc_le_eq)
qed

lemma re_search_from_skip:
  assumes "\<And>k. k < length pre \<Longrightarrow> ms r (adv prev (take k pre)) (drop k pre @ s) = []"
  shows "re_search_from r prev (pre @ s) = re_search_from r (adv prev pre) s"
  using assms
proof (induction pre arbitrary: prev)
  case Nil
  then show ?case by (simp add: adv_def)
next
  case (Cons x pre)
  from Cons.prems [of 0] have 0: "ms r prev (x # pre @ s) = []" by (simp add: adv_def)
  have "ms r (adv (Some x) (take k pre)) (drop k pre @ s) = []" if "k < length pre" for k
    using Cons.prems [of "Suc k"] that by (cases k; cases pre) (simp_all add: adv_def)
  then have "re_search_from r (Some x) (pre @ s) = re_search_from r (adv (Some x) pre) s"
    by (rule Cons.IH)
  with 0 show ?case by (simp add: adv_def)
qed

lemma re_search_from_here: "ms r prev s = (c, r', g) # xs \<Longrightarrow> re_search_from r prev s = Some g"
  by (cases s) simp_all

section \<open>Captured groups\<close>

text \<open>
  Only the groups of the first match are read by the code, so patterns are evaluated
  through the list of the captures of their matches.
\<close>

definition caps :: "pre \<Rightarrow> char option \<Rightarrow> string \<Rightarrow> captures list" where
  "caps r prev s = map (\<lambda>x. snd (snd x)) (ms r prev s)"

lemma re_match_caps: "re_match r s = (case caps r None s of [] \<Rightarrow> None | g # _ \<Rightarrow> Some g)"
  by (auto simp: re_match_def caps_def split: list.splits)

lemma re_search_from_caps:
  "re_search_from r prev s =
     (case caps r prev s of g # _ \<Rightarrow> Some g
      | [] \<Rightarrow> (case s of [] \<Rightarrow> None | x # xs \<Rightarrow> re_search_from r (Some x) xs))"
  by (cases s) (auto simp: caps_def split: list.splits)

lemma caps_Eps [simp]: "caps Eps prev s = [[]]"
  by (simp add: caps_def)

lemma caps_Cls [simp]:
  "caps (Cls p) prev [] = []"
  "caps (Cls p) prev (x # xs) = (if p x then [[]] else [])"
  by (simp_all add: caps_def)

lemma caps_Seq_Cls [simp]:
  "caps (Seq (Cls p) b) prev [] = []"
  "caps (Seq (Cls p) b) prev (x # xs) = (if p x then caps b (Some x) xs else [])"
  by (simp_all add: caps_def ms_Seq comp_def adv_def del: ms.simps(5))

lemma caps_Seq_Bol [simp]:
  "caps (Seq Bol b) prev s = (if prev = None \<or> prev = Some newline then caps b prev s else [])"
  by (cases prev) (simp_all add: caps_def ms_Seq comp_def adv_def del: ms.simps(5))

lemma caps_Seq_Opt: "caps (Seq (Opt a) b) prev s = caps (Seq a b) prev s @ caps b prev s"
  by (simp add: caps_def ms_Seq comp_def adv_def del: ms.simps(5))

lemma caps_Opt: "caps (Opt a) prev s = caps a prev s @ [[]]"
  by (simp add: caps_def)

lemma caps_Seq_Star:
  "starts_outside b p \<Longrightarrow>
   caps (Seq (Star p) b) prev s = caps b (adv prev (takeWhile p s)) (dropWhile p s)"
  by (simp add: caps_def ms_Seq_Star comp_def del: ms.simps(5))

lemma caps_Seq_Grp_Plus:
  "starts_outside b p \<Longrightarrow> caps (Seq (Grp n (Plus p)) b) prev s =
    (if takeWhile p s = [] then []
     else map (\<lambda>g. (n, takeWhile p s) # g) (caps b (adv prev (takeWhile p s)) (dropWhile p s)))"
  by (simp add: caps_def ms_Seq_Grp_Plus comp_def del: ms.simps(5))

lemma caps_Grp: "caps (Grp n a) prev s = map (\<lambda>x. (n, fst x) # snd (snd x)) (ms a prev s)"
  by (simp only: caps_def ms_Grp list.map_comp) (simp add: comp_def)

lemma caps_Seq_Grp_delimited:
  assumes "\<not> p c"
  shows "caps (Seq (Grp n (Seq (Plus p) (Lit c))) b) prev s =
    (case dropWhile p s of
       [] \<Rightarrow> []
     | x # r \<Rightarrow> if takeWhile p s \<noteq> [] \<and> x = c
                then map (\<lambda>g. (n, takeWhile p s @ [c]) # g) (caps b (Some c) r) else [])"
proof -
  define tw d where "tw = takeWhile p s" and "d = dropWhile p s"
  have "starts_outside (Lit c) p" using assms by (auto simp: starts_outside_def)
  then have "ms (Seq (Plus p) (Lit c)) prev s =
      (if tw = [] then [] else seq_step (Lit c) prev (tw, d, []))"
    by (simp only: ms_Seq_Plus tw_def d_def)
  then have "ms (Seq (Plus p) (Lit c)) prev s =
      (case d of [] \<Rightarrow> [] | x # r \<Rightarrow> if tw \<noteq> [] \<and> x = c then [(tw @ [c], r, [])] else [])"
    by (cases d) auto
  then show ?thesis
    unfolding tw_def [symmetric] d_def [symmetric]
    by (cases d) (auto simp: caps_def ms_Seq ms_Grp adv_def comp_def simp del: ms.simps(5,7))
qed

lemma ms_Plus_first:
  "takeWhile p s \<noteq> [] \<Longrightarrow> \<exists>xs. ms (Plus p) prev s = (takeWhile p s, dropWhile p s, []) # xs"
proof -
  assume "takeWhile p s \<noteq> []"
  then have le: "1 \<le> length (takeWhile p s)" by (simp add: Suc_le_eq)
  have eq: "take (length (takeWhile p s)) s = takeWhile p s"
    "drop (length (takeWhile p s)) s = dropWhile p s"
    by (simp_all add: takeWhile_eq_take [symmetric] dropWhile_eq_drop [symmetric])
  show ?thesis
    unfolding ms.simps(4) prefixes_down_head [OF le] eq by (rule exI) (rule refl)
qed

text \<open>A greedy repetition whose continuation always matches takes the whole run first.\<close>

lemma caps_Seq_Grp_Plus_greedy:
  assumes "takeWhile p s \<noteq> []"
  shows "\<exists>more. caps (Seq (Grp n (Plus p)) b) prev s =
     map (\<lambda>g. (n, takeWhile p s) # g) (caps b (adv prev (takeWhile p s)) (dropWhile p s)) @ more"
proof -
  obtain xs where "ms (Plus p) prev s = (takeWhile p s, dropWhile p s, []) # xs"
    using ms_Plus_first [OF assms] by blast
  then show ?thesis
    by (simp only: caps_def ms_Seq ms_Grp list.map concat.simps map_append) auto
qed

lemma caps_Seq_Grp_Plus_none: "takeWhile p s = [] \<Longrightarrow> caps (Seq (Grp n (Plus p)) b) prev s = []"
  by (simp add: caps_def ms_Seq ms_Grp del: ms.simps(5,7))

lemma re_search_from_first:
  "caps r prev s = g # gs \<Longrightarrow> re_search_from r prev s = Some g"
  by (subst re_search_from_caps) simp

end
