(* ===== verification/AsTracing.thy ===== *)
theory AsTracing
  imports AsLogging AsRecency PyRegex
begin

text \<open>
  The bounded call trace, the SIP message recorder and the dual logger of
  \<^verbatim>\<open>observability/tracing.py\<close>. Every method runs under its object's lock and is one
  definition here. The clock of \<^verbatim>\<open>datetime.now\<close> is an argument.
\<close>

section \<open>Traces\<close>

definition DEFAULT_MAX_TRACED_CALLS :: int where [simp]: "DEFAULT_MAX_TRACED_CALLS = 200"
definition DEFAULT_MAX_CAPTURED_MESSAGES :: int where [simp]: "DEFAULT_MAX_CAPTURED_MESSAGES = 5000"
definition RECEIVED_PREFIX :: string where [simp]: "RECEIVED_PREFIX = ''RECEIVED''"

record trace_event =
  te_timestamp :: int
  te_call_id :: string
  te_direction :: string
  te_method :: string
  te_summary :: string
  te_peer :: string
  te_rule_id :: pyval
  te_attributes :: fields

record call_trace =
  ct_call_id :: string
  ct_events :: "trace_event list"

record trace_recorder =
  tr_max_calls :: int
  tr_traces :: "(string, trace_event list) odict"

definition mk_trace_recorder :: "int \<Rightarrow> trace_recorder" where
  "mk_trace_recorder n = \<lparr>tr_max_calls = n, tr_traces = []\<rparr>"

definition odict_get :: "('k, 'v list) odict \<Rightarrow> 'k \<Rightarrow> 'v list" where
  "odict_get d k = (case map_of d k of None \<Rightarrow> [] | Some v \<Rightarrow> v)"

text \<open>
  \<^verbatim>\<open>TraceRecorder.record\<close>: append under the Call-ID, move the call behind all others, drop
  the oldest calls. The attributes are copied.
\<close>

definition trace_record ::
    "int \<Rightarrow> string \<Rightarrow> string \<Rightarrow> string \<Rightarrow> string \<Rightarrow> string \<Rightarrow> pyval \<Rightarrow> fields
     \<Rightarrow> (pyexc, trace_recorder, trace_event) prog" where
  "trace_record now call_id direction method summary peer rule_id attributes r =
     (let e = \<lparr>te_timestamp = now, te_call_id = call_id, te_direction = direction,
               te_method = method, te_summary = summary, te_peer = peer, te_rule_id = rule_id,
               te_attributes = attributes\<rparr>;
          d = od_move_to_end call_id
                (AList.update call_id (odict_get (tr_traces r) call_id @ [e]) (tr_traces r))
      in case drop_oldest KeyError (tr_max_calls r) d of
           (Inl x, d') \<Rightarrow> (Inl x, r\<lparr>tr_traces := d'\<rparr>)
         | (Inr _, d') \<Rightarrow> (Inr e, r\<lparr>tr_traces := d'\<rparr>))"

definition trace_for :: "string \<Rightarrow> trace_recorder \<Rightarrow> call_trace" where
  "trace_for call_id r = \<lparr>ct_call_id = call_id, ct_events = odict_get (tr_traces r) call_id\<rparr>"

definition recent :: "int \<Rightarrow> trace_recorder \<Rightarrow> call_trace list" where
  "recent limit r =
     map (\<lambda>(cid, evs). \<lparr>ct_call_id = cid, ct_events = evs\<rparr>) (py_take limit (rev (tr_traces r)))"

definition known_call_ids :: "trace_recorder \<Rightarrow> string list" where
  "known_call_ids r = rev (od_keys (tr_traces r))"

definition trace_clear :: "trace_recorder \<Rightarrow> trace_recorder" where
  "trace_clear r = r\<lparr>tr_traces := []\<rparr>"

text \<open>The well-formed recorders: distinct Call-IDs, within the bound.\<close>

definition tracer_ok :: "trace_recorder \<Rightarrow> bool" where
  "tracer_ok r \<longleftrightarrow> 0 \<le> tr_max_calls r \<and> od_wf (tr_traces r)"

definition the_event ::
    "int \<Rightarrow> string \<Rightarrow> string \<Rightarrow> string \<Rightarrow> string \<Rightarrow> string \<Rightarrow> pyval \<Rightarrow> fields \<Rightarrow> trace_event" where
  "the_event now call_id direction method summary peer rule_id attributes =
     \<lparr>te_timestamp = now, te_call_id = call_id, te_direction = direction, te_method = method,
      te_summary = summary, te_peer = peer, te_rule_id = rule_id, te_attributes = attributes\<rparr>"

lemma trace_record_ok:
  assumes "tracer_ok r"
  shows "trace_record now cid dir meth summ peer rid attrs r =
    (Inr (the_event now cid dir meth summ peer rid attrs),
     r\<lparr>tr_traces := last_n (nat (tr_max_calls r))
          (od_move_to_end cid (AList.update cid
             (odict_get (tr_traces r) cid @ [the_event now cid dir meth summ peer rid attrs])
             (tr_traces r)))\<rparr>)"
  using assms by (simp add: trace_record_def Let_def drop_oldest_nonneg tracer_ok_def the_event_def)

lemma tracer_ok_record:
  "tracer_ok r \<Longrightarrow> tracer_ok (snd (trace_record now cid dir meth summ peer rid attrs r))"
  by (simp add: trace_record_ok) (simp add: tracer_ok_def od_wf_last_n)

lemma max_calls_record [simp]:
  "tr_max_calls (snd (trace_record now cid dir meth summ peer rid attrs r)) = tr_max_calls r"
  by (auto simp: trace_record_def Let_def split: prod.split sum.split)

lemma keys_trace_record:
  "tracer_ok r \<Longrightarrow> od_keys (tr_traces (snd (trace_record now cid dir meth summ peer rid attrs r))) =
     last_n (nat (tr_max_calls r)) (filter (\<lambda>k. k \<noteq> cid) (od_keys (tr_traces r)) @ [cid])"
  by (simp add: trace_record_ok map_last_n keys_touch)

text \<open>The events of the recorded call grow by this one; another call's are kept whole or dropped.\<close>

lemma trace_for_record:
  assumes "tracer_ok r" and "0 < tr_max_calls r"
  shows "ct_events (trace_for cid (snd (trace_record now cid dir meth summ peer rid attrs r))) =
      ct_events (trace_for cid r) @ [the_event now cid dir meth summ peer rid attrs]"
proof -
  let ?d = "od_move_to_end cid (AList.update cid
             (odict_get (tr_traces r) cid @ [the_event now cid dir meth summ peer rid attrs])
             (tr_traces r))"
  have wf: "od_wf ?d" using assms(1) by (simp add: tracer_ok_def)
  obtain n where n: "nat (tr_max_calls r) = Suc n" using assms(2) by (cases "nat (tr_max_calls r)") auto
  have "cid \<in> set (last_n (Suc n) (od_keys ?d))" unfolding keys_touch last_n_snoc by simp
  then show ?thesis
    using wf unfolding od_wf_def
    by (simp add: trace_record_ok [OF assms(1)] trace_for_def odict_get_def map_of_last_n n update_conv')
qed

lemma trace_for_record_other:
  assumes "tracer_ok r" and "other \<noteq> cid"
  shows "ct_events (trace_for other (snd (trace_record now cid dir meth summ peer rid attrs r)))
    \<in> {ct_events (trace_for other r), []}"
proof -
  let ?d = "od_move_to_end cid (AList.update cid
             (odict_get (tr_traces r) cid @ [the_event now cid dir meth summ peer rid attrs])
             (tr_traces r))"
  have "od_wf ?d" using assms(1) by (simp add: tracer_ok_def)
  then show ?thesis
    using assms(2) unfolding od_wf_def
    by (simp add: trace_record_ok [OF assms(1)] trace_for_def odict_get_def map_of_last_n update_conv')
qed

section \<open>Runs of the recorder\<close>

text \<open>One recording call: time, Call-ID and the event's fields.\<close>

record trace_call =
  tc_now :: int
  tc_call_id :: string
  tc_direction :: string
  tc_method :: string
  tc_summary :: string
  tc_peer :: string
  tc_rule_id :: pyval
  tc_attributes :: fields

definition apply_trace_call :: "trace_call \<Rightarrow> trace_recorder \<Rightarrow> trace_recorder" where
  "apply_trace_call c r = snd (trace_record (tc_now c) (tc_call_id c) (tc_direction c) (tc_method c)
     (tc_summary c) (tc_peer c) (tc_rule_id c) (tc_attributes c) r)"

definition plain_call :: "string \<Rightarrow> trace_call" where
  "plain_call cid = \<lparr>tc_now = 0, tc_call_id = cid, tc_direction = INTERNAL, tc_method = [],
     tc_summary = [], tc_peer = ''-'', tc_rule_id = PNone, tc_attributes = []\<rparr>"

definition recorder_with_bound :: "nat \<Rightarrow> trace_recorder \<Rightarrow> bool" where
  "recorder_with_bound n r \<longleftrightarrow> tracer_ok r \<and> tr_max_calls r = int n"

lemma apply_trace_call_keys:
  "recorder_with_bound n r \<Longrightarrow> od_keys (tr_traces (apply_trace_call c r)) =
     last_n n (filter (\<lambda>k. k \<noteq> tc_call_id c) (od_keys (tr_traces r)) @ [tc_call_id c])"
  by (simp add: recorder_with_bound_def apply_trace_call_def keys_trace_record)

lemma apply_trace_call_bound:
  "recorder_with_bound n r \<Longrightarrow> recorder_with_bound n (apply_trace_call c r)"
  by (simp add: recorder_with_bound_def apply_trace_call_def tracer_ok_record)

interpretation tr: recency_store "\<lambda>cid. apply_trace_call (plain_call cid)"
    "\<lambda>r. od_keys (tr_traces r)" n "recorder_with_bound n" for n
  by unfold_locales (simp_all add: apply_trace_call_keys apply_trace_call_bound plain_call_def)

text \<open>The Call-IDs kept depend on the Call-IDs recorded only.\<close>

lemma keys_of_run:
  "recorder_with_bound n r \<Longrightarrow> recorder_with_bound n r' \<Longrightarrow> od_keys (tr_traces r) = od_keys (tr_traces r') \<Longrightarrow>
   od_keys (tr_traces (fold apply_trace_call cs r)) =
   od_keys (tr_traces (fold (\<lambda>cid. apply_trace_call (plain_call cid)) (map tc_call_id cs) r'))"
proof (induction cs arbitrary: r r')
  case Nil
  then show ?case by simp
next
  case (Cons c cs)
  have "od_keys (tr_traces (apply_trace_call c r)) =
      od_keys (tr_traces (apply_trace_call (plain_call (tc_call_id c)) r'))"
    using Cons.prems by (simp add: apply_trace_call_keys plain_call_def)
  then show ?case
    using Cons.IH [OF apply_trace_call_bound [OF Cons.prems(1)] apply_trace_call_bound [OF Cons.prems(2)]]
    by simp
qed

lemma mk_trace_recorder_bound: "recorder_with_bound n (mk_trace_recorder (int n))"
  by (simp add: recorder_with_bound_def mk_trace_recorder_def tracer_ok_def)

text \<open>
  C19: The trace feed keeps the most recently active calls. After any sequence of recorded
  events, the Call-IDs retained, newest first, are the distinct Call-IDs of the events in
  the order of their last one, cut at the bound; in particular at most \<^verbatim>\<open>max_calls\<close> calls are
  retained and a call is still there as long as fewer other calls than the bound have
  been active since.
\<close>
theorem trace_retention_exact:
  "known_call_ids (fold apply_trace_call cs (mk_trace_recorder (int n))) =
     take n (rev (remdups (map tc_call_id cs)))
   \<and> length (known_call_ids (fold apply_trace_call cs (mk_trace_recorder (int n)))) \<le> n
   \<and> (map tc_call_id cs = earlier @ cid # later \<and> cid \<notin> set later \<and> card (set later) < n \<longrightarrow>
        cid \<in> set (known_call_ids (fold apply_trace_call cs (mk_trace_recorder (int n)))))"
proof -
  let ?r = "mk_trace_recorder (int n)"
  have keys: "od_keys (tr_traces (fold apply_trace_call cs ?r)) = last_n n (remdups (map tc_call_id cs))"
    using keys_of_run [OF mk_trace_recorder_bound mk_trace_recorder_bound refl, where cs = cs]
      tr.keys_after [OF mk_trace_recorder_bound [of n], where ks = "map tc_call_id cs"]
    by (simp add: mk_trace_recorder_def)
  have "rev (last_n n xs) = take n (rev xs)" for xs :: "string list"
    by (cases "n \<le> length xs") (simp_all add: last_n_def rev_drop)
  with keys have known: "known_call_ids (fold apply_trace_call cs ?r) =
      take n (rev (remdups (map tc_call_id cs)))"
    by (simp add: known_call_ids_def)
  have "cid \<in> set (known_call_ids (fold apply_trace_call cs ?r))"
    if "map tc_call_id cs = earlier @ cid # later" "cid \<notin> set later" "card (set later) < n"
    using tr.survives [OF mk_trace_recorder_bound [of n] _ that(2), where ks = earlier] that(1,3)
      keys_of_run [OF mk_trace_recorder_bound mk_trace_recorder_bound refl, where cs = cs]
    by (simp add: mk_trace_recorder_def known_call_ids_def length_remdups_card_conv)
  then show ?thesis using known by simp
qed

theorem trace_retention_exact_witness:
  "''a'' \<in> set (known_call_ids (fold apply_trace_call
       (map plain_call [''a'', ''b'', ''a'', ''c'', ''c'']) (mk_trace_recorder (int 2))))"
  using trace_retention_exact [of "map plain_call [''a'', ''b'', ''a'', ''c'', ''c'']" 2
      "[''a'', ''b'']" "''a''" "[''c'', ''c'']"]
  by (simp add: plain_call_def)

section \<open>Captured SIP messages\<close>

record recorded_sip_message =
  sm_direction :: string
  sm_peer :: string
  sm_text :: string
  sm_call_id :: string

definition not_space :: "char \<Rightarrow> bool" where
  "not_space c \<longleftrightarrow> \<not> is_space c"

definition PEER_IN_PREFIX :: pre where
  "PEER_IN_PREFIX = Seq (Grp 1 (Plus not_space)) (Seq (Lit CHR '':'') (Grp 2 (Plus is_digit)))"

definition group :: "captures \<Rightarrow> nat \<Rightarrow> string" where
  "group g i = (case map_of g i of None \<Rightarrow> [] | Some s \<Rightarrow> s)"

definition peer_from_prefix :: "string \<Rightarrow> string" where
  "peer_from_prefix prfx =
     (case re_search PEER_IN_PREFIX prfx of
        None \<Rightarrow> ''-''
      | Some g \<Rightarrow> removesuffix (removeprefix (removeprefix (group g 1) ''udp:'') ''['') '']''
                  @ '':'' @ group g 2)"

definition blank_char :: "char \<Rightarrow> bool" where
  "blank_char c \<longleftrightarrow> c = CHR '' '' \<or> c = CHR 0x09"

definition trailing_char :: "char \<Rightarrow> bool" where
  "trailing_char c \<longleftrightarrow> blank_char c \<or> c = CHR 0x0D"

definition CALL_ID_IN_MESSAGE :: pre where
  "CALL_ID_IN_MESSAGE = seqs ([Bol, LitI CHR ''c'', LitI CHR ''a'', LitI CHR ''l'', LitI CHR ''l'',
     Lit CHR ''-'', LitI CHR ''i'', LitI CHR ''d'', Lit CHR '':'', Star blank_char,
     Grp 1 (Plus not_space), Star trailing_char, Eol])"

definition call_id_of :: "string \<Rightarrow> string" where
  "call_id_of txt =
     (case re_search CALL_ID_IN_MESSAGE txt of None \<Rightarrow> ''-'' | Some g \<Rightarrow> group g 1)"

record sip_message_recorder =
  sr_max_messages :: int
  sr_messages :: "recorded_sip_message list"

text \<open>\<^verbatim>\<open>write(*args)\<close>: missing arguments read as the empty string; popping an empty list raises.\<close>

definition recorder_write :: "string list \<Rightarrow> (pyexc, sip_message_recorder) stmt" where
  "recorder_write args r =
     (let prfx = (case args of [] \<Rightarrow> [] | p # _ \<Rightarrow> p);
          txt = (case args of _ # t # _ \<Rightarrow> t | _ \<Rightarrow> []);
          m = \<lparr>sm_direction = (if startswith prfx RECEIVED_PREFIX then ''in'' else ''out''),
               sm_peer = peer_from_prefix prfx, sm_text = txt, sm_call_id = call_id_of txt\<rparr>
      in case drop_oldest IndexError (sr_max_messages r) (sr_messages r @ [m]) of
           (x, msgs) \<Rightarrow> (x, r\<lparr>sr_messages := msgs\<rparr>))"

definition messages_for_any :: "string list \<Rightarrow> sip_message_recorder \<Rightarrow> recorded_sip_message list" where
  "messages_for_any call_ids r = filter (\<lambda>m. sm_call_id m \<in> set call_ids) (sr_messages r)"

definition recorder_clear :: "sip_message_recorder \<Rightarrow> sip_message_recorder" where
  "recorder_clear r = r\<lparr>sr_messages := []\<rparr>"

text \<open>
  \<^verbatim>\<open>DualSipLogger.write\<close> over any primary logger: the recorder sees the message only when
  the primary did not raise.
\<close>

definition dual_write ::
    "(string list \<Rightarrow> (pyexc, 'p) stmt) \<Rightarrow> string list \<Rightarrow> (pyexc, 'p \<times> sip_message_recorder) stmt" where
  "dual_write primary args = block [on_fst (primary args), on_snd (recorder_write args)]"

section \<open>Reading the Call-ID back\<close>

definition call_id_name :: "string \<Rightarrow> bool" where
  "call_id_name s \<longleftrightarrow> map to_lower s = ''call-id:''"

text \<open>A line that is not the Call-ID field, with its line end.\<close>

definition other_line :: "string \<Rightarrow> bool" where
  "other_line l \<longleftrightarrow> newline \<notin> set l \<and> \<not> call_id_name (take 8 l)"

definition with_newlines :: "string list \<Rightarrow> string" where
  "with_newlines ls = concat (map (\<lambda>l. l @ [newline]) ls)"

definition call_id_rest :: pre where
  "call_id_rest = Seq (Star blank_char) (Seq (Grp 1 (Plus not_space)) (Seq (Star trailing_char) Eol))"

lemma to_lower_newline: "to_lower newline = newline"
  by (simp add: to_lower_def newline_def)

lemma to_lower_minus_colon:
  "to_lower c = CHR ''-'' \<longleftrightarrow> c = CHR ''-''" "to_lower c = CHR '':'' \<longleftrightarrow> c = CHR '':''"
proof -
  have "to_lower c = CHR ''-'' \<Longrightarrow> c = CHR ''-''" "to_lower c = CHR '':'' \<Longrightarrow> c = CHR '':''"
    using of_char_of [where 'a = nat]
    by (auto simp: to_lower_def Let_def split: if_splits dest: arg_cong [of _ _ "of_char :: char \<Rightarrow> nat"])
  then show "to_lower c = CHR ''-'' \<longleftrightarrow> c = CHR ''-''" "to_lower c = CHR '':'' \<longleftrightarrow> c = CHR '':''"
    by (auto simp: to_lower_def)
qed

lemma caps_CALL_ID:
  "caps CALL_ID_IN_MESSAGE prev s =
     (if (prev = None \<or> prev = Some newline) \<and> call_id_name (take 8 s)
      then caps call_id_rest (Some CHR '':'') (drop 8 s) else [])"
proof -
  show ?thesis
  proof (cases "8 \<le> length s")
    case True
    then obtain a b c d e f g h t where "s = a # b # c # d # e # f # g # h # t"
      by (auto simp: numeral_eq_Suc Suc_le_length_iff)
    then show ?thesis
      by (simp add: CALL_ID_IN_MESSAGE_def call_id_rest_def call_id_name_def to_lower_minus_colon)
  next
    case False
    then have "\<not> call_id_name (take 8 s)"
      by (auto simp: call_id_name_def dest: arg_cong [of _ _ length])
    moreover have "caps CALL_ID_IN_MESSAGE prev s = []"
      using False by (cases s; cases "tl s"; cases "tl (tl s)"; cases "tl (tl (tl s))";
          cases "tl (tl (tl (tl s)))"; cases "tl (tl (tl (tl (tl s))))";
          cases "tl (tl (tl (tl (tl (tl s)))))"; cases "tl (tl (tl (tl (tl (tl (tl s))))))")
        (simp_all add: CALL_ID_IN_MESSAGE_def)
    ultimately show ?thesis by simp
  qed
qed

lemma blank_is_space: "blank_char c \<Longrightarrow> \<not> not_space c"
  by (auto simp: blank_char_def not_space_def is_space_def)

lemma trailing_is_space: "trailing_char c \<Longrightarrow> \<not> not_space c"
  by (auto simp: trailing_char_def blank_char_def not_space_def is_space_def)

lemma newline_classes [simp]: "\<not> not_space newline" "\<not> trailing_char newline" "\<not> blank_char newline"
  by (simp_all add: not_space_def newline_def is_space_def trailing_char_def blank_char_def)

lemma starts_outside_Grp_Plus:
  "(\<And>x. p x \<Longrightarrow> \<not> q x) \<Longrightarrow> starts_outside (Seq (Grp n (Plus q)) b) p"
  by (rule starts_outside_Seq) (auto simp: starts_outside_def)

lemma starts_outside_Eol: "\<not> p newline \<Longrightarrow> starts_outside Eol p"
  by (auto simp: starts_outside_def)

lemma caps_call_id_rest:
  assumes "list_all blank_char ws" "cid \<noteq> []" "list_all not_space cid"
    "list_all trailing_char tr" "rest = [] \<or> hd rest = newline"
  shows "\<exists>gs. caps call_id_rest prev (ws @ cid @ tr @ rest) = [(1, cid)] # gs"
proof -
  have nb: "\<not> blank_char (hd cid)" using assms(2,3) blank_is_space by (cases cid) auto
  have dw1: "dropWhile blank_char (ws @ cid @ tr @ rest) = cid @ tr @ rest"
    using assms(1,2) nb by (cases cid) (auto simp: list_all_iff dropWhile_append2)
  have after: "tr @ rest = [] \<or> \<not> not_space (hd (tr @ rest))"
    using assms(4,5) trailing_is_space by (cases tr; cases rest) auto
  then have tw: "takeWhile not_space (cid @ tr @ rest) = cid"
    and dw: "dropWhile not_space (cid @ tr @ rest) = tr @ rest"
    using assms(3) by (cases "tr @ rest"; auto simp: list_all_iff takeWhile_append2 dropWhile_append2)+
  have dw2: "dropWhile trailing_char (tr @ rest) = rest"
    using assms(4,5) by (cases rest) (auto simp: list_all_iff dropWhile_append2)
  have eol: "caps Eol p rest = [[]]" for p
    using assms(5) by (cases rest) (auto simp: caps_def)
  have so: "starts_outside (Seq (Grp 1 (Plus not_space)) b) blank_char" for b
    by (rule starts_outside_Grp_Plus) (rule blank_is_space)
  have eo: "starts_outside Eol trailing_char" by (rule starts_outside_Eol) simp
  have "caps (Seq (Star trailing_char) Eol) p (tr @ rest) = [[]]" for p
    by (simp only: caps_Seq_Star [OF eo] dw2 eol)
  then obtain gs where "caps (Seq (Grp 1 (Plus not_space)) (Seq (Star trailing_char) Eol))
      (adv prev (takeWhile blank_char (ws @ cid @ tr @ rest))) (cid @ tr @ rest) = [(1, cid)] # gs"
    using caps_Seq_Grp_Plus_greedy [of not_space "cid @ tr @ rest" 1 "Seq (Star trailing_char) Eol"
        "adv prev (takeWhile blank_char (ws @ cid @ tr @ rest))"] assms(2)
    by (auto simp: tw dw)
  then show ?thesis
    unfolding call_id_rest_def caps_Seq_Star [OF so] dw1 by (rule exI)
qed

lemma search_within_line:
  "newline \<notin> set l \<Longrightarrow> prev \<noteq> None \<Longrightarrow> prev \<noteq> Some newline \<Longrightarrow>
   re_search_from CALL_ID_IN_MESSAGE prev (l @ newline # s) =
   re_search_from CALL_ID_IN_MESSAGE (Some newline) s"
proof (induction l arbitrary: prev)
  case Nil
  then have "caps CALL_ID_IN_MESSAGE prev (newline # s) = []" by (simp only: caps_CALL_ID) simp
  then show ?case by (subst re_search_from_caps) simp
next
  case (Cons x l)
  then have "caps CALL_ID_IN_MESSAGE prev ((x # l) @ newline # s) = []" by (simp only: caps_CALL_ID) simp
  moreover have "re_search_from CALL_ID_IN_MESSAGE (Some x) (l @ newline # s) =
      re_search_from CALL_ID_IN_MESSAGE (Some newline) s"
    using Cons.prems by (intro Cons.IH) auto
  ultimately show ?case by (subst re_search_from_caps) simp
qed

lemma call_id_name_other_line: "other_line l \<Longrightarrow> \<not> call_id_name (take 8 (l @ newline # s))"
proof
  assume l: "other_line l" and n: "call_id_name (take 8 (l @ newline # s))"
  show False
  proof (cases "8 \<le> length l")
    case True
    with l n show False by (simp add: other_line_def)
  next
    case False
    then have "newline \<in> set (take 8 (l @ newline # s))" by (simp add: take_Cons')
    then have "to_lower newline \<in> set ''call-id:''"
      using n by (metis call_id_name_def image_eqI set_map)
    then show False by (simp add: to_lower_newline) (simp add: newline_def)
  qed
qed

lemma search_skips_line:
  assumes "other_line l" and "prev = None \<or> prev = Some newline"
  shows "re_search_from CALL_ID_IN_MESSAGE prev (l @ newline # s) =
    re_search_from CALL_ID_IN_MESSAGE (Some newline) s"
proof -
  have "caps CALL_ID_IN_MESSAGE prev (l @ newline # s) = []"
    using call_id_name_other_line [OF assms(1)] by (simp add: caps_CALL_ID)
  then show ?thesis
    using assms by (subst re_search_from_caps, cases l) (auto simp: other_line_def search_within_line)
qed

lemma search_skips_lines:
  "list_all other_line ls \<Longrightarrow> prev = None \<or> prev = Some newline \<Longrightarrow> \<exists>prev'.
     (prev' = None \<or> prev' = Some newline) \<and>
     re_search_from CALL_ID_IN_MESSAGE prev (with_newlines ls @ s) =
     re_search_from CALL_ID_IN_MESSAGE prev' s"
proof (induction ls arbitrary: prev)
  case Nil
  then show ?case by (auto simp: with_newlines_def)
next
  case (Cons l ls)
  have "re_search_from CALL_ID_IN_MESSAGE prev (l @ newline # with_newlines ls @ s) =
      re_search_from CALL_ID_IN_MESSAGE (Some newline) (with_newlines ls @ s)"
    using Cons.prems by (intro search_skips_line) simp_all
  with Cons.IH [of "Some newline"] Cons.prems show ?case by (simp add: with_newlines_def)
qed

lemma call_id_of_message:
  assumes "list_all other_line ls" "call_id_name nm" "list_all blank_char ws" "cid \<noteq> []"
    "list_all not_space cid" "list_all trailing_char tr" "rest = [] \<or> hd rest = newline"
  shows "call_id_of (with_newlines ls @ nm @ ws @ cid @ tr @ rest) = cid"
proof -
  let ?s = "nm @ ws @ cid @ tr @ rest"
  obtain prev where prev: "prev = None \<or> prev = Some newline" and
    skip: "re_search_from CALL_ID_IN_MESSAGE None (with_newlines ls @ ?s) =
      re_search_from CALL_ID_IN_MESSAGE prev ?s"
    using search_skips_lines [OF assms(1)] by blast
  have "length nm = 8" using assms(2) by (auto simp: call_id_name_def dest: arg_cong [of _ _ length])
  moreover obtain gs where "caps call_id_rest (Some CHR '':'') (ws @ cid @ tr @ rest) = [(1, cid)] # gs"
    using caps_call_id_rest [OF assms(3-7)] by blast
  ultimately have "caps CALL_ID_IN_MESSAGE prev ?s = [(1, cid)] # gs"
    using prev assms(2) by (simp add: caps_CALL_ID)
  then have "re_search CALL_ID_IN_MESSAGE (with_newlines ls @ ?s) = Some [(1, cid)]"
    unfolding re_search_def skip by (rule re_search_from_first)
  then show ?thesis by (simp add: call_id_of_def group_def)
qed

text \<open>
  A captured message is found again under its Call-ID. Whatever header lines stand
  before it and however the field is spelled and padded, writing a SIP message with a
  \<^verbatim>\<open>Call-ID\<close> field keeps the message verbatim as the newest one, drops at most the oldest
  ones beyond the bound, and a console query naming that Call-ID (a call's query names the
  ids of both legs) returns it after the earlier messages of the query, in capture order.
\<close>
lemma captured_message_found:
  assumes "list_all other_line ls" "call_id_name nm" "list_all blank_char ws" "cid \<noteq> []"
    "list_all not_space cid" "list_all trailing_char tr" "rest = [] \<or> hd rest = newline"
    and "txt = with_newlines ls @ nm @ ws @ cid @ tr @ rest"
    and "sr_max_messages r = int (Suc n)" and "cid \<in> set ids"
  shows "\<exists>m r'. recorder_write [prfx, txt] r = (Inr (), r') \<and> sm_text m = txt \<and> sm_call_id m = cid
    \<and> sr_messages r' = last_n n (sr_messages r) @ [m]
    \<and> messages_for_any ids r' = messages_for_any ids (r\<lparr>sr_messages := last_n n (sr_messages r)\<rparr>) @ [m]"
  using call_id_of_message [OF assms(1-7)] assms(8-10)
  by (simp add: recorder_write_def Let_def drop_oldest_nonneg last_n_snoc messages_for_any_def
      nat_add_distrib)

end
