(* ===== verification/SipAdapter.thy ===== *)
theory SipAdapter
  imports PyRegex AsHop
begin

text \<open>
  The sippy adapter boundary of \<^verbatim>\<open>sip_adapter.py\<close>: the pass-through header list, the call
  leg value, the Request-URI routines (with the address check of Python's \<^verbatim>\<open>ipaddress\<close>
  module), the trunk allowlist and the cancellation of the transaction timers.
\<close>

section \<open>Constants and the call leg\<close>

definition PASSTHROUGH_HEADERS :: "string list" where
  "PASSTHROUGH_HEADERS =
     [''p-asserted-identity'', ''p-preferred-identity'', ''privacy'', ''p-charging-vector'',
      ''p-charging-function-addresses'', ''p-visited-network-id'', ''subject'',
      ''organization'', ''priority'']"

definition B2BUA_CALL_ID_SUFFIX :: string where
  "B2BUA_CALL_ID_SUFFIX = ''-b2b_1''"

definition TRANSACTION_TIMER_NAMES :: "string list" where
  "TRANSACTION_TIMER_NAMES = [''teA'', ''teB'', ''teC'', ''teD'', ''teE'', ''teF'', ''teG'']"

record call_leg =
  cl_leg :: string
  cl_call_id :: string
  cl_local_address :: string
  cl_remote_address :: string

section \<open>Called number\<close>

definition user_char :: "char \<Rightarrow> bool" where
  "user_char c \<longleftrightarrow> c \<noteq> CHR ''@'' \<and> c \<noteq> CHR '';'' \<and> c \<noteq> CHR ''?''"

definition USER_FROM_URI :: pre where
  "USER_FROM_URI = seqs [Bol, Lit CHR ''s'', Lit CHR ''i'', Lit CHR ''p'', Opt (Lit CHR ''s''),
     Lit CHR '':'', Grp 1 (Plus user_char), Lit CHR ''@'']"

text \<open>\<open>repr\<close> of a string, as the \<open>!r\<close> of a format string renders it.\<close>

definition hex_digit :: "nat \<Rightarrow> char" where
  "hex_digit d = (if d < 10 then char_of (48 + d) else char_of (87 + d))"

definition repr_char :: "char \<Rightarrow> char \<Rightarrow> string" where
  "repr_char q c = (let n = (of_char c :: nat) in
     if c = q \<or> c = CHR 0x5C then [CHR 0x5C, c]
     else if n = 9 then [CHR 0x5C, CHR ''t''] else if n = 10 then [CHR 0x5C, CHR ''n'']
     else if n = 13 then [CHR 0x5C, CHR ''r'']
     else if n < 32 \<or> (127 \<le> n \<and> n \<le> 160) \<or> n = 173
       then [CHR 0x5C, CHR ''x'', hex_digit (n div 16), hex_digit (n mod 16)]
     else [c])"

definition py_repr :: "string \<Rightarrow> string" where
  "py_repr s = (let q = (if CHR 0x27 \<in> set s \<and> CHR 0x22 \<notin> set s then CHR 0x22 else CHR 0x27)
     in [q] @ concat (map (repr_char q) s) @ [q])"

definition extract_called_number :: "string \<Rightarrow> pyexc + string" where
  "extract_called_number request_uri =
     (case re_match USER_FROM_URI (py_strip request_uri) of
        None \<Rightarrow> Inl (RaisedAs (mk_as_error (skeleton_row PEER_MALFORMED_REQUEST)
                  (Some (''request-uri has no user part: '' @ py_repr request_uri)) None
                  (Some [(''request_uri'', request_uri)])))
      | Some g \<Rightarrow> (case map_of g 1 of Some u \<Rightarrow> Inr u | None \<Rightarrow> Inl IndexError))"

section \<open>Request-URI\<close>

definition is_hex :: "char \<Rightarrow> bool" where
  "is_hex c \<longleftrightarrow> c \<in> set ''0123456789ABCDEFabcdef''"

definition octet_ok :: "string \<Rightarrow> bool" where
  "octet_ok s \<longleftrightarrow> s \<noteq> [] \<and> list_all is_digit s \<and> length s \<le> 3
     \<and> (s = ''0'' \<or> hd s \<noteq> CHR ''0'') \<and> nat_of_digits s \<le> 255"

definition ipv4_ok :: "string \<Rightarrow> bool" where
  "ipv4_ok s \<longleftrightarrow> CHR ''/'' \<notin> set s \<and> length (split_on CHR ''.'' s) = 4
     \<and> list_all octet_ok (split_on CHR ''.'' s)"

definition hextet_ok :: "string \<Rightarrow> bool" where
  "hextet_ok s \<longleftrightarrow> s \<noteq> [] \<and> length s \<le> 4 \<and> list_all is_hex s"

fun hex_str :: "nat \<Rightarrow> string" where
  "hex_str n = (if n < 16 then [hex_digit n] else hex_str (n div 16) @ [hex_digit (n mod 16)])"

declare hex_str.simps [simp del]

definition ipv4_int :: "string \<Rightarrow> nat" where
  "ipv4_int s = foldl (\<lambda>a o4. 256 * a + nat_of_digits o4) 0 (split_on CHR ''.'' s)"

text \<open>A dotted last part is replaced by the two hextets of its value.\<close>

definition expand_v4_tail :: "string list \<Rightarrow> string list option" where
  "expand_v4_tail parts =
     (if CHR ''.'' \<in> set (last parts)
      then if ipv4_ok (last parts)
           then Some (butlast parts @ [hex_str (ipv4_int (last parts) div 65536),
                                       hex_str (ipv4_int (last parts) mod 65536)])
           else None
      else Some parts)"

definition hextets_ok :: "string list \<Rightarrow> bool" where
  "hextets_ok parts =
     (let n = length parts in
      case filter (\<lambda>i. parts ! i = []) [1..<n - 1] of
        [] \<Rightarrow> n = 8 \<and> hd parts \<noteq> [] \<and> last parts \<noteq> [] \<and> list_all hextet_ok parts
      | [i] \<Rightarrow>
          (let hi = (if hd parts = [] then i - 1 else i);
               lo = (if last parts = [] then n - i - 2 else n - i - 1)
           in (hd parts = [] \<longrightarrow> hi = 0) \<and> (last parts = [] \<longrightarrow> lo = 0) \<and> hi + lo < 8
              \<and> list_all hextet_ok (take hi parts) \<and> list_all hextet_ok (drop (n - lo) parts))
      | _ \<Rightarrow> False)"

definition ipv6_int_ok :: "string \<Rightarrow> bool" where
  "ipv6_int_ok s =
     (let parts = split_on CHR '':'' s in
      3 \<le> length parts \<and>
      (case expand_v4_tail parts of None \<Rightarrow> False
       | Some ps \<Rightarrow> length ps \<le> 9 \<and> hextets_ok ps))"

definition ipv6_ok :: "string \<Rightarrow> bool" where
  "ipv6_ok s \<longleftrightarrow> CHR ''/'' \<notin> set s \<and>
     (let addr = takeWhile (\<lambda>c. c \<noteq> CHR ''%'') s; rest = dropWhile (\<lambda>c. c \<noteq> CHR ''%'') s
      in (rest = [] \<or> (tl rest \<noteq> [] \<and> CHR ''%'' \<notin> set (tl rest))) \<and> ipv6_int_ok addr)"

definition is_ipv6 :: "string \<Rightarrow> bool" where
  "is_ipv6 address \<longleftrightarrow> (if ipv4_ok address then False else ipv6_ok address)"

definition build_request_uri :: "string \<Rightarrow> next_hop \<Rightarrow> string" where
  "build_request_uri number hop =
     (let host = (if is_ipv6 (nh_address hop) = False then nh_address hop
                  else ''['' @ nh_address hop @ '']'')
      in ''sip:'' @ number @ ''@'' @ host @ '':'' @ int_str (nh_port hop)
           @ '';transport='' @ transport_str (nh_transport hop))"

definition outbound_call_id :: "string \<Rightarrow> string" where
  "outbound_call_id trunk_call_id = trunk_call_id @ B2BUA_CALL_ID_SUFFIX"

definition is_allowed_peer :: "string \<Rightarrow> string list \<Rightarrow> bool" where
  "is_allowed_peer source_address allowed_peers \<longleftrightarrow> source_address \<in> set allowed_peers"

section \<open>Transaction timers\<close>

text \<open>
  A transaction is the table of its timer attributes that hold a timer object (a missing
  attribute and one set to \<open>None\<close> are both absent); \<open>armed\<close> is the set of timer objects
  whose callback the event loop still holds. Cancelling a timer is sippy's: it drops the
  callback.
\<close>

type_synonym transaction = "(string, nat) odict"

record transaction_manager =
  tm_tclient :: "(string, transaction) odict option"
  tm_tserver :: "(string, transaction) odict option"

fun cancel_names :: "string list \<Rightarrow> transaction \<Rightarrow> nat list \<Rightarrow> int \<times> transaction \<times> nat list" where
  "cancel_names [] tr armed = (0, tr, armed)"
| "cancel_names (nm # nms) tr armed =
     (case map_of tr nm of
        None \<Rightarrow> cancel_names nms tr armed
      | Some t \<Rightarrow>
          if t \<notin> set armed then cancel_names nms tr armed
          else (case cancel_names nms (AList.delete nm tr) (removeAll t armed) of
                  (n, tr', armed') \<Rightarrow> (n + 1, tr', armed')))"

fun cancel_table ::
    "(string, transaction) odict \<Rightarrow> nat list \<Rightarrow> int \<times> (string, transaction) odict \<times> nat list" where
  "cancel_table [] armed = (0, [], armed)"
| "cancel_table ((k, tr) # trs) armed =
     (case cancel_names TRANSACTION_TIMER_NAMES tr armed of (n, tr', armed') \<Rightarrow>
        (case cancel_table trs armed' of (m, trs', armed'') \<Rightarrow> (n + m, (k, tr') # trs', armed'')))"

definition cancel_opt_table ::
    "(string, transaction) odict option \<Rightarrow> nat list
     \<Rightarrow> int \<times> (string, transaction) odict option \<times> nat list" where
  "cancel_opt_table tbl armed =
     (case tbl of None \<Rightarrow> (0, None, armed)
      | Some t \<Rightarrow> (case cancel_table t armed of (n, t', armed') \<Rightarrow> (n, Some t', armed')))"

definition cancel_transaction_timers ::
    "transaction_manager \<Rightarrow> nat list \<Rightarrow> int \<times> transaction_manager \<times> nat list" where
  "cancel_transaction_timers tm armed =
     (case cancel_opt_table (tm_tclient tm) armed of (n, tc, armed1) \<Rightarrow>
        (case cancel_opt_table (tm_tserver tm) armed1 of (m, ts, armed2) \<Rightarrow>
           (n + m, tm\<lparr>tm_tclient := tc, tm_tserver := ts\<rparr>, armed2)))"

section \<open>Facts\<close>

lemma user_char_at [simp]: "\<not> user_char CHR ''@''"
  by (simp add: user_char_def)

lemma caps_user_part:
  "caps (Seq (Grp n (Plus user_char)) (Lit CHR ''@'')) prev s =
     (if takeWhile user_char s \<noteq> [] \<and> dropWhile user_char s \<noteq> [] \<and> hd (dropWhile user_char s) = CHR ''@''
      then [[(n, takeWhile user_char s)]] else [])"
proof -
  have "starts_outside (Lit CHR ''@'') user_char"
    by (rule starts_outside_Cls) (auto simp: user_char_def)
  then show ?thesis
    by (cases "dropWhile user_char s")
       (simp_all add: caps_Seq_Grp_Plus del: dropWhile_eq_Nil_conv dropWhile_eq_Cons_conv)
qed

lemma re_match_user:
  "re_match USER_FROM_URI (''sip:'' @ s) = (case caps (Seq (Grp 1 (Plus user_char)) (Lit CHR ''@''))
     (Some CHR '':'') s of [] \<Rightarrow> None | g # _ \<Rightarrow> Some g)"
  "re_match USER_FROM_URI (''sips:'' @ s) = (case caps (Seq (Grp 1 (Plus user_char)) (Lit CHR ''@''))
     (Some CHR '':'') s of [] \<Rightarrow> None | g # _ \<Rightarrow> Some g)"
  by (simp_all add: re_match_caps USER_FROM_URI_def caps_Seq_Opt)

lemma re_match_user_scheme:
  "re_match USER_FROM_URI s \<noteq> None \<Longrightarrow> (\<exists>t. s = ''sip:'' @ t) \<or> (\<exists>t. s = ''sips:'' @ t)"
proof -
  assume ne: "re_match USER_FROM_URI s \<noteq> None"
  have c1: "s \<noteq> []" using ne by (auto simp: re_match_caps USER_FROM_URI_def)
  then obtain x1 s1 where s: "s = x1 # s1" by (cases s) auto
  from ne s have x1: "x1 = CHR ''s''" and "s1 \<noteq> []"
    by (auto simp: re_match_caps USER_FROM_URI_def split: if_splits)
  then obtain x2 s2 where s1: "s1 = x2 # s2" by (cases s1) auto
  from ne s s1 x1 have x2: "x2 = CHR ''i''" and "s2 \<noteq> []"
    by (auto simp: re_match_caps USER_FROM_URI_def split: if_splits)
  then obtain x3 s3 where s2: "s2 = x3 # s3" by (cases s2) auto
  from ne s s1 s2 x1 x2 have x3: "x3 = CHR ''p''" and "s3 \<noteq> []"
    by (auto simp: re_match_caps USER_FROM_URI_def caps_Seq_Opt split: if_splits)
  then obtain x4 s4 where s3: "s3 = x4 # s4" by (cases s3) auto
  show ?thesis
  proof (cases "x4 = CHR '':''")
    case True
    with s s1 s2 s3 x1 x2 x3 show ?thesis by simp
  next
    case False
    with ne s s1 s2 s3 x1 x2 x3 have x4: "x4 = CHR ''s''" and "s4 \<noteq> []"
      by (auto simp: re_match_caps USER_FROM_URI_def caps_Seq_Opt split: if_splits)
    then obtain x5 s5 where s4: "s4 = x5 # s5" by (cases s4) auto
    from ne s s1 s2 s3 s4 x1 x2 x3 x4 have "x5 = CHR '':''"
      by (auto simp: re_match_caps USER_FROM_URI_def caps_Seq_Opt split: if_splits)
    with s s1 s2 s3 s4 x1 x2 x3 x4 show ?thesis by simp
  qed
qed

text \<open>The reference reading of a user part: everything up to the first \<open>@\<close>, all of it user characters.\<close>

lemma user_part_iff:
  "(\<exists>g. caps (Seq (Grp n (Plus user_char)) (Lit CHR ''@'')) prev s = [g] \<and> map_of g n = Some u) \<longleftrightarrow>
   u \<noteq> [] \<and> list_all user_char u \<and> (\<exists>rest. s = u @ ''@'' @ rest)"
proof
  assume "\<exists>g. caps (Seq (Grp n (Plus user_char)) (Lit CHR ''@'')) prev s = [g] \<and> map_of g n = Some u"
  then have u: "u = takeWhile user_char s" "u \<noteq> []" "dropWhile user_char s \<noteq> []"
    "hd (dropWhile user_char s) = CHR ''@''"
    by (auto simp: caps_user_part split: if_splits)
  then have "s = u @ ''@'' @ tl (dropWhile user_char s)"
    by (metis append_Cons append_Nil list.collapse takeWhile_dropWhile_id)
  moreover have "list_all user_char u" by (auto simp: u(1) list_all_iff dest: set_takeWhileD)
  ultimately show "u \<noteq> [] \<and> list_all user_char u \<and> (\<exists>rest. s = u @ ''@'' @ rest)"
    using u(2) by blast
next
  assume "u \<noteq> [] \<and> list_all user_char u \<and> (\<exists>rest. s = u @ ''@'' @ rest)"
  then obtain rest where "s = u @ ''@'' @ rest" "u \<noteq> []" "\<And>c. c \<in> set u \<Longrightarrow> user_char c"
    by (auto simp: list_all_iff)
  then show "\<exists>g. caps (Seq (Grp n (Plus user_char)) (Lit CHR ''@'')) prev s = [g] \<and> map_of g n = Some u"
    by (simp add: caps_user_part takeWhile_append2 dropWhile_append2)
qed

lemma re_match_user_iff:
  "(\<exists>g. re_match USER_FROM_URI s = Some g \<and> map_of g 1 = Some u) \<longleftrightarrow>
   u \<noteq> [] \<and> list_all user_char u \<and>
   (\<exists>rest. s = ''sip:'' @ u @ ''@'' @ rest \<or> s = ''sips:'' @ u @ ''@'' @ rest)"
  (is "?L \<longleftrightarrow> ?R")
proof -
  have single: "(case caps (Seq (Grp 1 (Plus user_char)) (Lit CHR ''@'')) p t of
      [] \<Rightarrow> None | g # _ \<Rightarrow> Some g) = Some g \<longleftrightarrow>
      caps (Seq (Grp 1 (Plus user_char)) (Lit CHR ''@'')) p t = [g]" for p t g
    by (subst caps_user_part)+ simp
  show ?thesis
  proof
    assume ?L
    then obtain t where "s = ''sip:'' @ t \<or> s = ''sips:'' @ t"
      using re_match_user_scheme [of s] by auto
    with \<open>?L\<close> have "s = ''sip:'' @ t \<or> s = ''sips:'' @ t"
      "u \<noteq> [] \<and> list_all user_char u \<and> (\<exists>rest. t = u @ ''@'' @ rest)"
      using user_part_iff [of 1 "Some CHR '':''" t u] by (auto simp only: re_match_user single)
    then show ?R by auto
  next
    assume ?R
    then obtain rest where u: "u \<noteq> []" "list_all user_char u"
      and s: "s = ''sip:'' @ u @ ''@'' @ rest \<or> s = ''sips:'' @ u @ ''@'' @ rest" by auto
    from u have "\<exists>g. caps (Seq (Grp 1 (Plus user_char)) (Lit CHR ''@'')) (Some CHR '':'')
        (u @ ''@'' @ rest) = [g] \<and> map_of g 1 = Some u"
      by (subst user_part_iff) auto
    with s show ?L by (auto simp only: re_match_user single list.case option.inject)
  qed
qed

lemma re_match_user_group:
  "re_match USER_FROM_URI s = Some g \<Longrightarrow> \<exists>u. map_of g 1 = Some u"
proof -
  assume g: "re_match USER_FROM_URI s = Some g"
  then obtain t where "s = ''sip:'' @ t \<or> s = ''sips:'' @ t"
    using re_match_user_scheme [of s] by auto
  with g have "g = [(1, takeWhile user_char t)]"
    by (elim disjE) (auto simp only: re_match_user caps_user_part split: if_splits, simp_all)
  then show ?thesis by simp
qed

lemma extract_Inr_iff:
  "extract_called_number uri = Inr u \<longleftrightarrow>
      u \<noteq> [] \<and> list_all user_char u \<and>
      (\<exists>rest. py_strip uri = ''sip:'' @ u @ ''@'' @ rest \<or> py_strip uri = ''sips:'' @ u @ ''@'' @ rest)"
proof -
  have "extract_called_number uri = Inr u \<longleftrightarrow>
      (\<exists>g. re_match USER_FROM_URI (py_strip uri) = Some g \<and> map_of g 1 = Some u)"
    by (auto simp: extract_called_number_def split: option.splits)
  then show ?thesis by (simp only: re_match_user_iff)
qed

text \<open>
  The called number of a Request-URI is \<open>u\<close> exactly when the URI, stripped of blanks,
  is \<^verbatim>\<open>sip:\<close> or \<^verbatim>\<open>sips:\<close> followed by \<open>u\<close>, an \<open>@\<close> and anything, where \<open>u\<close> is not empty and
  holds no \<open>@\<close>, semicolon or question mark; every other URI is refused with \<^verbatim>\<open>AS-PEER-003\<close>,
  reported as SIP 400.
\<close>
lemma extract_called_number_spec:
  "(extract_called_number uri = Inr u \<longleftrightarrow>
      u \<noteq> [] \<and> list_all user_char u \<and>
      (\<exists>rest. py_strip uri = ''sip:'' @ u @ ''@'' @ rest \<or> py_strip uri = ''sips:'' @ u @ ''@'' @ rest))
   \<and> ((\<forall>u. extract_called_number uri \<noteq> Inr u) \<longrightarrow>
      (\<exists>e. extract_called_number uri = Inl (RaisedAs e)
         \<and> ec_code (ae_code e) = ''AS-PEER-003'' \<and> as_sip_status e = 400))"
proof (intro conjI impI)
  show "extract_called_number uri = Inr u \<longleftrightarrow>
      u \<noteq> [] \<and> list_all user_char u \<and>
      (\<exists>rest. py_strip uri = ''sip:'' @ u @ ''@'' @ rest \<or> py_strip uri = ''sips:'' @ u @ ''@'' @ rest)"
    by (rule extract_Inr_iff)
next
  assume no: "\<forall>u. extract_called_number uri \<noteq> Inr u"
  have "re_match USER_FROM_URI (py_strip uri) = None"
  proof (rule ccontr)
    assume "re_match USER_FROM_URI (py_strip uri) \<noteq> None"
    then obtain g where "re_match USER_FROM_URI (py_strip uri) = Some g" by auto
    moreover from this obtain u where "map_of g 1 = Some u" using re_match_user_group by blast
    ultimately show False using no by (simp add: extract_called_number_def)
  qed
  then show "\<exists>e. extract_called_number uri = Inl (RaisedAs e)
         \<and> ec_code (ae_code e) = ''AS-PEER-003'' \<and> as_sip_status e = 400"
    by (simp add: extract_called_number_def mk_as_error_def as_sip_status_def)
qed

lemma py_strip_id: "s \<noteq> [] \<Longrightarrow> \<not> is_space (hd s) \<Longrightarrow> \<not> is_space (last s) \<Longrightarrow> py_strip s = s"
proof -
  assume a: "s \<noteq> []" "\<not> is_space (hd s)" "\<not> is_space (last s)"
  then have 1: "dropWhile is_space s = s" by (cases s) auto
  have "dropWhile is_space (rev s) = rev s"
    using a by (cases s rule: rev_cases) auto
  with 1 show ?thesis by (simp add: py_strip_def)
qed

lemma length_split_on: "c \<notin> set s \<Longrightarrow> length (split_on c s) = 1"
  by (simp add: split_on_absent)

lemma ipv6_has_colon: "is_ipv6 a \<Longrightarrow> CHR '':'' \<in> set a"
proof (rule ccontr)
  assume v6: "is_ipv6 a" and no: "CHR '':'' \<notin> set a"
  then have "CHR '':'' \<notin> set (takeWhile (\<lambda>c. c \<noteq> CHR ''%'') a)" by (auto dest: set_takeWhileD)
  then have "length (split_on CHR '':'' (takeWhile (\<lambda>c. c \<noteq> CHR ''%'') a)) = 1"
    by (rule length_split_on)
  with v6 show False
    by (auto simp: is_ipv6_def ipv6_ok_def ipv6_int_ok_def Let_def split: if_splits)
qed

text \<open>
  C22: The Request-URI the platform builds reads back: extracting the called number of the
  URI built for any valid number and any hop (IPv4, IPv6 or a name, either transport)
  returns that number. The URI is the number, the host, the port and the transport of the
  hop; an IPv6 address stands in brackets, and any other address as it is, in particular
  every address without a colon.
\<close>
theorem request_uri_roundtrip:
  assumes "number \<noteq> []" and "list_all user_char number"
  shows "extract_called_number (build_request_uri number hop) = Inr number
     \<and> (is_ipv6 (nh_address hop) \<longrightarrow>
         build_request_uri number hop = ''sip:'' @ number @ ''@['' @ nh_address hop @ '']:''
           @ int_str (nh_port hop) @ '';transport='' @ transport_str (nh_transport hop))
     \<and> (\<not> is_ipv6 (nh_address hop) \<longrightarrow>
         build_request_uri number hop = ''sip:'' @ number @ ''@'' @ nh_address hop @ '':''
           @ int_str (nh_port hop) @ '';transport='' @ transport_str (nh_transport hop))
     \<and> (CHR '':'' \<notin> set (nh_address hop) \<longrightarrow> \<not> is_ipv6 (nh_address hop))"
proof (intro conjI)
  let ?u = "build_request_uri number hop"
  obtain rest where u: "?u = ''sip:'' @ number @ ''@'' @ rest"
    by (simp add: build_request_uri_def Let_def)
  have "last ?u = last (transport_str (nh_transport hop))"
    by (cases "nh_transport hop") (simp_all add: build_request_uri_def Let_def)
  then have "\<not> is_space (last ?u)" by (cases "nh_transport hop") (simp_all add: is_space_def)
  then have "py_strip ?u = ?u"
    by (intro py_strip_id) (simp_all add: u is_space_def)
  then show "extract_called_number ?u = Inr number"
    using assms u by (auto simp: extract_Inr_iff)
qed (use ipv6_has_colon [of "nh_address hop"] in \<open>auto simp: build_request_uri_def Let_def\<close>)

theorem request_uri_roundtrip_witness:
  "extract_called_number ''sip:110@[2001:db8::1]:5060;transport=udp'' = Inr ''110''
   \<and> build_request_uri ''110'' \<lparr>nh_name = ''v6'', nh_address = ''2001:db8::1'', nh_port = 5060, nh_transport = Udp,
       nh_priority = 1, nh_description = []\<rparr> = ''sip:110@[2001:db8::1]:5060;transport=udp''"
proof -
  have v6: "is_ipv6 ''2001:db8::1''"
    by (simp add: is_ipv6_def ipv4_ok_def ipv6_ok_def ipv6_int_ok_def Let_def expand_v4_tail_def
        hextets_ok_def hextet_ok_def is_hex_def)
  have "nat_str 5060 = nat_str 5 @ [digit_char 0, digit_char 6, digit_char 0]"
    by (simp add: nat_str.simps [of 5060] nat_str.simps [of 506] nat_str.simps [of 50])
  then have port: "int_str 5060 = ''5060''"
    by (simp add: int_str_def nat_str.simps [of 5] digit_char_def char_of_eq_iff)
  let ?hop = "\<lparr>nh_name = ''v6'', nh_address = ''2001:db8::1'', nh_port = 5060, nh_transport = Udp,
    nh_priority = 1, nh_description = []\<rparr>"
  have ok: "''110'' \<noteq> []" "list_all user_char ''110''" by (simp_all add: user_char_def)
  note rt = request_uri_roundtrip [OF ok, of ?hop]
  have uri: "build_request_uri ''110'' ?hop = ''sip:110@[2001:db8::1]:5060;transport=udp''"
    using rt v6 port by simp
  show ?thesis using conjunct1 [OF rt] uri unfolding uri by blast
qed

subsection \<open>Cancelling timers\<close>

text \<open>The timer objects a transaction manager's tables still reference.\<close>

definition transaction_timers :: "transaction \<Rightarrow> nat set" where
  "transaction_timers tr = {t. \<exists>nm \<in> set TRANSACTION_TIMER_NAMES. map_of tr nm = Some t}"

definition table_timers :: "(string, transaction) odict option \<Rightarrow> nat set" where
  "table_timers tbl = (case tbl of None \<Rightarrow> {} | Some trs \<Rightarrow> \<Union> (transaction_timers ` snd ` set trs))"

definition manager_timers :: "transaction_manager \<Rightarrow> nat set" where
  "manager_timers tm = table_timers (tm_tclient tm) \<union> table_timers (tm_tserver tm)"

definition named_timers :: "string list \<Rightarrow> transaction \<Rightarrow> nat set" where
  "named_timers nms tr = {t. \<exists>nm \<in> set nms. map_of tr nm = Some t}"

lemma named_timers_simps [simp]:
  "named_timers [] tr = {}"
  "named_timers (nm # nms) tr = (case map_of tr nm of None \<Rightarrow> {} | Some t \<Rightarrow> {t}) \<union> named_timers nms tr"
  by (auto simp: named_timers_def split: option.splits)

lemma named_timers_delete:
  "map_of tr nm = Some t \<Longrightarrow> insert t (named_timers nms (AList.delete nm tr)) = insert t (named_timers nms tr)"
  by (auto simp: named_timers_def delete_conv' split: if_splits) (metis option.inject)

lemma named_timers_delete_sub: "named_timers nms (AList.delete nm tr) \<subseteq> named_timers nms tr"
  by (auto simp: named_timers_def delete_conv' split: if_splits)

lemma map_of_delete_sub: "map_of (AList.delete nm tr) k = Some t \<Longrightarrow> map_of tr k = Some t"
  by (auto simp: delete_conv' split: if_splits)

lemma length_removeAll_distinct:
  "distinct xs \<Longrightarrow> x \<in> set xs \<Longrightarrow> int (length (removeAll x xs)) = int (length xs) - 1"
  by (induction xs) auto

lemma cancel_names_spec:
  "cancel_names nms tr armed = (n, tr', armed') \<Longrightarrow>
     set armed' = set armed - named_timers nms tr
   \<and> (\<forall>nm t. map_of tr' nm = Some t \<longrightarrow> map_of tr nm = Some t)
   \<and> (distinct armed \<longrightarrow> distinct armed' \<and> n = int (length armed) - int (length armed'))
   \<and> (named_timers nms tr \<inter> set armed = {} \<longrightarrow> n = 0 \<and> tr' = tr \<and> armed' = armed)"
proof (induction nms tr armed arbitrary: n tr' armed' rule: cancel_names.induct)
  case (1 tr armed)
  then show ?case by simp
next
  case (2 nm nms tr armed)
  show ?case
  proof (cases "map_of tr nm")
    case None
    with "2.prems" have "cancel_names nms tr armed = (n, tr', armed')" by simp
    from "2.IH"(1) [OF None this] None show ?thesis by simp
  next
    case (Some t)
    show ?thesis
    proof (cases "t \<in> set armed")
      case False
      with "2.prems" Some have "cancel_names nms tr armed = (n, tr', armed')" by simp
      from "2.IH"(2) [OF Some False this] Some False show ?thesis by auto
    next
      case True
      obtain n1 where call: "cancel_names nms (AList.delete nm tr) (removeAll t armed) = (n1, tr', armed')"
        and n: "n = n1 + 1"
        using "2.prems" Some True by (auto split: prod.splits)
      have IH: "set armed' = set (removeAll t armed) - named_timers nms (AList.delete nm tr)
          \<and> (\<forall>nm' t'. map_of tr' nm' = Some t' \<longrightarrow> map_of (AList.delete nm tr) nm' = Some t')
          \<and> (distinct (removeAll t armed) \<longrightarrow>
               distinct armed' \<and> n1 = int (length (removeAll t armed)) - int (length armed'))"
        using "2.IH"(3) [OF Some _ call] True by simp
      have "set armed' = set armed - named_timers (nm # nms) tr"
        using IH named_timers_delete [OF Some, of nms] Some by auto
      moreover have "\<forall>nm' t'. map_of tr' nm' = Some t' \<longrightarrow> map_of tr nm' = Some t'"
      proof (intro allI impI)
        fix nm' t'
        assume "map_of tr' nm' = Some t'"
        with IH have "map_of (AList.delete nm tr) nm' = Some t'" by blast
        then show "map_of tr nm' = Some t'" by (rule map_of_delete_sub)
      qed
      moreover have "distinct armed \<longrightarrow> distinct armed' \<and> n = int (length armed) - int (length armed')"
        using IH n True by (auto simp: distinct_removeAll length_removeAll_distinct)
      moreover have "named_timers (nm # nms) tr \<inter> set armed \<noteq> {}"
        using Some True by auto
      ultimately show ?thesis by blast
    qed
  qed
qed

abbreviation cancel_result ::
    "nat set \<Rightarrow> nat set \<Rightarrow> nat list \<Rightarrow> int \<Rightarrow> nat list \<Rightarrow> bool" where
  "cancel_result T T' armed n armed' \<equiv>
     set armed' = set armed - T \<and> T' \<subseteq> T
     \<and> (distinct armed \<longrightarrow> distinct armed' \<and> n = int (length armed) - int (length armed'))"

lemma cancel_transaction_spec:
  assumes "cancel_names TRANSACTION_TIMER_NAMES tr armed = (n, tr', armed')"
  shows "cancel_result (transaction_timers tr) (transaction_timers tr') armed n armed'"
    and "transaction_timers tr \<inter> set armed = {} \<Longrightarrow> n = 0 \<and> tr' = tr \<and> armed' = armed"
proof -
  have eq: "transaction_timers x = named_timers TRANSACTION_TIMER_NAMES x" for x
    by (simp only: transaction_timers_def named_timers_def)
  have "transaction_timers tr' \<subseteq> transaction_timers tr"
    using cancel_names_spec [OF assms] by (auto simp: transaction_timers_def)
  with cancel_names_spec [OF assms]
  show "cancel_result (transaction_timers tr) (transaction_timers tr') armed n armed'"
    and "transaction_timers tr \<inter> set armed = {} \<Longrightarrow> n = 0 \<and> tr' = tr \<and> armed' = armed"
    by (simp_all only: eq) blast+
qed

lemma cancel_table_spec:
  "cancel_table trs armed = (n, trs', armed') \<Longrightarrow>
     cancel_result (table_timers (Some trs)) (table_timers (Some trs')) armed n armed'
   \<and> (table_timers (Some trs) \<inter> set armed = {} \<longrightarrow> n = 0 \<and> trs' = trs \<and> armed' = armed)"
proof (induction trs armed arbitrary: n trs' armed' rule: cancel_table.induct)
  case (1 armed)
  then show ?case by (simp add: table_timers_def)
next
  case (2 k tr trs armed)
  obtain n1 tr1 armed1 where c1: "cancel_names TRANSACTION_TIMER_NAMES tr armed = (n1, tr1, armed1)"
    by (cases "cancel_names TRANSACTION_TIMER_NAMES tr armed")
  obtain n2 trs2 armed2 where c2: "cancel_table trs armed1 = (n2, trs2, armed2)"
    by (cases "cancel_table trs armed1")
  from "2.prems" c1 c2 have res: "n = n1 + n2" "trs' = (k, tr1) # trs2" "armed' = armed2" by auto
  note s1 = cancel_transaction_spec [OF c1]
  note s2 = "2.IH" [OF c1 [symmetric] refl c2]
  have T: "table_timers (Some ((k', x) # xs)) = transaction_timers x \<union> table_timers (Some xs)" for k' x xs
    by (simp add: table_timers_def)
  have "cancel_result (table_timers (Some ((k, tr) # trs))) (table_timers (Some trs')) armed n armed'"
    using s1(1) s2 by (auto simp: res T)
  moreover have "n = 0 \<and> trs' = (k, tr) # trs \<and> armed' = armed"
    if none: "table_timers (Some ((k, tr) # trs)) \<inter> set armed = {}"
  proof -
    from none have "transaction_timers tr \<inter> set armed = {}" by (auto simp: T)
    from s1(2) [OF this] s2 none show ?thesis by (auto simp: res T)
  qed
  ultimately show ?case by blast
qed

lemma cancel_opt_table_spec:
  assumes "cancel_opt_table tbl armed = (n, tbl', armed')"
  shows "cancel_result (table_timers tbl) (table_timers tbl') armed n armed'"
    and "table_timers tbl \<inter> set armed = {} \<Longrightarrow> n = 0 \<and> tbl' = tbl \<and> armed' = armed"
proof -
  have "cancel_result (table_timers tbl) (table_timers tbl') armed n armed' \<and>
    (table_timers tbl \<inter> set armed = {} \<longrightarrow> n = 0 \<and> tbl' = tbl \<and> armed' = armed)"
  proof (cases tbl)
    case None
    with assms show ?thesis by (simp add: cancel_opt_table_def table_timers_def)
  next
    case (Some trs)
    obtain n1 trs1 armed1 where c: "cancel_table trs armed = (n1, trs1, armed1)"
      by (cases "cancel_table trs armed")
    with assms Some have "n = n1" "tbl' = Some trs1" "armed' = armed1"
      by (simp_all add: cancel_opt_table_def)
    with cancel_table_spec [OF c] Some show ?thesis by simp
  qed
  then show "cancel_result (table_timers tbl) (table_timers tbl') armed n armed'"
    and "table_timers tbl \<inter> set armed = {} \<Longrightarrow> n = 0 \<and> tbl' = tbl \<and> armed' = armed"
    by blast+
qed

lemma cancel_transaction_timers_spec:
  assumes "cancel_transaction_timers tm armed = (n, tm', armed')"
  shows "cancel_result (manager_timers tm) (manager_timers tm') armed n armed'"
    and "manager_timers tm \<inter> set armed = {} \<Longrightarrow> n = 0 \<and> tm' = tm \<and> armed' = armed"
proof -
  obtain n1 tc armed1 where c1: "cancel_opt_table (tm_tclient tm) armed = (n1, tc, armed1)"
    by (cases "cancel_opt_table (tm_tclient tm) armed")
  obtain n2 ts armed2 where c2: "cancel_opt_table (tm_tserver tm) armed1 = (n2, ts, armed2)"
    by (cases "cancel_opt_table (tm_tserver tm) armed1")
  from assms c1 c2 have res: "n = n1 + n2" "tm' = tm\<lparr>tm_tclient := tc, tm_tserver := ts\<rparr>" "armed' = armed2"
    by (auto simp: cancel_transaction_timers_def)
  note s = cancel_opt_table_spec [OF c1] cancel_opt_table_spec [OF c2]
  show "cancel_result (manager_timers tm) (manager_timers tm') armed n armed'"
    using s(1,3) by (auto simp: res manager_timers_def)
  assume "manager_timers tm \<inter> set armed = {}"
  then have e: "table_timers (tm_tclient tm) \<inter> set armed = {}" "table_timers (tm_tserver tm) \<inter> set armed = {}"
    by (auto simp: manager_timers_def)
  from s(2) [OF e(1)] have 1: "n1 = 0" "tc = tm_tclient tm" "armed1 = armed" by auto
  from s(4) e(2) 1 have "n2 = 0" "ts = tm_tserver tm" "armed2 = armed" by auto
  with 1 show "n = 0 \<and> tm' = tm \<and> armed' = armed" by (simp add: res)
qed

text \<open>
  Cancelling the transaction timers disarms exactly the timers the client and server
  tables of the manager reference (no other timer of the shared loop is touched), returns
  how many it disarmed, and a second pass finds nothing left to do.
\<close>
lemma cancel_transaction_timers_exact:
  assumes "cancel_transaction_timers tm armed = (n, tm', armed')" and "distinct armed"
  shows "set armed' = set armed - manager_timers tm
     \<and> n = int (card (set armed \<inter> manager_timers tm))
     \<and> cancel_transaction_timers tm' armed' = (0, tm', armed')"
proof (intro conjI)
  note s = cancel_transaction_timers_spec(1) [OF assms(1)]
  show 1: "set armed' = set armed - manager_timers tm" using s by simp
  have "int (card (set armed)) = int (card (set armed')) + int (card (set armed \<inter> manager_timers tm))"
    unfolding 1 by (metis Int_Diff_Un Int_Diff_disjoint List.finite_set card_Un_disjoint
        finite_Diff finite_Int of_nat_add add.commute)
  moreover have "card (set armed) = length armed" "card (set armed') = length armed'"
    using s assms(2) by (blast intro: distinct_card)+
  ultimately show "n = int (card (set armed \<inter> manager_timers tm))"
    using s assms(2) 1 by simp
  obtain m tm2 armed2 where c: "cancel_transaction_timers tm' armed' = (m, tm2, armed2)"
    by (cases "cancel_transaction_timers tm' armed'")
  have "manager_timers tm' \<inter> set armed' = {}" using s by auto
  from cancel_transaction_timers_spec(2) [OF c this] c
  show "cancel_transaction_timers tm' armed' = (0, tm', armed')" by simp
qed

end
