(* ===== verification/SipMessage.thy ===== *)
theory SipMessage
  imports SipAdapter
begin

text \<open>
  The sippy values the platform exchanges with the stack: the slice of a parsed request
  that the platform reads and the call control events. sippy itself is third-party code;
  only the constructors and accessors the platform uses are named.
\<close>

text \<open>
  A request: method, source address, Call-ID, the tag of the To header, and the header
  fields in wire order with lower-case names.
\<close>

record sip_request =
  rq_method :: string
  rq_source :: "(string \<times> int) option"
  rq_call_id :: string
  rq_to_tag :: "string option"
  rq_headers :: "(string \<times> string) list"

text \<open>\<^verbatim>\<open>request.getHFBodys(name)\<close>: the bodies of the fields with that name, in wire order.\<close>

definition get_hf_bodys :: "sip_request \<Rightarrow> string \<Rightarrow> string list" where
  "get_hf_bodys rq name = map snd (filter (\<lambda>h. fst h = name) (rq_headers rq))"

text \<open>
  Call control events. A response event carries \<open>(code, reason, body)\<close> or no data at all; a
  try event carries the Call-ID, the calling and the called number and the body.
\<close>

record try_data =
  td_call_id :: string
  td_calling :: string
  td_called :: string
  td_body :: "string option"

type_synonym response_data = "int \<times> string \<times> string option"

datatype ccevent =
    CCEventTry try_data
  | CCEventRing "response_data option"
  | CCEventConnect "response_data option"
  | CCEventFail "response_data option"
  | CCEventDisconnect
  | CCEventUpdate
  | CCEventOther string

fun is_try :: "ccevent \<Rightarrow> bool" where
  "is_try (CCEventTry _) = True"
| "is_try _ = False"

fun is_ring_or_connect :: "ccevent \<Rightarrow> bool" where
  "is_ring_or_connect (CCEventRing _) = True"
| "is_ring_or_connect (CCEventConnect _) = True"
| "is_ring_or_connect _ = False"

fun is_fail_or_disconnect :: "ccevent \<Rightarrow> bool" where
  "is_fail_or_disconnect (CCEventFail _) = True"
| "is_fail_or_disconnect CCEventDisconnect = True"
| "is_fail_or_disconnect _ = False"

fun_cases is_tryE: "is_try ev"
  and is_ring_or_connectE: "is_ring_or_connect ev"
  and is_fail_or_disconnectE: "is_fail_or_disconnect ev"

text \<open>
  \<open>str(event.getData()[2])\<close>: the called number of a try event; a response event has its
  body in that place, and an event without data cannot be subscripted.
\<close>

fun event_data2 :: "ccevent \<Rightarrow> pyexc + string" where
  "event_data2 (CCEventTry d) = Inr (td_called d)"
| "event_data2 (CCEventRing (Some (_, _, b))) = Inr (case b of None \<Rightarrow> ''None'' | Some s \<Rightarrow> s)"
| "event_data2 (CCEventConnect (Some (_, _, b))) = Inr (case b of None \<Rightarrow> ''None'' | Some s \<Rightarrow> s)"
| "event_data2 (CCEventFail (Some (_, _, b))) = Inr (case b of None \<Rightarrow> ''None'' | Some s \<Rightarrow> s)"
| "event_data2 _ = Inl TypeError"

end
