(* ===== verification/RouteHeader.thy ===== *)
theory RouteHeader
  imports SipMessage
begin

text \<open>
  The loose-route helpers of \<^verbatim>\<open>route_header.py\<close>: the Route header values of a trunk INVITE
  and the host and port of the top entry.
\<close>

definition route_user_char :: "char \<Rightarrow> bool" where
  "route_user_char c \<longleftrightarrow> c \<notin> set ''<>@;''"

definition route_host_char :: "char \<Rightarrow> bool" where
  "route_host_char c \<longleftrightarrow> c \<notin> set ''<>@:;''"

definition ROUTE_PORT :: pre where
  "ROUTE_PORT = Opt (Seq (Lit CHR '':'') (Grp 3 (Plus is_digit)))"

definition ROUTE_ENTRY :: pre where
  "ROUTE_ENTRY = seqs [Lit CHR ''<'', Star is_space, LitI CHR ''s'', LitI CHR ''i'', LitI CHR ''p'',
     Opt (LitI CHR ''s''), Lit CHR '':'',
     Opt (Grp 1 (Seq (Plus route_user_char) (Lit CHR ''@''))),
     Grp 2 (Plus route_host_char), ROUTE_PORT]"

definition route_header_values :: "sip_request \<Rightarrow> string list" where
  "route_header_values rq = get_hf_bodys rq ''route''"

text \<open>The body of the inner loop for one part, and the two loops with their early return.\<close>

definition route_part_target :: "int \<Rightarrow> string \<Rightarrow> (string \<times> int) option" where
  "route_part_target default_port part =
     (case re_search ROUTE_ENTRY (py_strip part) of
        None \<Rightarrow> None
      | Some g \<Rightarrow>
          (case map_of g 2 of
             None \<Rightarrow> None
           | Some host \<Rightarrow>
               Some (host, case map_of g 3 of None \<Rightarrow> default_port
                           | Some t \<Rightarrow> int (nat_of_digits t))))"

fun first_target :: "int \<Rightarrow> string list \<Rightarrow> (string \<times> int) option" where
  "first_target default_port [] = None"
| "first_target default_port (part # parts) =
     (case route_part_target default_port part of
        None \<Rightarrow> first_target default_port parts
      | Some t \<Rightarrow> Some t)"

definition parse_top_route_target :: "sip_request option \<Rightarrow> int \<Rightarrow> (string \<times> int) option" where
  "parse_top_route_target request default_port =
     (case request of
        None \<Rightarrow> None
      | Some rq \<Rightarrow>
          first_target default_port (concat (map (split_on CHR '','') (route_header_values rq))))"

section \<open>Facts\<close>

lemma route_class_facts [simp]:
  "\<not> route_user_char CHR ''@''" "\<not> route_host_char CHR '':''" "\<not> route_host_char CHR '';''"
  "\<not> route_host_char CHR ''>''" "\<not> route_user_char CHR '';''" "\<not> route_user_char CHR ''>''"
  by (simp_all add: route_user_char_def route_host_char_def)

lemma to_lower_facts [simp]:
  "to_lower CHR ''s'' = CHR ''s''" "to_lower CHR ''i'' = CHR ''i''" "to_lower CHR ''p'' = CHR ''p''"
  "to_lower CHR '':'' = CHR '':''" "\<not> is_space CHR ''s''"
  by (simp_all add: to_lower_def is_space_def)

lemma route_host_is_user: "route_host_char c \<Longrightarrow> route_user_char c"
  by (simp add: route_user_char_def route_host_char_def)

lemma is_digit_user: "is_digit c \<Longrightarrow> route_user_char c"
  by (auto simp: route_user_char_def is_digit_def)

definition ROUTE_TARGET :: pre where
  "ROUTE_TARGET = Seq (Opt (Grp 1 (Seq (Plus route_user_char) (Lit CHR ''@''))))
     (Seq (Grp 2 (Plus route_host_char)) ROUTE_PORT)"

lemma caps_ROUTE_ENTRY:
  "caps ROUTE_ENTRY prev (''<sip:'' @ s) = caps ROUTE_TARGET (Some CHR '':'') s"
proof -
  have so: "starts_outside (Seq (LitI CHR ''s'') b) is_space" for b
    by (rule starts_outside_Seq, rule starts_outside_Cls)
       (auto simp: is_space_def to_lower_def Let_def)
  show ?thesis
    by (simp add: ROUTE_ENTRY_def ROUTE_TARGET_def caps_Seq_Star [OF so] caps_Seq_Opt adv_def)
qed

text \<open>The port part: the digits after a colon when there are any, and no group otherwise.\<close>

definition port_caps :: "string \<Rightarrow> captures" where
  "port_caps digits = (if digits = [] then [] else [(3, digits)])"

definition port_text :: "string \<Rightarrow> string" where
  "port_text digits = (if digits = [] then [] else CHR '':'' # digits)"

definition entry_tail :: "string \<Rightarrow> bool" where
  "entry_tail t \<longleftrightarrow> t \<noteq> [] \<and> (hd t = CHR '';'' \<or> hd t = CHR ''>'')"

lemma caps_ROUTE_PORT:
  assumes "list_all is_digit digits" and "entry_tail t"
  shows "\<exists>gs. caps ROUTE_PORT prev (port_text digits @ t) = port_caps digits # gs"
proof -
  from assms(2) obtain x xs where t: "t = x # xs" and x: "x = CHR '';'' \<or> x = CHR ''>''"
    by (cases t) (auto simp: entry_tail_def)
  then have nd: "\<not> is_digit x" by (auto simp: is_digit_def)
  show ?thesis
  proof (cases "digits = []")
    case True
    with t x show ?thesis by (auto simp: ROUTE_PORT_def caps_Opt port_text_def port_caps_def)
  next
    case False
    from assms(1) nd t have tw: "takeWhile is_digit (digits @ t) = digits"
      by (auto simp: takeWhile_append2 list_all_iff)
    with False obtain tailp where "ms (Plus is_digit) (Some CHR '':'') (digits @ t) =
        (digits, dropWhile is_digit (digits @ t), []) # tailp"
      using ms_Plus_first [of is_digit "digits @ t" "Some CHR '':''"] by auto
    then have "\<exists>gs. caps (Grp 3 (Plus is_digit)) (Some CHR '':'') (digits @ t) = [(3, digits)] # gs"
      by (simp only: caps_Grp) simp
    with False show ?thesis
      by (auto simp: ROUTE_PORT_def caps_Opt port_text_def port_caps_def)
  qed
qed

lemma caps_ROUTE_host:
  assumes "host \<noteq> []" "list_all route_host_char host" "list_all is_digit digits" "entry_tail t"
  shows "\<exists>gs. caps (Seq (Grp 2 (Plus route_host_char)) ROUTE_PORT) prev (host @ port_text digits @ t) =
    ((2, host) # port_caps digits) # gs"
proof -
  from assms(4) have "\<exists>x xs. port_text digits @ t = x # xs \<and> \<not> route_host_char x"
    by (cases t) (auto simp: entry_tail_def port_text_def)
  then have tw: "takeWhile route_host_char (host @ port_text digits @ t) = host"
    and dw: "dropWhile route_host_char (host @ port_text digits @ t) = port_text digits @ t"
    using assms(2) by (auto simp: takeWhile_append2 dropWhile_append2 list_all_iff)
  obtain tailp where "caps (Seq (Grp 2 (Plus route_host_char)) ROUTE_PORT) prev (host @ port_text digits @ t) =
      map (\<lambda>g. (2, host) # g) (caps ROUTE_PORT (adv prev host) (port_text digits @ t)) @ tailp"
    using caps_Seq_Grp_Plus_greedy [of route_host_char "host @ port_text digits @ t" 2 ROUTE_PORT prev]
      assms(1) tw dw by auto
  moreover obtain gs where "caps ROUTE_PORT (adv prev host) (port_text digits @ t) = port_caps digits # gs"
    using caps_ROUTE_PORT [OF assms(3,4)] by blast
  ultimately show ?thesis by simp
qed

definition userinfo_text :: "string \<Rightarrow> string" where
  "userinfo_text user = (if user = [] then [] else user @ ''@'')"

lemma caps_ROUTE_TARGET:
  assumes "list_all route_user_char user" "host \<noteq> []" "list_all route_host_char host"
    "list_all is_digit digits" "entry_tail t"
  shows "\<exists>g gs. caps ROUTE_TARGET prev (userinfo_text user @ host @ port_text digits @ t) = g # gs
     \<and> map_of g 2 = Some host \<and> map_of g 3 = (if digits = [] then None else Some digits)"
proof (cases "user = []")
  case True
  let ?s = "host @ port_text digits @ t"
  obtain x xs where t: "t = x # xs" and x: "x = CHR '';'' \<or> x = CHR ''>''"
    using assms(5) by (cases t) (auto simp: entry_tail_def)
  have "route_user_char CHR '':''" by (simp add: route_user_char_def)
  then have "\<And>c. c \<in> set (host @ port_text digits) \<Longrightarrow> route_user_char c"
    using assms(3,4)
    by (auto simp: list_all_iff port_text_def intro: route_host_is_user is_digit_user split: if_splits)
  then have "dropWhile route_user_char ((host @ port_text digits) @ t) = dropWhile route_user_char t"
    by (rule dropWhile_append2)
  then have dw: "dropWhile route_user_char ?s = t" using t x by auto
  have none: "caps (Seq (Grp 1 (Seq (Plus route_user_char) (Lit CHR ''@''))) b) prev ?s = []" for b
    by (subst caps_Seq_Grp_delimited, simp, simp only: dw) (use t x in auto)
  obtain gs where "caps (Seq (Grp 2 (Plus route_host_char)) ROUTE_PORT) prev ?s = ((2, host) # port_caps digits) # gs"
    using caps_ROUTE_host [OF assms(2-5)] by blast
  with True none show ?thesis
    by (simp add: ROUTE_TARGET_def caps_Seq_Opt userinfo_text_def port_caps_def)
next
  case False
  let ?s = "host @ port_text digits @ t"
  have tw: "takeWhile route_user_char (user @ CHR ''@'' # ?s) = user"
    and dw: "dropWhile route_user_char (user @ CHR ''@'' # ?s) = CHR ''@'' # ?s"
    using assms(1) by (auto simp: takeWhile_append2 dropWhile_append2 list_all_iff)
  obtain gs where "caps (Seq (Grp 2 (Plus route_host_char)) ROUTE_PORT) (Some CHR ''@'') ?s =
      ((2, host) # port_caps digits) # gs"
    using caps_ROUTE_host [OF assms(2-5)] by blast
  then have "caps (Seq (Grp 1 (Seq (Plus route_user_char) (Lit CHR ''@'')))
        (Seq (Grp 2 (Plus route_host_char)) ROUTE_PORT)) prev (user @ CHR ''@'' # ?s) =
      ((1, user @ ''@'') # (2, host) # port_caps digits) #
        map (\<lambda>g. (1, user @ ''@'') # g) gs"
    using False by (subst caps_Seq_Grp_delimited) (simp_all add: tw dw)
  with False show ?thesis
    by (simp add: ROUTE_TARGET_def caps_Seq_Opt userinfo_text_def port_caps_def)
qed

text \<open>One Route entry as the S-SBC writes it.\<close>

definition route_entry :: "string \<Rightarrow> string \<Rightarrow> string \<Rightarrow> string \<Rightarrow> string" where
  "route_entry user host digits params =
     ''<sip:'' @ userinfo_text user @ host @ port_text digits @ params @ ''>''"

lemma route_part_target_entry:
  assumes "list_all route_user_char user" "host \<noteq> []" "list_all route_host_char host"
    "list_all is_digit digits" "params = [] \<or> hd params = CHR '';''"
  shows "route_part_target d (route_entry user host digits params) =
    Some (host, if digits = [] then d else int (nat_of_digits digits))"
proof -
  let ?e = "route_entry user host digits params"
  have tail: "entry_tail (params @ ''>'')"
    using assms(5) by (auto simp: entry_tail_def hd_append)
  have strip: "py_strip ?e = ?e"
    by (rule py_strip_id) (simp_all add: route_entry_def is_space_def)
  obtain g gs where g: "caps ROUTE_TARGET (Some CHR '':'') (userinfo_text user @ host @ port_text digits @ params @ ''>'') = g # gs"
    "map_of g 2 = Some host" "map_of g 3 = (if digits = [] then None else Some digits)"
    using caps_ROUTE_TARGET [OF assms(1-4) tail] by blast
  then have "re_search ROUTE_ENTRY ?e = Some g"
    unfolding re_search_def route_entry_def
    by (intro re_search_from_first [of _ _ _ g gs]) (simp only: caps_ROUTE_ENTRY)
  with g show ?thesis by (simp add: route_part_target_def strip)
qed

lemma split_on_first: "c \<notin> set a \<Longrightarrow> b = [] \<or> hd b = c \<Longrightarrow> \<exists>rest. split_on c (a @ b) = a # rest"
proof (induction a)
  case Nil
  then show ?case by (cases b) auto
next
  case (Cons x a)
  then show ?case by auto
qed

text \<open>
  C23: On a trunk INVITE whose first Route field starts with an entry
  \<^verbatim>\<open><sip:user@host:port;params>\<close> (the user, the port and the parameters optional, more
  entries and fields following or not), the loose-route target is exactly that host and
  port, with the default port when the entry names none; without a Route field, and
  without a request, there is no target and the configured hop stays.
\<close>
theorem top_route_target_parsed:
  assumes "get_hf_bodys rq ''route'' = (route_entry user host digits params @ tailp) # others"
    and "tailp = [] \<or> hd tailp = CHR '',''"
    and "CHR '','' \<notin> set user \<union> set host \<union> set params"
    and "list_all route_user_char user" and "host \<noteq> []" and "list_all route_host_char host"
    and "list_all is_digit digits" and "params = [] \<or> hd params = CHR '';''"
  shows "parse_top_route_target (Some rq) d =
           Some (host, if digits = [] then d else int (nat_of_digits digits))
     \<and> parse_top_route_target None d = None
     \<and> (get_hf_bodys rq' ''route'' = [] \<longrightarrow> parse_top_route_target (Some rq') d = None)"
proof (intro conjI impI)
  have nd: "CHR '','' \<notin> set digits" using assms(7) by (auto simp: list_all_iff is_digit_def)
  have "CHR '','' \<notin> set (route_entry user host digits params)"
    using assms(3) nd by (simp add: route_entry_def userinfo_text_def port_text_def)
  then obtain rest where
    "split_on CHR '','' (route_entry user host digits params @ tailp) = route_entry user host digits params # rest"
    using split_on_first assms(2) by blast
  then show "parse_top_route_target (Some rq) d =
      Some (host, if digits = [] then d else int (nat_of_digits digits))"
    using assms(1) route_part_target_entry [OF assms(4-8)]
    by (simp add: parse_top_route_target_def route_header_values_def)
qed (simp_all add: parse_top_route_target_def route_header_values_def)

theorem top_route_target_parsed_witness:
  "parse_top_route_target
     (Some \<lparr>rq_method = ''INVITE'', rq_source = None, rq_call_id = ''c'', rq_to_tag = None,
        rq_headers = [(''via'', ''x''), (''route'', ''<sip:scscf@10.0.0.9:5070;lr>,<sip:10.0.0.2;lr>'')]\<rparr>) 5060
   = Some (''10.0.0.9'', 5070)"
proof -
  let ?rq = "\<lparr>rq_method = ''INVITE'', rq_source = None, rq_call_id = ''c'', rq_to_tag = None,
        rq_headers = [(''via'', ''x''), (''route'', ''<sip:scscf@10.0.0.9:5070;lr>,<sip:10.0.0.2;lr>'')]\<rparr>"
  have "get_hf_bodys ?rq ''route'' =
      (route_entry ''scscf'' ''10.0.0.9'' ''5070'' '';lr'' @ '',<sip:10.0.0.2;lr>'') # []"
    by (simp add: get_hf_bodys_def route_entry_def userinfo_text_def port_text_def)
  from top_route_target_parsed [OF this, of 5060 ?rq] show ?thesis
    by (simp add: route_user_char_def route_host_char_def is_digit_def nat_of_digits_def)
qed

text \<open>
  An IPv6 Route entry is not read: the host class of the pattern stops at the first
  colon, so \<^verbatim>\<open><sip:[2001:db8::1]:5070;lr>\<close> yields the host \<^verbatim>\<open>[2001\<close> and the default port
  instead of the address and the port the entry names.
\<close>
lemma route_ipv6_entry_truncated:
  "route_part_target 5060 ''<sip:[2001:db8::1]:5070;lr>'' = Some (''[2001'', 5060)"
proof -
  have strip: "py_strip ''<sip:[2001:db8::1]:5070;lr>'' = ''<sip:[2001:db8::1]:5070;lr>''"
    by (rule py_strip_id) (simp_all add: is_space_def)
  have none: "caps (Seq (Grp 1 (Seq (Plus route_user_char) (Lit CHR ''@''))) b) prev
      ''[2001:db8::1]:5070;lr>'' = []" for b prev
    by (subst caps_Seq_Grp_delimited) (simp_all add: route_user_char_def)
  have "\<exists>tailp. caps (Seq (Grp 2 (Plus route_host_char)) ROUTE_PORT) prev ''[2001:db8::1]:5070;lr>'' =
      [(2, ''[2001'')] # tailp" for prev
    using caps_Seq_Grp_Plus_greedy [of route_host_char "''[2001:db8::1]:5070;lr>''" 2 ROUTE_PORT prev]
    by (auto simp: route_host_char_def ROUTE_PORT_def caps_Opt caps_Grp is_digit_def)
  from this [of "Some CHR '':''"] obtain tailp where
    host: "caps (Seq (Grp 2 (Plus route_host_char)) ROUTE_PORT) (Some CHR '':'') ''[2001:db8::1]:5070;lr>'' =
      [(2, ''[2001'')] # tailp" ..
  have "caps ROUTE_TARGET (Some CHR '':'') ''[2001:db8::1]:5070;lr>'' = [(2, ''[2001'')] # tailp"
    unfolding ROUTE_TARGET_def by (simp only: caps_Seq_Opt none host append_Nil)
  then have "re_search ROUTE_ENTRY ''<sip:[2001:db8::1]:5070;lr>'' = Some [(2, ''[2001'')]"
    unfolding re_search_def using caps_ROUTE_ENTRY [of None "''[2001:db8::1]:5070;lr>''"]
    by (intro re_search_from_first [of _ _ _ _ tailp]) simp
  then show ?thesis by (simp add: route_part_target_def strip)
qed

end
