(* ===== verification/CallState.thy ===== *)
theory CallState
  imports AsHop AsMetrics AsTracing RouteHeader
begin

text \<open>
  The state a call controller of \<^verbatim>\<open>call_controller.py\<close> works on and the module-level helpers
  of that file. The observability side (counters, trace, log, clock) is one record, the
  signalling side (the process-wide \<^verbatim>\<open>SipConf\<close>, the armed loop timers, the calls made into
  sippy's user agents) another. A user agent is a number: only its identity and what is
  asked of it matter to this code.
\<close>

section \<open>Observability\<close>

record obs =
  ob_metrics :: metrics_registry
  ob_tracer :: trace_recorder
  ob_log :: log_sink
  ob_clock :: int

type_synonym 'a obs_prog = "(pyexc, obs, 'a) prog"

definition metrics_do :: "(metrics_registry \<Rightarrow> metrics_registry) \<Rightarrow> unit obs_prog" where
  "metrics_do f = upd (\<lambda>b. b\<lparr>ob_metrics := f (ob_metrics b)\<rparr>)"

definition obs_trace ::
    "string \<Rightarrow> string \<Rightarrow> string \<Rightarrow> string \<Rightarrow> string \<Rightarrow> pyval \<Rightarrow> fields \<Rightarrow> unit obs_prog" where
  "obs_trace call_id direction method summary peer rule_id attributes b =
     (case trace_record (ob_clock b) call_id direction method summary peer rule_id attributes
             (ob_tracer b) of
        (Inl e, t) \<Rightarrow> (Inl e, b\<lparr>ob_tracer := t\<rparr>)
      | (Inr _, t) \<Rightarrow> (Inr (), b\<lparr>ob_tracer := t\<rparr>))"

definition obs_log :: "log_level \<Rightarrow> string \<Rightarrow> fields \<Rightarrow> unit obs_prog" where
  "obs_log level event kw b =
     (case log_event ''call_controller'' level event kw (ob_log b) of
        (r, l) \<Rightarrow> (r, b\<lparr>ob_log := l\<rparr>))"

section \<open>Signalling\<close>

text \<open>\<^verbatim>\<open>SipConf.my_address\<close>, \<^verbatim>\<open>my_port\<close> and \<^verbatim>\<open>my_uaname\<close>, the process-wide identity sippy reads.\<close>

record sip_conf =
  sc_address :: string
  sc_port :: int
  sc_uaname :: string

text \<open>The keys of sippy's global configuration the controller reads; an absent key is None.\<close>

record gconf =
  gc_sip_address :: "string option"
  gc_sip_port :: "int option"
  gc_sip_uaname :: "string option"
  gc_next_hop_expire :: "int option"
  gc_nh_addr :: "(string \<times> int) option"

text \<open>
  The calls into sippy, in the order they are made, with the identity in effect when sippy
  generates its message.
\<close>

datatype sip_call =
    UaCreated nat "(string \<times> int) option" string "string \<times> int"
  | UaRecvRequest nat sip_request sip_conf
  | UaRecvEvent nat ccevent sip_conf
  | UaDisconnect nat

text \<open>
  The signalling world: \<open>w_timers\<close> are the armed one-shot timers with their deadline in
  milliseconds, \<open>w_connected\<close> the user agents that answer \<^verbatim>\<open>isConnected()\<close> with true, and
  \<open>w_next_id\<close> an identity not used yet.
\<close>

record world =
  w_obs :: obs
  w_conf :: sip_conf
  w_next_id :: nat
  w_timers :: "(nat \<times> int) list"
  w_connected :: "nat list"
  w_sip :: "sip_call list"

section \<open>Module-level helpers\<close>

definition LEG_TRUNK :: string where "LEG_TRUNK = ''trunk''"
definition LEG_NEXT_HOP :: string where "LEG_NEXT_HOP = ''next_hop''"
definition DEFAULT_NEXT_HOP_EXPIRE :: int where "DEFAULT_NEXT_HOP_EXPIRE = 3000"
definition UNKNOWN_HOP_KEY :: string where "UNKNOWN_HOP_KEY = ''next_hop''"

definition opt_get :: "'a option \<Rightarrow> 'a \<Rightarrow> 'a" where
  "opt_get x d = (case x of None \<Rightarrow> d | Some v \<Rightarrow> v)"

lemma opt_get_simps [simp]: "opt_get None d = d" "opt_get (Some v) d = v"
  by (simp_all add: opt_get_def)

definition pinned_identity :: "gconf \<Rightarrow> sip_conf \<Rightarrow> sip_conf" where
  "pinned_identity g conf =
     \<lparr>sc_address = opt_get (gc_sip_address g) (sc_address conf),
      sc_port = opt_get (gc_sip_port g) (sc_port conf),
      sc_uaname = opt_get (gc_sip_uaname g) (sc_uaname conf)\<rparr>"

definition local_contact :: "gconf \<Rightarrow> sip_conf \<Rightarrow> string \<times> int" where
  "local_contact g conf =
     (opt_get (gc_sip_address g) (sc_address conf), opt_get (gc_sip_port g) (sc_port conf))"

definition source_address :: "sip_request \<Rightarrow> string" where
  "source_address rq = (case rq_source rq of None \<Rightarrow> ''-'' | Some (a, p) \<Rightarrow> a)"

definition peer_text :: "string \<times> int \<Rightarrow> string" where
  "peer_text ap = fst ap @ '':'' @ int_str (snd ap)"

definition source_peer :: "sip_request \<Rightarrow> string" where
  "source_peer rq = (case rq_source rq of None \<Rightarrow> ''-'' | Some ap \<Rightarrow> peer_text ap)"

fun describe_event :: "ccevent \<Rightarrow> string \<times> string" where
  "describe_event (CCEventTry _) = (''INVITE'', ''invite received'')"
| "describe_event (CCEventRing None) = (''180'', ''ringing'')"
| "describe_event (CCEventRing (Some (code, reason, _))) =
     (int_str code, py_strip (int_str code @ '' '' @ reason))"
| "describe_event (CCEventConnect None) = (''180'', ''ringing'')"
| "describe_event (CCEventConnect (Some (code, reason, _))) =
     (int_str code, py_strip (int_str code @ '' '' @ reason))"
| "describe_event (CCEventFail None) = (''500'', ''call failed'')"
| "describe_event (CCEventFail (Some (code, reason, _))) =
     (int_str code, py_strip (int_str code @ '' '' @ reason))"
| "describe_event CCEventDisconnect = (''BYE'', ''call released'')"
| "describe_event CCEventUpdate = (''INVITE'', ''session update'')"
| "describe_event (CCEventOther nm) = (nm, ''call control event'')"

definition with_attempt_fields :: "fields \<Rightarrow> next_hop \<Rightarrow> string \<Rightarrow> fields" where
  "with_attempt_fields flds hop called_number =
     (let f1 = (if map_of flds ''called_number'' = None then flds
                else AList.update ''called_number'' (PStr called_number) flds)
      in if map_of f1 ''next_hop'' = None then f1
         else AList.update ''next_hop'' (PStr (nh_name hop)) f1)"

section \<open>The decision\<close>

datatype policy_action = RELAY | REJECT

record policy_decision =
  pd_action :: policy_action
  pd_outbound_event :: "ccevent option"
  pd_next_hops :: "next_hop list"
  pd_error :: "as_error option"
  pd_disposition :: call_disposition
  pd_attributes :: fields
  pd_reject_trace_summary :: string
  pd_reject_log_message :: string
  pd_reject_log_fields :: fields
  pd_relay_log_message :: string
  pd_relay_log_fields :: fields

definition mk_policy_decision :: "policy_action \<Rightarrow> policy_decision" where
  "mk_policy_decision a = \<lparr>pd_action = a, pd_outbound_event = None, pd_next_hops = [],
     pd_error = None, pd_disposition = REJECTED, pd_attributes = [],
     pd_reject_trace_summary = [], pd_reject_log_message = [], pd_reject_log_fields = [],
     pd_relay_log_message = [], pd_relay_log_fields = []\<rparr>"

section \<open>The controller's own state\<close>

record controller =
  bc_conf :: gconf
  bc_next_hop :: "(string \<times> int) option"
  bc_call_id :: string
  bc_trunk_peer :: string
  bc_uaA :: "nat option"
  bc_uaO :: "nat option"
  bc_trunk_request :: "sip_request option"
  bc_policy :: "policy_decision option"
  bc_pending_event :: "ccevent option"
  bc_failover_hops :: "next_hop list"
  bc_serving_hop :: "next_hop option"
  bc_no_answer_timer :: "nat option"

definition mk_controller :: "gconf \<Rightarrow> (string \<times> int) option \<Rightarrow> controller" where
  "mk_controller g nh = \<lparr>bc_conf = g, bc_next_hop = nh, bc_call_id = ''-'', bc_trunk_peer = ''-'',
     bc_uaA = None, bc_uaO = None, bc_trunk_request = None, bc_policy = None,
     bc_pending_event = None, bc_failover_hops = [], bc_serving_hop = None,
     bc_no_answer_timer = None\<rparr>"

type_synonym cst = "controller \<times> world"
type_synonym cstmt = "(pyexc, cst) stmt"

text \<open>
  What an application supplies: the decision, the extra fields of the inbound INVITE, and
  the two renderings it may override. A decision may read the controller and write the
  observability side; it has no access to the legs and the timers.
\<close>

record hooks =
  hk_decide :: "controller \<Rightarrow> ccevent \<Rightarrow> policy_decision obs_prog"
  hk_inbound_fields :: "sip_request \<Rightarrow> pyexc + fields"
  hk_peer_status_key :: "next_hop \<Rightarrow> string"
  hk_no_answer_hop_label :: "controller \<Rightarrow> string"

definition peer_status_key :: "next_hop \<Rightarrow> string" where
  "peer_status_key hop = nh_name hop @ '':'' @ nh_address hop @ '':'' @ int_str (nh_port hop)"

definition serving_name :: "controller \<Rightarrow> string" where
  "serving_name c = (case bc_serving_hop c of None \<Rightarrow> [] | Some h \<Rightarrow> nh_name h)"

definition base_hooks :: hooks where
  "base_hooks = \<lparr>hk_decide = (\<lambda>c e. raise NotImplementedError), hk_inbound_fields = (\<lambda>rq. Inr []),
     hk_peer_status_key = peer_status_key, hk_no_answer_hop_label = serving_name\<rparr>"

section \<open>Statements of a controller method\<close>

definition cget :: "(controller \<Rightarrow> world \<Rightarrow> (pyexc, cst, 'a) prog) \<Rightarrow> (pyexc, cst, 'a) prog" where
  "cget f = (\<lambda>(c, w). f c w (c, w))"

definition cupd :: "(controller \<Rightarrow> controller) \<Rightarrow> cstmt" where
  "cupd f = on_fst (upd f)"

definition wupd :: "(world \<Rightarrow> world) \<Rightarrow> cstmt" where
  "wupd f = on_snd (upd f)"

definition obs_do :: "'a obs_prog \<Rightarrow> (pyexc, cst, 'a) prog" where
  "obs_do m = (\<lambda>(c, w). case m (w_obs w) of (r, b) \<Rightarrow> (r, (c, w\<lparr>w_obs := b\<rparr>)))"

definition of_result :: "pyexc + 'a \<Rightarrow> (pyexc, cst, 'a) prog" where
  "of_result x = (case x of Inl e \<Rightarrow> raise e | Inr a \<Rightarrow> ret a)"

lemma cget_run [simp, run_simps]: "cget f (c, w) = f c w (c, w)"
  by (simp add: cget_def)

lemma cupd_run [simp, run_simps]: "cupd f (c, w) = (Inr (), (f c, w))"
  by (simp add: cupd_def)

lemma wupd_run [simp, run_simps]: "wupd f (c, w) = (Inr (), (c, f w))"
  by (simp add: wupd_def)

lemma bindp_cupd [simp, run_simps]: "bindp (cupd f) g (c, w) = g () (f c, w)"
  by (simp add: bindp_def)

lemma bindp_wupd [simp, run_simps]: "bindp (wupd f) g (c, w) = g () (c, f w)"
  by (simp add: bindp_def)

lemma bindp_of_result [simp, run_simps]:
  "bindp (of_result (Inr a)) g = g a" "bindp (of_result (Inl e)) g s = (Inl e, s)"
  by (simp_all add: of_result_def)

text \<open>Creating a user agent, and the calls into one.\<close>

definition log_sip :: "sip_call \<Rightarrow> world \<Rightarrow> world" where
  "log_sip x w = w\<lparr>w_sip := w_sip w @ [x]\<rparr>"

definition new_ua :: "(string \<times> int) option \<Rightarrow> (pyexc, cst, nat) prog" where
  "new_ua nh = cget (\<lambda>c w. bindp
     (wupd (\<lambda>w. log_sip (UaCreated (w_next_id w) nh (opt_get (gc_sip_uaname (bc_conf c)) [])
                    (local_contact (bc_conf c) (w_conf w))) (w\<lparr>w_next_id := w_next_id w + 1\<rparr>)))
     (\<lambda>_. ret (w_next_id w)))"

definition ua_recv_event :: "nat option \<Rightarrow> ccevent \<Rightarrow> cstmt" where
  "ua_recv_event ua ev =
     (case ua of None \<Rightarrow> raise AttributeError
      | Some u \<Rightarrow> wupd (\<lambda>w. log_sip (UaRecvEvent u ev (w_conf w)) w))"

definition ua_recv_request :: "nat \<Rightarrow> sip_request \<Rightarrow> cstmt" where
  "ua_recv_request u rq = wupd (\<lambda>w. log_sip (UaRecvRequest u rq (w_conf w)) w)"

definition sip_identity :: "gconf \<Rightarrow> cstmt \<Rightarrow> cstmt" where
  "sip_identity g body = cget (\<lambda>c w.
     bindp (wupd (\<lambda>w. w\<lparr>w_conf := pinned_identity g (w_conf w)\<rparr>))
       (\<lambda>_. finallyp body (\<lambda>(c', w'). (c', w'\<lparr>w_conf := w_conf w\<rparr>))))"

definition is_connected :: "world \<Rightarrow> nat option \<Rightarrow> bool" where
  "is_connected w ua = (case ua of None \<Rightarrow> False | Some u \<Rightarrow> u \<in> set (w_connected w))"

text \<open>Arming a one-shot timer and cancelling one.\<close>

definition arm_timer :: "int \<Rightarrow> (pyexc, cst, nat) prog" where
  "arm_timer delay = cget (\<lambda>c w. bindp
     (wupd (\<lambda>w. w\<lparr>w_timers := w_timers w @ [(w_next_id w, ob_clock (w_obs w) + delay)],
                  w_next_id := w_next_id w + 1\<rparr>))
     (\<lambda>_. ret (w_next_id w)))"

definition disarm :: "nat \<Rightarrow> world \<Rightarrow> world" where
  "disarm t w = w\<lparr>w_timers := filter (\<lambda>x. fst x \<noteq> t) (w_timers w)\<rparr>"

end
