(* ===== verification/CallController.thy ===== *)
theory CallController
  imports CallState
begin

text \<open>
  \<^verbatim>\<open>BaseCallController\<close> of \<^verbatim>\<open>call_controller.py\<close>, method by method. sippy delivers its events
  through \<^verbatim>\<open>recv_event\<close>; what a call into a user agent makes sippy raise is a later
  \<^verbatim>\<open>recv_event\<close> of its own.
\<close>

section \<open>Counters and traces\<close>

definition next_hop_peer :: "controller \<Rightarrow> string" where
  "next_hop_peer c = (case bc_next_hop c of None \<Rightarrow> ''-'' | Some ap \<Rightarrow> peer_text ap)"

definition record_event ::
    "string \<Rightarrow> string \<Rightarrow> string \<Rightarrow> string \<Rightarrow> string \<Rightarrow> fields \<Rightarrow> cstmt" where
  "record_event direction leg meth summary peer attributes = cget (\<lambda>c w. block [
     obs_do (obs_trace (bc_call_id c) direction meth summary peer PNone
       (od_update [(''leg'', PStr leg)] attributes)),
     obs_do (obs_log DEBUG summary
       [(''call_id'', PStr (bc_call_id c)), (''direction'', PStr direction), (''peer'', PStr peer),
        (''method'', PStr meth), (''leg'', PStr leg)])])"

definition final_disposition :: "controller \<Rightarrow> world \<Rightarrow> ccevent \<Rightarrow> call_disposition" where
  "final_disposition c w ev =
     (case ev of CCEventFail _ \<Rightarrow> FAILED
      | _ \<Rightarrow> if is_connected w (bc_uaA c) then COMPLETED else ABANDONED)"

definition record_disposition :: "ccevent \<Rightarrow> cstmt" where
  "record_disposition ev = cget (\<lambda>c w. block [
     obs_do (metrics_do (record_call_disposition (final_disposition c w ev))),
     obs_do (obs_log INFO ''call finished''
       [(''call_id'', PStr (bc_call_id c)), (''direction'', PStr INTERNAL),
        (''disposition'', PStr (disposition_value (final_disposition c w ev)))])])"

section \<open>The timer\<close>

definition cancel_no_answer_timer :: cstmt where
  "cancel_no_answer_timer = cget (\<lambda>c w.
     case bc_no_answer_timer c of
       None \<Rightarrow> ret ()
     | Some t \<Rightarrow> block [wupd (disarm t), cupd (\<lambda>c. c\<lparr>bc_no_answer_timer := None\<rparr>)])"

definition dispose :: cstmt where
  "dispose = cancel_no_answer_timer"

definition on_next_hop_no_answer :: "hooks \<Rightarrow> cstmt" where
  "on_next_hop_no_answer hk = cget (\<lambda>c w.
     case bc_uaO c of
       None \<Rightarrow> ret ()
     | Some u \<Rightarrow>
         if is_connected w (bc_uaA c) then ret ()
         else block [
           obs_do (obs_log WARNING ''next hop did not answer in time''
             [(''call_id'', PStr (bc_call_id c)), (''direction'', PStr INTERNAL),
              (''next_hop'', PStr (hk_no_answer_hop_label hk c)),
              (''error_code'', PStr (ec_code (skeleton_row PEER_UNREACHABLE)))]),
           wupd (log_sip (UaDisconnect u))])"

section \<open>Originating\<close>

definition relay_vocabulary :: "controller \<Rightarrow> next_hop \<Rightarrow> string \<Rightarrow> string \<times> fields \<times> fields" where
  "relay_vocabulary c hop called_number =
     (case bc_policy c of
        None \<Rightarrow> ([], [], [])
      | Some p \<Rightarrow> (pd_relay_log_message p,
                   with_attempt_fields (pd_attributes p) hop called_number,
                   with_attempt_fields (pd_relay_log_fields p) hop called_number))"

definition pending_called_number :: "controller \<Rightarrow> pyexc + string" where
  "pending_called_number c =
     (case bc_pending_event c of None \<Rightarrow> Inl AttributeError | Some ev \<Rightarrow> event_data2 ev)"

text \<open>The trace, the log line and the INVITE of one attempt, once the leg and its timer exist.\<close>

definition originate_report :: "hooks \<Rightarrow> next_hop \<Rightarrow> string \<Rightarrow> cstmt" where
  "originate_report hk hop called_number = cget (\<lambda>c w.
     case relay_vocabulary c hop called_number of (message, trace_attributes, log_fields) \<Rightarrow> block [
       obs_do (metrics_do (set_peer_status (hk_peer_status_key hk hop) REACHABLE)),
       record_event OUTBOUND LEG_NEXT_HOP ''INVITE'' message (next_hop_peer c) trace_attributes,
       obs_do (obs_log INFO message
         ([(''call_id'', PStr (bc_call_id c)), (''direction'', PStr OUTBOUND),
           (''peer'', PStr (next_hop_peer c)), (''method'', PStr ''INVITE'')] @ log_fields)),
       sip_identity (bc_conf c)
         (case bc_pending_event c of None \<Rightarrow> raise AttributeError
          | Some ev \<Rightarrow> ua_recv_event (bc_uaO c) ev)])"

definition originate_towards :: "hooks \<Rightarrow> next_hop \<Rightarrow> cstmt" where
  "originate_towards hk hop = block [
     cupd (\<lambda>c. c\<lparr>bc_serving_hop := Some hop\<rparr>),
     cupd (\<lambda>c. c\<lparr>bc_next_hop := Some (hop_addr hop)\<rparr>),
     bindp (new_ua (Some (hop_addr hop))) (\<lambda>u. cupd (\<lambda>c. c\<lparr>bc_uaO := Some u\<rparr>)),
     cget (\<lambda>c w. bindp (arm_timer (opt_get (gc_next_hop_expire (bc_conf c)) DEFAULT_NEXT_HOP_EXPIRE))
       (\<lambda>t. cupd (\<lambda>c. c\<lparr>bc_no_answer_timer := Some t\<rparr>))),
     cget (\<lambda>c w. bindp (of_result (pending_called_number c)) (originate_report hk hop))]"

definition try_failover :: "hooks \<Rightarrow> (pyexc, cst, bool) prog" where
  "try_failover hk = cget (\<lambda>c w.
     case bc_failover_hops c of
       [] \<Rightarrow> ret False
     | hop # rest \<Rightarrow> bindp (block [
         obs_do (metrics_do (set_peer_status
           (case bc_serving_hop c of None \<Rightarrow> UNKNOWN_HOP_KEY | Some h \<Rightarrow> hk_peer_status_key hk h)
           UNREACHABLE)),
         cupd (\<lambda>c. c\<lparr>bc_failover_hops := rest\<rparr>),
         cupd (\<lambda>c. c\<lparr>bc_uaO := None\<rparr>),
         obs_do (obs_log WARNING ''next hop failed; trying failover hop''
           [(''call_id'', PStr (bc_call_id c)), (''direction'', PStr INTERNAL),
            (''failed_hop'', PStr (serving_name c)), (''failover_hop'', PStr (nh_name hop)),
            (''error_code'', PStr (ec_code (skeleton_row PEER_UNREACHABLE)))]),
         originate_towards hk hop]) (\<lambda>_. ret True))"

section \<open>The seam\<close>

definition apply_call_policy :: "hooks \<Rightarrow> ccevent \<Rightarrow> (pyexc, cst, policy_decision) prog" where
  "apply_call_policy hk ev = cget (\<lambda>c w.
     bindp (obs_do (hk_decide hk c ev))
       (\<lambda>d. bindp (cupd (\<lambda>c. c\<lparr>bc_policy := Some d\<rparr>)) (\<lambda>_. ret d)))"

definition reject_on_trunk :: "policy_decision \<Rightarrow> cstmt" where
  "reject_on_trunk d =
     (case pd_error d of
        None \<Rightarrow> raise AssertionError
      | Some err \<Rightarrow> block [
          cancel_no_answer_timer,
          obs_do (metrics_do (record_call_disposition (pd_disposition d))),
          cget (\<lambda>c w. obs_do (obs_trace (bc_call_id c) OUTBOUND (int_str (as_sip_status err))
            (pd_reject_trace_summary d) (bc_trunk_peer c)
            (py_or (opt_get (map_of (pd_attributes d) ''rule_id'') PNone) PNone)
            (od_update [(''leg'', PStr LEG_TRUNK), (''error_code'', PStr (ec_code (ae_code err)))]
               (pd_attributes d)))),
          cget (\<lambda>c w. obs_do (obs_log WARNING (pd_reject_log_message d)
            ([(''call_id'', PStr (bc_call_id c)), (''direction'', PStr OUTBOUND),
              (''peer'', PStr (bc_trunk_peer c)), (''method'', PStr (int_str (as_sip_status err)))]
             @ pd_reject_log_fields d @ map (\<lambda>(k, v). (k, PStr v)) (as_log_fields err)))),
          cget (\<lambda>c w. case bc_uaA c of None \<Rightarrow> ret ()
            | Some u \<Rightarrow> ua_recv_event (Some u)
                (CCEventFail (Some (as_sip_status err, as_sip_phrase err, None))))])"

definition originate_outbound_leg :: "hooks \<Rightarrow> ccevent \<Rightarrow> cstmt" where
  "originate_outbound_leg hk ev = bindp (apply_call_policy hk ev) (\<lambda>d.
     if pd_action d \<noteq> RELAY then reject_on_trunk d
     else block [
       cupd (\<lambda>c. c\<lparr>bc_pending_event := pd_outbound_event d\<rparr>),
       cupd (\<lambda>c. c\<lparr>bc_failover_hops := pd_next_hops d\<rparr>),
       cget (\<lambda>c w. case bc_failover_hops c of
          [] \<Rightarrow> raise IndexError
        | hop # rest \<Rightarrow> block [cupd (\<lambda>c. c\<lparr>bc_failover_hops := rest\<rparr>), originate_towards hk hop])])"

section \<open>Events\<close>

definition relay_from_trunk :: "hooks \<Rightarrow> ccevent \<Rightarrow> cstmt" where
  "relay_from_trunk hk ev = cget (\<lambda>c w.
     case bc_uaO c of
       None \<Rightarrow>
         if \<not> is_try ev then ua_recv_event (bc_uaA c) CCEventDisconnect
         else originate_outbound_leg hk ev
     | Some u \<Rightarrow> block [
         record_event INBOUND LEG_TRUNK (fst (describe_event ev))
           (snd (describe_event ev) @ '' on the trunk leg'') (bc_trunk_peer c) [],
         ua_recv_event (Some u) ev])"

text \<open>A final event without failover, or a provisional or connect event, passed to the trunk.\<close>

definition relay_to_trunk :: "ccevent \<Rightarrow> cstmt" where
  "relay_to_trunk ev = block [
     cget (\<lambda>c w. record_event INBOUND LEG_NEXT_HOP (fst (describe_event ev))
       (snd (describe_event ev) @ '' on the next-hop leg'') (next_hop_peer c) []),
     whenp (is_fail_or_disconnect ev) (block [cancel_no_answer_timer, record_disposition ev]),
     cget (\<lambda>c w. case bc_uaA c of None \<Rightarrow> ret () | Some u \<Rightarrow> ua_recv_event (Some u) ev),
     whenp (is_ring_or_connect ev \<and> fst (describe_event ev) \<noteq> ''ACK'')
       (cget (\<lambda>c w. record_event OUTBOUND LEG_TRUNK (fst (describe_event ev))
          (snd (describe_event ev) @ '' relayed to the trunk leg'') (bc_trunk_peer c) []))]"

definition failover_record :: "ccevent \<Rightarrow> cstmt" where
  "failover_record ev = block [
     cancel_no_answer_timer,
     cget (\<lambda>c w. record_event INBOUND LEG_NEXT_HOP (fst (describe_event ev))
       (snd (describe_event ev) @ '' on the next-hop leg; trying failover'') (next_hop_peer c)
       [(''failed_hop'', PStr (serving_name c))])]"

definition relay_from_next_hop :: "hooks \<Rightarrow> ccevent \<Rightarrow> cstmt" where
  "relay_from_next_hop hk ev = block [
     whenp (is_ring_or_connect ev) cancel_no_answer_timer,
     cget (\<lambda>c w. bindp
       (if is_fail_or_disconnect ev \<and> \<not> is_connected w (bc_uaA c) then try_failover hk else ret False)
       (\<lambda>switched. if switched then failover_record ev else relay_to_trunk ev))]"

definition recv_event :: "hooks \<Rightarrow> ccevent \<Rightarrow> nat \<Rightarrow> cstmt" where
  "recv_event hk ev ua = cget (\<lambda>c w.
     if Some ua = bc_uaA c then relay_from_trunk hk ev
     else if Some ua \<noteq> bc_uaO c then ret ()
     else relay_from_next_hop hk ev)"

section \<open>The trunk INVITE\<close>

definition capture_trunk_request :: "sip_request \<Rightarrow> cstmt" where
  "capture_trunk_request rq = cupd (\<lambda>c. c\<lparr>bc_trunk_request := Some rq\<rparr>)"

definition recv_request :: "hooks \<Rightarrow> sip_request \<Rightarrow> cstmt" where
  "recv_request hk rq = block [
     cupd (\<lambda>c. c\<lparr>bc_call_id := rq_call_id rq\<rparr>),
     cupd (\<lambda>c. c\<lparr>bc_trunk_peer := source_peer rq\<rparr>),
     bindp (of_result (hk_inbound_fields hk rq)) (\<lambda>inbound. cget (\<lambda>c w. block [
       obs_do (metrics_do record_call_started),
       obs_do (metrics_do (set_peer_status (bc_trunk_peer c @ '':trunk'') REACHABLE)),
       record_event INBOUND LEG_TRUNK ''INVITE'' ''invite received from the trunk'' (bc_trunk_peer c) inbound,
       obs_do (obs_log INFO ''invite received on the trunk''
         ([(''call_id'', PStr (bc_call_id c)), (''direction'', PStr INBOUND),
           (''peer'', PStr (bc_trunk_peer c)), (''method'', PStr ''INVITE'')] @ inbound)),
       bindp (new_ua None) (\<lambda>u. cupd (\<lambda>c. c\<lparr>bc_uaA := Some u\<rparr>)),
       cget (\<lambda>c w. case bc_uaA c of None \<Rightarrow> raise AttributeError
         | Some u \<Rightarrow> sip_identity (bc_conf c) (ua_recv_request u rq))]))]"

text \<open>\<^verbatim>\<open>_pass_through_headers\<close>: header name and body copies.\<close>

definition pass_through_headers :: "sip_request option \<Rightarrow> (string \<times> string) list" where
  "pass_through_headers request =
     (case request of
        None \<Rightarrow> []
      | Some rq \<Rightarrow> concat (map (\<lambda>nm. map (\<lambda>b. (nm, b)) (get_hf_bodys rq nm)) PASSTHROUGH_HEADERS))"

end
