(* ===== verification/CallFacts.thy ===== *)
theory CallFacts
  imports CallController
begin

text \<open>
  Evaluation of the controller's methods: the effect of each observability primitive as a
  function on the state, the rules by which a block of statements runs through them, and
  the outcome of each method when its fields are clean.
\<close>

section \<open>Running statements\<close>

lemma bindp_assoc [run_simps]: "bindp (bindp m f) g = bindp m (\<lambda>a. bindp (f a) g)"
  by (auto simp: bindp_def fun_eq_iff split: prod.splits sum.splits)

lemma bindp_ret_right [run_simps]: "bindp m ret = m"
  by (auto simp: bindp_def fun_eq_iff ret_def split: prod.splits sum.splits)

lemma bindp_unit_ret [run_simps]: "bindp m (\<lambda>_. ret ()) = m"
  by (auto simp: bindp_def fun_eq_iff ret_def split: prod.splits sum.splits)

lemma bindp_cget [run_simps]: "bindp (cget f) g (c, w) = bindp (f c w) g (c, w)"
  by (simp add: bindp_def)

lemma bindp_if [run_simps]: "bindp (if b then m else n) g = (if b then bindp m g else bindp n g)"
  by simp

lemma bindp_whenp [run_simps]: "bindp (whenp b m) g = (if b then bindp m g else g ())"
  by simp

lemma finallyp_wupd [run_simps]: "finallyp (wupd f) fin (c, w) = (Inr (), fin (c, f w))"
  by (simp add: finallyp_def)

section \<open>Observability primitives as functions\<close>

definition counted :: "(metrics_registry \<Rightarrow> metrics_registry) \<Rightarrow> obs \<Rightarrow> obs" where
  "counted f b = b\<lparr>ob_metrics := f (ob_metrics b)\<rparr>"

definition logged :: "log_level \<Rightarrow> string \<Rightarrow> fields \<Rightarrow> obs \<Rightarrow> obs" where
  "logged level event kw b =
     b\<lparr>ob_log := snd (log_event ''call_controller'' level event kw (ob_log b))\<rparr>"

definition traced ::
    "string \<Rightarrow> string \<Rightarrow> string \<Rightarrow> string \<Rightarrow> string \<Rightarrow> pyval \<Rightarrow> fields \<Rightarrow> obs \<Rightarrow> obs" where
  "traced cid dir meth summ peer rid attrs b =
     b\<lparr>ob_tracer := snd (trace_record (ob_clock b) cid dir meth summ peer rid attrs (ob_tracer b))\<rparr>"

definition wobs :: "(obs \<Rightarrow> obs) \<Rightarrow> world \<Rightarrow> world" where
  "wobs f w = w\<lparr>w_obs := f (w_obs w)\<rparr>"

definition obs_ok :: "obs \<Rightarrow> bool" where
  "obs_ok b \<longleftrightarrow> tracer_ok (ob_tracer b)"

lemma obs_fields [simp]:
  "ob_metrics (counted f b) = f (ob_metrics b)" "ob_tracer (counted f b) = ob_tracer b"
  "ob_log (counted f b) = ob_log b" "ob_clock (counted f b) = ob_clock b"
  "ob_metrics (logged lev ev kw b) = ob_metrics b" "ob_tracer (logged lev ev kw b) = ob_tracer b"
  "ob_clock (logged lev ev kw b) = ob_clock b"
  "ob_metrics (traced cid dir meth summ peer rid attrs b) = ob_metrics b"
  "ob_log (traced cid dir meth summ peer rid attrs b) = ob_log b"
  "ob_clock (traced cid dir meth summ peer rid attrs b) = ob_clock b"
  by (simp_all add: counted_def logged_def traced_def)

lemma wobs_fields [simp]:
  "w_obs (wobs f w) = f (w_obs w)" "w_conf (wobs f w) = w_conf w"
  "w_next_id (wobs f w) = w_next_id w" "w_timers (wobs f w) = w_timers w"
  "w_connected (wobs f w) = w_connected w" "w_sip (wobs f w) = w_sip w"
  by (simp_all add: wobs_def)

lemma log_sip_fields [simp]:
  "w_obs (log_sip x w) = w_obs w" "w_conf (log_sip x w) = w_conf w"
  "w_next_id (log_sip x w) = w_next_id w" "w_timers (log_sip x w) = w_timers w"
  "w_connected (log_sip x w) = w_connected w" "w_sip (log_sip x w) = w_sip w @ [x]"
  by (simp_all add: log_sip_def)

lemma disarm_fields [simp]:
  "w_obs (disarm t w) = w_obs w" "w_conf (disarm t w) = w_conf w"
  "w_next_id (disarm t w) = w_next_id w"
  "w_timers (disarm t w) = filter (\<lambda>x. fst x \<noteq> t) (w_timers w)"
  "w_connected (disarm t w) = w_connected w" "w_sip (disarm t w) = w_sip w"
  by (simp_all add: disarm_def)

lemma is_connected_cong [simp]:
  "is_connected (wobs f w) ua = is_connected w ua" "is_connected (log_sip x w) ua = is_connected w ua"
  "is_connected (disarm t w) ua = is_connected w ua"
  by (simp_all add: is_connected_def split: option.split)

lemma obs_ok_pres [simp]:
  "obs_ok (counted f b) = obs_ok b" "obs_ok (logged lev ev kw b) = obs_ok b"
  "obs_ok b \<Longrightarrow> obs_ok (traced cid dir meth summ peer rid attrs b)"
  by (simp_all add: obs_ok_def traced_def tracer_ok_record)

lemma run_metrics [run_simps]:
  "obs_do (metrics_do f) (c, w) = (Inr (), (c, wobs (counted f) w))"
  "bindp (obs_do (metrics_do f)) g (c, w) = g () (c, wobs (counted f) w)"
  by (simp_all add: obs_do_def metrics_do_def counted_def wobs_def bindp_def)

lemma obs_trace_ok: "obs_ok b \<Longrightarrow>
    obs_trace cid dir meth summ peer rid attrs b = (Inr (), traced cid dir meth summ peer rid attrs b)"
  by (simp add: obs_trace_def obs_ok_def trace_record_ok traced_def)

lemma run_trace [run_simps]:
  "obs_ok (w_obs w) \<Longrightarrow> obs_do (obs_trace cid dir meth summ peer rid attrs) (c, w) =
     (Inr (), (c, wobs (traced cid dir meth summ peer rid attrs) w))"
  "obs_ok (w_obs w) \<Longrightarrow> bindp (obs_do (obs_trace cid dir meth summ peer rid attrs)) g (c, w) =
     g () (c, wobs (traced cid dir meth summ peer rid attrs) w)"
  by (simp_all add: obs_do_def obs_trace_ok wobs_def bindp_def)

lemma obs_log_ok: "fields_clean kw \<Longrightarrow> obs_log lev ev kw b = (Inr (), logged lev ev kw b)"
  using log_event_clean [of kw "''call_controller''" lev ev "ob_log b"]
  by (cases "log_event ''call_controller'' lev ev kw (ob_log b)") (simp add: obs_log_def logged_def)

lemma run_log [run_simps]:
  "fields_clean kw \<Longrightarrow> obs_do (obs_log lev ev kw) (c, w) = (Inr (), (c, wobs (logged lev ev kw) w))"
  "fields_clean kw \<Longrightarrow> bindp (obs_do (obs_log lev ev kw)) g (c, w) = g () (c, wobs (logged lev ev kw) w)"
  by (simp_all add: obs_do_def obs_log_ok wobs_def bindp_def)

section \<open>Clean fields\<close>

definition ctl_reserved :: "string \<Rightarrow> bool" where
  "ctl_reserved k \<longleftrightarrow> reserved_attr k \<or> k \<in> {''logger'', ''level'', ''event''}"

lemma fields_clean_iff:
  "fields_clean kw \<longleftrightarrow> distinct (od_keys kw) \<and> list_all (\<lambda>k. \<not> ctl_reserved k) (od_keys kw)"
  by (auto simp: fields_clean_def log_kwargs_ok_def ctl_reserved_def list_all_iff)

lemma ctl_reserved_facts [simp]:
  "\<not> ctl_reserved ''call_id''" "\<not> ctl_reserved ''direction''" "\<not> ctl_reserved ''peer''"
  "\<not> ctl_reserved ''method''" "\<not> ctl_reserved ''leg''" "\<not> ctl_reserved ''next_hop''"
  "\<not> ctl_reserved ''error_code''" "\<not> ctl_reserved ''failed_hop''"
  "\<not> ctl_reserved ''failover_hop''" "\<not> ctl_reserved ''disposition''"
  "\<not> ctl_reserved ''sip_status''" "\<not> ctl_reserved ''error_detail''"
  by (simp_all add: ctl_reserved_def reserved_attr_def RECORD_ATTRS_def)

lemma keys_with_attempt_fields [simp]: "od_keys (with_attempt_fields flds hop num) = od_keys flds"
proof -
  have upd: "map_of f k \<noteq> None \<Longrightarrow> od_keys (AList.update k v f) = od_keys f" for f :: fields and k v
    by (rule keys_update_present) (metis map_of_eq_None_iff set_map)
  show ?thesis
    by (auto simp: with_attempt_fields_def Let_def upd [simplified])
qed

section \<open>Recording an event\<close>

definition recorded ::
    "string \<Rightarrow> string \<Rightarrow> string \<Rightarrow> string \<Rightarrow> string \<Rightarrow> string \<Rightarrow> fields \<Rightarrow> obs \<Rightarrow> obs" where
  "recorded cid dir leg meth summ peer attrs b =
     logged DEBUG summ [(''call_id'', PStr cid), (''direction'', PStr dir), (''peer'', PStr peer),
        (''method'', PStr meth), (''leg'', PStr leg)]
       (traced cid dir meth summ peer PNone (od_update [(''leg'', PStr leg)] attrs) b)"

lemma recorded_fields [simp]:
  "ob_metrics (recorded cid dir leg meth summ peer attrs b) = ob_metrics b"
  "ob_clock (recorded cid dir leg meth summ peer attrs b) = ob_clock b"
  "obs_ok b \<Longrightarrow> obs_ok (recorded cid dir leg meth summ peer attrs b)"
  by (simp_all add: recorded_def)

lemma wobs_wobs: "wobs f (wobs g w) = wobs (\<lambda>b. f (g b)) w"
  by (simp add: wobs_def)

lemma run_record [run_simps]:
  "obs_ok (w_obs w) \<Longrightarrow> record_event dir leg meth summ peer attrs (c, w) =
     (Inr (), (c, wobs (recorded (bc_call_id c) dir leg meth summ peer attrs) w))"
  "obs_ok (w_obs w) \<Longrightarrow> bindp (record_event dir leg meth summ peer attrs) g (c, w) =
     g () (c, wobs (recorded (bc_call_id c) dir leg meth summ peer attrs) w)"
proof -
  assume "obs_ok (w_obs w)"
  then show *: "record_event dir leg meth summ peer attrs (c, w) =
     (Inr (), (c, wobs (recorded (bc_call_id c) dir leg meth summ peer attrs) w))"
    by (simp add: record_event_def run_simps fields_clean_iff wobs_wobs recorded_def)
  show "bindp (record_event dir leg meth summ peer attrs) g (c, w) =
     g () (c, wobs (recorded (bc_call_id c) dir leg meth summ peer attrs) w)"
    by (simp add: bindp_def *)
qed

section \<open>The timer, the disposition and the identity\<close>

definition timer_dropped :: "controller \<Rightarrow> world \<Rightarrow> world" where
  "timer_dropped c w = (case bc_no_answer_timer c of None \<Rightarrow> w | Some t \<Rightarrow> disarm t w)"

lemma timer_dropped_fields [simp]:
  "w_obs (timer_dropped c w) = w_obs w" "w_conf (timer_dropped c w) = w_conf w"
  "w_next_id (timer_dropped c w) = w_next_id w"
  "w_connected (timer_dropped c w) = w_connected w" "w_sip (timer_dropped c w) = w_sip w"
  "is_connected (timer_dropped c w) ua = is_connected w ua"
  "w_timers (timer_dropped c w) = filter (\<lambda>x. Some (fst x) \<noteq> bc_no_answer_timer c) (w_timers w)"
  by (auto simp: timer_dropped_def is_connected_def split: option.splits intro!: filter_True [symmetric])

lemma run_cancel [run_simps]:
  "cancel_no_answer_timer (c, w) = (Inr (), (c\<lparr>bc_no_answer_timer := None\<rparr>, timer_dropped c w))"
  "bindp cancel_no_answer_timer g (c, w) = g () (c\<lparr>bc_no_answer_timer := None\<rparr>, timer_dropped c w)"
proof -
  show *: "cancel_no_answer_timer (c, w) = (Inr (), (c\<lparr>bc_no_answer_timer := None\<rparr>, timer_dropped c w))"
    by (cases "bc_no_answer_timer c")
       (simp_all add: cancel_no_answer_timer_def run_simps timer_dropped_def)
  show "bindp cancel_no_answer_timer g (c, w) = g () (c\<lparr>bc_no_answer_timer := None\<rparr>, timer_dropped c w)"
    by (simp add: bindp_def *)
qed

definition finished :: "string \<Rightarrow> call_disposition \<Rightarrow> obs \<Rightarrow> obs" where
  "finished cid d b = logged INFO ''call finished''
     [(''call_id'', PStr cid), (''direction'', PStr INTERNAL), (''disposition'', PStr (disposition_value d))]
     (counted (record_call_disposition d) b)"

lemma finished_fields [simp]:
  "ob_metrics (finished cid d b) = record_call_disposition d (ob_metrics b)"
  "ob_tracer (finished cid d b) = ob_tracer b" "ob_clock (finished cid d b) = ob_clock b"
  "obs_ok (finished cid d b) = obs_ok b"
  by (simp_all add: finished_def)

lemma run_disposition [run_simps]:
  "record_disposition ev (c, w) =
     (Inr (), (c, wobs (finished (bc_call_id c) (final_disposition c w ev)) w))"
  "bindp (record_disposition ev) g (c, w) =
     g () (c, wobs (finished (bc_call_id c) (final_disposition c w ev)) w)"
proof -
  show *: "record_disposition ev (c, w) =
     (Inr (), (c, wobs (finished (bc_call_id c) (final_disposition c w ev)) w))"
    by (simp add: record_disposition_def run_simps fields_clean_iff wobs_wobs finished_def)
  show "bindp (record_disposition ev) g (c, w) =
     g () (c, wobs (finished (bc_call_id c) (final_disposition c w ev)) w)"
    by (simp add: bindp_def *)
qed

lemma run_sip_identity [run_simps]:
  "sip_identity g (wupd f) (c, w) =
     (Inr (), (c, (f (w\<lparr>w_conf := pinned_identity g (w_conf w)\<rparr>))\<lparr>w_conf := w_conf w\<rparr>))"
  by (simp add: sip_identity_def run_simps)

lemma run_new_ua [run_simps]:
  "bindp (new_ua nh) g (c, w) = g (w_next_id w)
     (c, log_sip (UaCreated (w_next_id w) nh (opt_get (gc_sip_uaname (bc_conf c)) [])
            (local_contact (bc_conf c) (w_conf w))) (w\<lparr>w_next_id := w_next_id w + 1\<rparr>))"
  by (simp add: new_ua_def run_simps)

lemma run_arm_timer [run_simps]:
  "bindp (arm_timer d) g (c, w) = g (w_next_id w)
     (c, w\<lparr>w_timers := w_timers w @ [(w_next_id w, ob_clock (w_obs w) + d)], w_next_id := w_next_id w + 1\<rparr>)"
  by (simp add: arm_timer_def run_simps)

section \<open>Decisions an application may hand over\<close>

text \<open>
  The documented contract of \<^verbatim>\<open>decide\<close>: a relay decision names a hop and the event to
  originate (a \<^verbatim>\<open>CCEventTry\<close>), a reject decision carries its error, and the log fields do
  not collide with the ones the base passes.
\<close>

definition relay_kwargs :: "string \<Rightarrow> string \<Rightarrow> fields \<Rightarrow> fields" where
  "relay_kwargs cid peer flds =
     [(''call_id'', PStr cid), (''direction'', PStr OUTBOUND), (''peer'', PStr peer),
      (''method'', PStr ''INVITE'')] @ flds"

definition reject_kwargs :: "string \<Rightarrow> string \<Rightarrow> as_error \<Rightarrow> fields \<Rightarrow> fields" where
  "reject_kwargs cid peer err flds =
     [(''call_id'', PStr cid), (''direction'', PStr OUTBOUND), (''peer'', PStr peer),
      (''method'', PStr (int_str (as_sip_status err)))]
     @ flds @ map (\<lambda>(k, v). (k, PStr v)) (as_log_fields err)"

definition relay_ok :: "policy_decision \<Rightarrow> bool" where
  "relay_ok d \<longleftrightarrow> pd_action d = RELAY \<and> pd_next_hops d \<noteq> [] \<and>
     (case pd_outbound_event d of Some (CCEventTry _) \<Rightarrow> True | _ \<Rightarrow> False) \<and>
     fields_clean (relay_kwargs [] [] (pd_relay_log_fields d))"

definition reject_ok :: "policy_decision \<Rightarrow> bool" where
  "reject_ok d \<longleftrightarrow> pd_action d = REJECT \<and>
     (case pd_error d of None \<Rightarrow> False
      | Some err \<Rightarrow> fields_clean (reject_kwargs [] [] err (pd_reject_log_fields d)))"

lemma relay_kwargs_clean: "fields_clean (relay_kwargs cid peer (with_attempt_fields flds hop num)) =
    fields_clean (relay_kwargs [] [] flds)"
  by (simp add: fields_clean_iff relay_kwargs_def)

lemma reject_kwargs_clean: "fields_clean (reject_kwargs cid peer err flds) =
    fields_clean (reject_kwargs [] [] err flds)"
  by (simp add: fields_clean_iff reject_kwargs_def)

section \<open>Originating an attempt\<close>

definition attempt_obs :: "hooks \<Rightarrow> controller \<Rightarrow> policy_decision \<Rightarrow> next_hop \<Rightarrow> string \<Rightarrow> obs \<Rightarrow> obs" where
  "attempt_obs hk c p hop num b =
     logged INFO (pd_relay_log_message p)
       (relay_kwargs (bc_call_id c) (peer_text (hop_addr hop))
          (with_attempt_fields (pd_relay_log_fields p) hop num))
     (recorded (bc_call_id c) OUTBOUND LEG_NEXT_HOP ''INVITE'' (pd_relay_log_message p)
        (peer_text (hop_addr hop)) (with_attempt_fields (pd_attributes p) hop num)
     (counted (set_peer_status (hk_peer_status_key hk hop) REACHABLE) b))"

lemma attempt_obs_fields [simp]:
  "ob_metrics (attempt_obs hk c p hop num b) =
     set_peer_status (hk_peer_status_key hk hop) REACHABLE (ob_metrics b)"
  "ob_clock (attempt_obs hk c p hop num b) = ob_clock b"
  "obs_ok b \<Longrightarrow> obs_ok (attempt_obs hk c p hop num b)"
  by (simp_all add: attempt_obs_def)

text \<open>The leg, its timer and the INVITE of one attempt.\<close>

definition attempt_ctl :: "next_hop \<Rightarrow> world \<Rightarrow> controller \<Rightarrow> controller" where
  "attempt_ctl hop w c = c\<lparr>bc_serving_hop := Some hop, bc_next_hop := Some (hop_addr hop),
     bc_uaO := Some (w_next_id w), bc_no_answer_timer := Some (w_next_id w + 1)\<rparr>"

definition attempt_world ::
    "hooks \<Rightarrow> controller \<Rightarrow> policy_decision \<Rightarrow> next_hop \<Rightarrow> ccevent \<Rightarrow> string \<Rightarrow> world \<Rightarrow> world" where
  "attempt_world hk c p hop ev num w = w\<lparr>
     w_obs := attempt_obs hk c p hop num (w_obs w),
     w_next_id := w_next_id w + 2,
     w_timers := w_timers w @ [(w_next_id w + 1,
        ob_clock (w_obs w) + opt_get (gc_next_hop_expire (bc_conf c)) DEFAULT_NEXT_HOP_EXPIRE)],
     w_sip := w_sip w @ [
        UaCreated (w_next_id w) (Some (hop_addr hop)) (opt_get (gc_sip_uaname (bc_conf c)) [])
          (local_contact (bc_conf c) (w_conf w)),
        UaRecvEvent (w_next_id w) ev (pinned_identity (bc_conf c) (w_conf w))]\<rparr>"

lemma run_originate:
  assumes "obs_ok (w_obs w)" "bc_pending_event c = Some ev" "event_data2 ev = Inr num"
    "bc_policy c = Some p" "fields_clean (relay_kwargs [] [] (pd_relay_log_fields p))"
  shows "originate_towards hk hop (c, w) = (Inr (), (attempt_ctl hop w c, attempt_world hk c p hop ev num w))"
proof -
  have clean: "fields_clean ([(''call_id'', PStr cid), (''direction'', PStr OUTBOUND), (''peer'', PStr peer),
      (''method'', PStr ''INVITE'')] @ with_attempt_fields (pd_relay_log_fields p) hop num)" for cid peer
    using assms(5) relay_kwargs_clean [of cid peer] by (simp add: relay_kwargs_def)
  show ?thesis
    using assms(1-4) clean
    by (simp add: originate_towards_def originate_report_def relay_vocabulary_def run_simps
        pending_called_number_def ua_recv_event_def next_hop_peer_def attempt_ctl_def
        attempt_world_def attempt_obs_def relay_kwargs_def log_sip_def wobs_def)
qed

end
