(* ===== verification/CallSteps.thy ===== *)
theory CallSteps
  imports CallFacts
begin

text \<open>
  What each event does to a call: the outcome of the controller's methods under the contract
  of \<^verbatim>\<open>decide\<close>, as equations, and the properties of single events that follow from them.
\<close>

section \<open>Rejecting\<close>

definition rejected_obs :: "controller \<Rightarrow> policy_decision \<Rightarrow> as_error \<Rightarrow> obs \<Rightarrow> obs" where
  "rejected_obs c d err b =
     logged WARNING (pd_reject_log_message d)
       (reject_kwargs (bc_call_id c) (bc_trunk_peer c) err (pd_reject_log_fields d))
     (traced (bc_call_id c) OUTBOUND (int_str (as_sip_status err)) (pd_reject_trace_summary d)
        (bc_trunk_peer c) (py_or (opt_get (map_of (pd_attributes d) ''rule_id'') PNone) PNone)
        (od_update [(''leg'', PStr LEG_TRUNK), (''error_code'', PStr (ec_code (ae_code err)))]
           (pd_attributes d))
     (counted (record_call_disposition (pd_disposition d)) b))"

lemma rejected_obs_fields [simp]:
  "ob_metrics (rejected_obs c d err b) = record_call_disposition (pd_disposition d) (ob_metrics b)"
  "ob_clock (rejected_obs c d err b) = ob_clock b"
  "obs_ok b \<Longrightarrow> obs_ok (rejected_obs c d err b)"
  by (simp_all add: rejected_obs_def)

definition reject_event :: "as_error \<Rightarrow> ccevent" where
  "reject_event err = CCEventFail (Some (as_sip_status err, as_sip_phrase err, None))"

lemma run_reject:
  assumes "obs_ok (w_obs w)" "pd_error d = Some err" "bc_uaA c = Some u"
    "fields_clean (reject_kwargs [] [] err (pd_reject_log_fields d))"
  shows "reject_on_trunk d (c, w) = (Inr (), (c\<lparr>bc_no_answer_timer := None\<rparr>,
     log_sip (UaRecvEvent u (reject_event err) (w_conf w))
       (wobs (rejected_obs c d err) (timer_dropped c w))))"
proof -
  have clean: "fields_clean ([(''call_id'', PStr cid), (''direction'', PStr OUTBOUND),
        (''peer'', PStr peer), (''method'', PStr (int_str (as_sip_status err)))]
      @ pd_reject_log_fields d @ map (\<lambda>(k, v). (k, PStr v)) (as_log_fields err))" for cid peer
    using assms(4) reject_kwargs_clean [of cid peer] by (simp add: reject_kwargs_def)
  show ?thesis
    using assms(1-3) clean
    by (simp add: reject_on_trunk_def run_simps ua_recv_event_def wobs_wobs rejected_obs_def
        reject_kwargs_def reject_event_def)
qed

section \<open>The first event of a call\<close>

definition decided :: "policy_decision \<Rightarrow> controller \<Rightarrow> controller" where
  "decided d c = c\<lparr>bc_policy := Some d\<rparr>"

definition routed :: "policy_decision \<Rightarrow> controller \<Rightarrow> controller" where
  "routed d c = c\<lparr>bc_policy := Some d, bc_pending_event := pd_outbound_event d,
     bc_failover_hops := tl (pd_next_hops d)\<rparr>"

lemma run_policy:
  "hk_decide hk c ev (w_obs w) = (Inr d, b) \<Longrightarrow>
   bindp (apply_call_policy hk ev) g (c, w) = g d (decided d c, w\<lparr>w_obs := b\<rparr>)"
  by (simp add: apply_call_policy_def run_simps obs_do_def bindp_def decided_def)

lemma run_policy_raises:
  "hk_decide hk c ev (w_obs w) = (Inl e, b) \<Longrightarrow>
   bindp (apply_call_policy hk ev) g (c, w) = (Inl e, (c, w\<lparr>w_obs := b\<rparr>))"
  by (simp add: apply_call_policy_def run_simps obs_do_def bindp_def)

lemma relay_okE:
  assumes "relay_ok d"
  obtains hop rest td where "pd_action d = RELAY" "pd_next_hops d = hop # rest"
    "pd_outbound_event d = Some (CCEventTry td)"
    "fields_clean (relay_kwargs [] [] (pd_relay_log_fields d))"
proof -
  obtain hop rest where "pd_next_hops d = hop # rest"
    using assms by (cases "pd_next_hops d") (auto simp: relay_ok_def)
  moreover obtain td where "pd_outbound_event d = Some (CCEventTry td)"
    using assms by (auto simp: relay_ok_def split: option.splits ccevent.splits)
  ultimately show ?thesis using assms that by (auto simp: relay_ok_def)
qed

lemma reject_okE:
  assumes "reject_ok d"
  obtains err where "pd_action d = REJECT" "pd_error d = Some err"
    "fields_clean (reject_kwargs [] [] err (pd_reject_log_fields d))"
  using assms that by (auto simp: reject_ok_def split: option.splits)

lemma run_outbound_relay:
  assumes "hk_decide hk c ev (w_obs w) = (Inr d, b)" "obs_ok b" "pd_action d = RELAY"
    "pd_next_hops d = hop # rest" "pd_outbound_event d = Some (CCEventTry td)"
    "fields_clean (relay_kwargs [] [] (pd_relay_log_fields d))"
  shows "originate_outbound_leg hk ev (c, w) =
    (Inr (), (attempt_ctl hop w (routed d c),
       attempt_world hk (routed d c) d hop (CCEventTry td) (td_called td) (w\<lparr>w_obs := b\<rparr>)))"
proof -
  have ctl: "c\<lparr>bc_policy := Some d, bc_pending_event := Some (CCEventTry td), bc_failover_hops := rest\<rparr>
      = routed d c" by (simp add: routed_def assms)
  have "originate_towards hk hop (routed d c, w\<lparr>w_obs := b\<rparr>) =
    (Inr (), (attempt_ctl hop (w\<lparr>w_obs := b\<rparr>) (routed d c),
       attempt_world hk (routed d c) d hop (CCEventTry td) (td_called td) (w\<lparr>w_obs := b\<rparr>)))"
    by (rule run_originate) (use assms in \<open>simp_all add: routed_def\<close>)
  then show ?thesis
    using assms(3-5)
    by (simp add: originate_outbound_leg_def run_policy [OF assms(1)] run_simps decided_def ctl)
       (simp add: attempt_ctl_def)
qed

lemma run_outbound_reject:
  assumes "hk_decide hk c ev (w_obs w) = (Inr d, b)" "obs_ok b" "pd_action d = REJECT"
    "pd_error d = Some err" "fields_clean (reject_kwargs [] [] err (pd_reject_log_fields d))"
    "bc_uaA c = Some u"
  shows "originate_outbound_leg hk ev (c, w) =
    (Inr (), ((decided d c)\<lparr>bc_no_answer_timer := None\<rparr>,
       log_sip (UaRecvEvent u (reject_event err) (w_conf w))
         (wobs (rejected_obs c d err) (timer_dropped c (w\<lparr>w_obs := b\<rparr>)))))"
proof -
  have "reject_on_trunk d (decided d c, w\<lparr>w_obs := b\<rparr>) =
    (Inr (), ((decided d c)\<lparr>bc_no_answer_timer := None\<rparr>,
       log_sip (UaRecvEvent u (reject_event err) (w_conf (w\<lparr>w_obs := b\<rparr>)))
         (wobs (rejected_obs (decided d c) d err) (timer_dropped (decided d c) (w\<lparr>w_obs := b\<rparr>)))))"
    by (rule run_reject) (use assms in \<open>simp_all add: decided_def\<close>)
  then show ?thesis
    using assms(3)
    by (simp add: originate_outbound_leg_def run_policy [OF assms(1)])
       (simp add: decided_def timer_dropped_def rejected_obs_def)
qed

section \<open>Failover\<close>

definition failover_obs :: "hooks \<Rightarrow> controller \<Rightarrow> next_hop \<Rightarrow> obs \<Rightarrow> obs" where
  "failover_obs hk c hop b =
     logged WARNING ''next hop failed; trying failover hop''
       [(''call_id'', PStr (bc_call_id c)), (''direction'', PStr INTERNAL),
        (''failed_hop'', PStr (serving_name c)), (''failover_hop'', PStr (nh_name hop)),
        (''error_code'', PStr (ec_code (skeleton_row PEER_UNREACHABLE)))]
       (counted (set_peer_status
          (case bc_serving_hop c of None \<Rightarrow> UNKNOWN_HOP_KEY | Some h \<Rightarrow> hk_peer_status_key hk h)
          UNREACHABLE) b)"

lemma failover_obs_fields [simp]:
  "ob_metrics (failover_obs hk c hop b) = set_peer_status
     (case bc_serving_hop c of None \<Rightarrow> UNKNOWN_HOP_KEY | Some h \<Rightarrow> hk_peer_status_key hk h)
     UNREACHABLE (ob_metrics b)"
  "ob_tracer (failover_obs hk c hop b) = ob_tracer b" "ob_clock (failover_obs hk c hop b) = ob_clock b"
  "obs_ok (failover_obs hk c hop b) = obs_ok b"
  by (simp_all add: failover_obs_def)

definition switching :: "next_hop list \<Rightarrow> controller \<Rightarrow> controller" where
  "switching rest c = c\<lparr>bc_failover_hops := rest, bc_uaO := None\<rparr>"

text \<open>A controller that can originate: its decision and its event are those of a relayed call.\<close>

definition can_originate :: "controller \<Rightarrow> bool" where
  "can_originate c \<longleftrightarrow> (\<exists>p td. bc_policy c = Some p \<and> bc_pending_event c = Some (CCEventTry td) \<and>
     fields_clean (relay_kwargs [] [] (pd_relay_log_fields p)))"

lemma run_failover:
  assumes "obs_ok (w_obs w)" "bc_failover_hops c = hop # rest" "bc_policy c = Some p"
    "bc_pending_event c = Some (CCEventTry td)" "fields_clean (relay_kwargs [] [] (pd_relay_log_fields p))"
  shows "try_failover hk (c, w) = (Inr True, (attempt_ctl hop w (switching rest c),
    attempt_world hk (switching rest c) p hop (CCEventTry td) (td_called td)
      (wobs (failover_obs hk c hop) w)))"
proof -
  let ?w = "wobs (failover_obs hk c hop) w"
  have o: "originate_towards hk hop (switching rest c, ?w) = (Inr (), (attempt_ctl hop ?w (switching rest c),
      attempt_world hk (switching rest c) p hop (CCEventTry td) (td_called td) ?w))"
    by (rule run_originate) (use assms in \<open>simp_all add: switching_def\<close>)
  have "try_failover hk (c, w) =
      bindp (originate_towards hk hop) (\<lambda>_. ret True) (switching rest c, ?w)"
    using assms(2)
    by (simp add: try_failover_def run_simps fields_clean_iff wobs_wobs failover_obs_def [abs_def] switching_def)
  also have "\<dots> = (Inr True, (attempt_ctl hop ?w (switching rest c),
      attempt_world hk (switching rest c) p hop (CCEventTry td) (td_called td) ?w))"
    by (simp add: bindp_def o)
  finally show ?thesis by (simp add: attempt_ctl_def)
qed

lemma run_failover_record:
  "obs_ok (w_obs w) \<Longrightarrow> failover_record ev (c, w) =
     (Inr (), (c\<lparr>bc_no_answer_timer := None\<rparr>,
       wobs (recorded (bc_call_id c) INBOUND LEG_NEXT_HOP (fst (describe_event ev))
          (snd (describe_event ev) @ '' on the next-hop leg; trying failover'') (next_hop_peer c)
          [(''failed_hop'', PStr (serving_name c))]) (timer_dropped c w)))"
  by (simp add: failover_record_def run_simps) (simp add: next_hop_peer_def serving_name_def)

section \<open>Relaying to the trunk\<close>

definition relayed_in :: "controller \<Rightarrow> ccevent \<Rightarrow> obs \<Rightarrow> obs" where
  "relayed_in c ev = recorded (bc_call_id c) INBOUND LEG_NEXT_HOP (fst (describe_event ev))
     (snd (describe_event ev) @ '' on the next-hop leg'') (next_hop_peer c) []"

definition relayed_out :: "controller \<Rightarrow> ccevent \<Rightarrow> obs \<Rightarrow> obs" where
  "relayed_out c ev = recorded (bc_call_id c) OUTBOUND LEG_TRUNK (fst (describe_event ev))
     (snd (describe_event ev) @ '' relayed to the trunk leg'') (bc_trunk_peer c) []"

lemma relayed_fields [simp]:
  "ob_metrics (relayed_in c ev b) = ob_metrics b" "ob_metrics (relayed_out c ev b) = ob_metrics b"
  "ob_clock (relayed_in c ev b) = ob_clock b" "ob_clock (relayed_out c ev b) = ob_clock b"
  "obs_ok b \<Longrightarrow> obs_ok (relayed_in c ev b)" "obs_ok b \<Longrightarrow> obs_ok (relayed_out c ev b)"
  by (simp_all add: relayed_in_def relayed_out_def)

lemma final_not_progress: "is_fail_or_disconnect ev \<Longrightarrow> \<not> is_ring_or_connect ev"
  by (elim is_fail_or_disconnectE) simp_all

lemma progress_method_not_ack: "is_ring_or_connect ev \<Longrightarrow> fst (describe_event ev) \<noteq> ''ACK''"
proof -
  have "int_str i \<noteq> ''ACK''" for i
  proof
    assume "int_str i = ''ACK''"
    moreover have "hd (int_str i) = CHR ''-'' \<or> is_digit (hd (int_str i))"
      using nat_str_digits [of "hd (nat_str (nat i))" "nat i"] by (simp add: int_str_def)
    ultimately show False by (simp add: is_digit_def)
  qed
  then show "is_ring_or_connect ev \<Longrightarrow> fst (describe_event ev) \<noteq> ''ACK''"
    by (cases ev rule: describe_event.cases) simp_all
qed

lemma run_relay_final:
  assumes "obs_ok (w_obs w)" "is_fail_or_disconnect ev" "bc_uaA c = Some u"
  shows "relay_to_trunk ev (c, w) = (Inr (), (c\<lparr>bc_no_answer_timer := None\<rparr>,
    log_sip (UaRecvEvent u ev (w_conf w))
      (wobs (\<lambda>b. finished (bc_call_id c) (final_disposition c w ev) (relayed_in c ev b))
        (timer_dropped c w))))"
proof -
  have disp: "final_disposition (c\<lparr>bc_no_answer_timer := None\<rparr>) (timer_dropped c (wobs f w)) ev =
      final_disposition c w ev" for f
    by (cases ev) (simp_all add: final_disposition_def)
  have comm: "timer_dropped c (wobs f w) = wobs f (timer_dropped c w)" for f
    by (cases "bc_no_answer_timer c") (simp_all add: timer_dropped_def disarm_def wobs_def)
  show ?thesis
    using assms final_not_progress [OF assms(2)]
    by (simp add: relay_to_trunk_def run_simps disp ua_recv_event_def)
       (simp add: comm wobs_wobs relayed_in_def)
qed

lemma run_relay_progress:
  assumes "obs_ok (w_obs w)" "is_ring_or_connect ev" "bc_uaA c = Some u"
  shows "relay_to_trunk ev (c, w) = (Inr (), (c,
    wobs (relayed_out c ev) (log_sip (UaRecvEvent u ev (w_conf w)) (wobs (relayed_in c ev) w))))"
proof -
  have "\<not> is_fail_or_disconnect ev" using assms(2) final_not_progress by blast
  then show ?thesis
    using assms progress_method_not_ack [OF assms(2)]
    by (simp add: relay_to_trunk_def run_simps ua_recv_event_def relayed_in_def relayed_out_def)
qed

lemma run_relay_other:
  assumes "obs_ok (w_obs w)" "\<not> is_ring_or_connect ev" "\<not> is_fail_or_disconnect ev" "bc_uaA c = Some u"
  shows "relay_to_trunk ev (c, w) = (Inr (), (c,
    log_sip (UaRecvEvent u ev (w_conf w)) (wobs (relayed_in c ev) w)))"
  using assms by (simp add: relay_to_trunk_def run_simps ua_recv_event_def relayed_in_def)

end
