(* ===== verification/CallEvents.thy ===== *)
theory CallEvents
  imports CallSteps
begin

text \<open>
  The outcome of \<^verbatim>\<open>recv_event\<close> for each kind of event and each state of the legs, and the
  properties of a single event.
\<close>

section \<open>Outcomes\<close>

lemma event_stale: "Some u \<noteq> bc_uaA c \<Longrightarrow> Some u \<noteq> bc_uaO c \<Longrightarrow> recv_event hk ev u (c, w) = (Inr (), (c, w))"
  by (simp add: recv_event_def)

lemma event_try: "bc_uaA c = Some u \<Longrightarrow> bc_uaO c = None \<Longrightarrow> is_try ev \<Longrightarrow>
    recv_event hk ev u (c, w) = originate_outbound_leg hk ev (c, w)"
  by (simp add: recv_event_def relay_from_trunk_def)

lemma event_trunk_early: "bc_uaA c = Some u \<Longrightarrow> bc_uaO c = None \<Longrightarrow> \<not> is_try ev \<Longrightarrow>
    recv_event hk ev u (c, w) = (Inr (), (c, log_sip (UaRecvEvent u CCEventDisconnect (w_conf w)) w))"
  by (simp add: recv_event_def relay_from_trunk_def ua_recv_event_def)

lemma event_trunk:
  "bc_uaA c = Some u \<Longrightarrow> bc_uaO c = Some v \<Longrightarrow> obs_ok (w_obs w) \<Longrightarrow>
    recv_event hk ev u (c, w) = (Inr (), (c, log_sip (UaRecvEvent v ev (w_conf w))
      (wobs (recorded (bc_call_id c) INBOUND LEG_TRUNK (fst (describe_event ev))
         (snd (describe_event ev) @ '' on the trunk leg'') (bc_trunk_peer c) []) w)))"
  by (simp add: recv_event_def relay_from_trunk_def run_simps ua_recv_event_def)

lemma event_next_hop:
  "bc_uaA c \<noteq> Some u \<Longrightarrow> bc_uaO c = Some u \<Longrightarrow> recv_event hk ev u (c, w) = relay_from_next_hop hk ev (c, w)"
  by (simp add: recv_event_def)

definition switched_obs :: "controller \<Rightarrow> ccevent \<Rightarrow> obs \<Rightarrow> obs" where
  "switched_obs c ev = recorded (bc_call_id c) INBOUND LEG_NEXT_HOP (fst (describe_event ev))
     (snd (describe_event ev) @ '' on the next-hop leg; trying failover'') (next_hop_peer c)
     [(''failed_hop'', PStr (serving_name c))]"

lemma switched_obs_fields [simp]:
  "ob_metrics (switched_obs c ev b) = ob_metrics b" "ob_clock (switched_obs c ev b) = ob_clock b"
  "obs_ok b \<Longrightarrow> obs_ok (switched_obs c ev b)"
  by (simp_all add: switched_obs_def)

lemma next_hop_failover:
  assumes "obs_ok (w_obs w)" "is_fail_or_disconnect ev" "\<not> is_connected w (bc_uaA c)"
    "bc_failover_hops c = hop # rest" "bc_policy c = Some p"
    "bc_pending_event c = Some (CCEventTry td)" "fields_clean (relay_kwargs [] [] (pd_relay_log_fields p))"
  shows "relay_from_next_hop hk ev (c, w) = (Inr (),
    ((attempt_ctl hop w (switching rest c))\<lparr>bc_no_answer_timer := None\<rparr>,
     wobs (switched_obs (attempt_ctl hop w (switching rest c)) ev)
       (disarm (w_next_id w + 1)
         (attempt_world hk (switching rest c) p hop (CCEventTry td) (td_called td)
            (wobs (failover_obs hk c hop) w)))))"
proof -
  have "\<not> is_ring_or_connect ev" using assms(2) final_not_progress by blast
  then have "relay_from_next_hop hk ev (c, w) =
      bindp (try_failover hk) (\<lambda>switched. if switched then failover_record ev else relay_to_trunk ev) (c, w)"
    using assms(2,3) by (simp add: relay_from_next_hop_def run_simps)
  also have "\<dots> = failover_record ev (attempt_ctl hop w (switching rest c),
      attempt_world hk (switching rest c) p hop (CCEventTry td) (td_called td)
        (wobs (failover_obs hk c hop) w))"
    using run_failover [OF assms(1,4-7), of hk] by (simp add: bindp_def)
  finally show ?thesis
    using assms(1)
    by (simp add: run_failover_record attempt_world_def switched_obs_def)
       (simp add: timer_dropped_def attempt_ctl_def)
qed

lemma next_hop_no_failover:
  assumes "obs_ok (w_obs w)" "is_fail_or_disconnect ev" "is_connected w (bc_uaA c) \<or> bc_failover_hops c = []"
  shows "relay_from_next_hop hk ev (c, w) = relay_to_trunk ev (c, w)"
proof -
  have "\<not> is_ring_or_connect ev" using assms(2) final_not_progress by blast
  then show ?thesis
    using assms(2,3) by (auto simp: relay_from_next_hop_def run_simps try_failover_def)
qed

lemma next_hop_progress:
  "is_ring_or_connect ev \<Longrightarrow> relay_from_next_hop hk ev (c, w) =
     relay_to_trunk ev (c\<lparr>bc_no_answer_timer := None\<rparr>, timer_dropped c w)"
  using final_not_progress by (auto simp: relay_from_next_hop_def run_simps)

lemma next_hop_other:
  "\<not> is_ring_or_connect ev \<Longrightarrow> \<not> is_fail_or_disconnect ev \<Longrightarrow>
   relay_from_next_hop hk ev (c, w) = relay_to_trunk ev (c, w)"
  by (simp add: relay_from_next_hop_def run_simps)

section \<open>What is traced\<close>

definition trace_of :: "string \<Rightarrow> obs \<Rightarrow> trace_event list" where
  "trace_of cid b = ct_events (trace_for cid (ob_tracer b))"

definition tracing :: "obs \<Rightarrow> bool" where
  "tracing b \<longleftrightarrow> obs_ok b \<and> 0 < tr_max_calls (ob_tracer b)"

lemma tracing_ok: "tracing b \<Longrightarrow> obs_ok b"
  by (simp add: tracing_def)

lemma tracing_pres [simp]:
  "tracing (counted f b) = tracing b" "tracing (logged lev ev kw b) = tracing b"
  "tracing b \<Longrightarrow> tracing (traced cid dir meth summ peer rid attrs b)"
  "tracing b \<Longrightarrow> tracing (recorded cid dir leg meth summ peer attrs b)"
  "tracing (finished cid d b) = tracing b"
  "tracing (failover_obs hk c hop b) = tracing b"
proof -
  show tr: "tracing b \<Longrightarrow> tracing (traced cid dir meth summ peer rid attrs b)" for b
    by (simp add: tracing_def) (simp add: traced_def)
  show lg: "tracing (logged lev ev kw b) = tracing b" for lev ev kw b
    by (simp add: tracing_def obs_ok_def)
  show "tracing (counted f b) = tracing b" by (simp add: tracing_def obs_ok_def)
  show "tracing b \<Longrightarrow> tracing (recorded cid dir leg meth summ peer attrs b)"
    unfolding recorded_def lg by (simp add: tracing_def) (simp add: traced_def)
  show "tracing (finished cid d b) = tracing b" by (simp add: tracing_def)
  show "tracing (failover_obs hk c hop b) = tracing b" by (simp add: tracing_def)
qed

lemma trace_of_simps [simp]:
  "trace_of cid (counted f b) = trace_of cid b" "trace_of cid (logged lev ev kw b) = trace_of cid b"
  "trace_of cid (finished cid' d b) = trace_of cid b"
  "trace_of cid (failover_obs hk c hop b) = trace_of cid b"
  by (simp_all add: trace_of_def)

lemma trace_of_traced: "tracing b \<Longrightarrow>
    trace_of cid (traced cid dir meth summ peer rid attrs b) =
    trace_of cid b @ [the_event (ob_clock b) cid dir meth summ peer rid attrs]"
  by (simp add: trace_of_def traced_def tracing_def obs_ok_def trace_for_record)

lemma trace_of_recorded: "tracing b \<Longrightarrow>
    trace_of cid (recorded cid dir leg meth summ peer attrs b) =
    trace_of cid b @ [the_event (ob_clock b) cid dir meth summ peer PNone
      (od_update [(''leg'', PStr leg)] attrs)]"
  by (simp add: recorded_def trace_of_traced)

section \<open>A sample call\<close>

text \<open>A trunk INVITE terminated on leg 1, with an application that relays to two hops or rejects.\<close>

definition sample_try :: try_data where
  "sample_try = \<lparr>td_call_id = ''c1'', td_calling = ''100'', td_called = ''200'', td_body = None\<rparr>"

definition sample_hop :: "string \<Rightarrow> next_hop" where
  "sample_hop nm = \<lparr>nh_name = nm, nh_address = nm @ ''.net'', nh_port = 5060, nh_transport = Udp,
     nh_priority = 1, nh_description = []\<rparr>"

definition sample_relay :: policy_decision where
  "sample_relay = (mk_policy_decision RELAY)\<lparr>pd_outbound_event := Some (CCEventTry sample_try),
     pd_next_hops := [sample_hop ''a'', sample_hop ''b''],
     pd_attributes := [(''next_hop'', PStr [])], pd_relay_log_message := ''relayed'',
     pd_relay_log_fields := [(''called_number'', PStr []), (''next_hop'', PStr [])]\<rparr>"

definition sample_reject :: policy_decision where
  "sample_reject = (mk_policy_decision REJECT)\<lparr>pd_error := Some (mk_as_error (skeleton_row PEER_UNREACHABLE)
     None None None), pd_disposition := NO_MATCH, pd_attributes := [(''rule_id'', PStr ''r1'')]\<rparr>"

definition sample_hooks :: "policy_decision \<Rightarrow> hooks" where
  "sample_hooks d = base_hooks\<lparr>hk_decide := (\<lambda>c ev. ret d)\<rparr>"

definition sample_conf :: gconf where
  "sample_conf = \<lparr>gc_sip_address = Some ''10.0.0.1'', gc_sip_port = Some 5060, gc_sip_uaname = Some ''as'',
     gc_next_hop_expire = None, gc_nh_addr = None\<rparr>"

definition sample_obs :: obs where
  "sample_obs = \<lparr>ob_metrics = empty_registry, ob_tracer = mk_trace_recorder 200,
     ob_log = \<lparr>ls_threshold = INFO, ls_lines = []\<rparr>, ob_clock = 0\<rparr>"

definition sample_world :: world where
  "sample_world = \<lparr>w_obs = sample_obs, w_conf = \<lparr>sc_address = ''any'', sc_port = 5070, sc_uaname = ''ua''\<rparr>,
     w_next_id = 2, w_timers = [], w_connected = [], w_sip = []\<rparr>"

definition sample_call :: controller where
  "sample_call = (mk_controller sample_conf None)\<lparr>bc_call_id := ''c1'', bc_uaA := Some 1\<rparr>"

text \<open>The same call waiting for its first hop on leg 2, with timer 3.\<close>

definition sample_waiting :: controller where
  "sample_waiting = sample_call\<lparr>bc_uaO := Some 2, bc_policy := Some sample_relay,
     bc_pending_event := Some (CCEventTry sample_try), bc_failover_hops := [sample_hop ''b''],
     bc_serving_hop := Some (sample_hop ''a''), bc_next_hop := Some (''a.net'', 5060),
     bc_no_answer_timer := Some 3\<rparr>"

definition sample_waiting_world :: world where
  "sample_waiting_world = sample_world\<lparr>w_next_id := 4, w_timers := [(3, 3000)]\<rparr>"

lemma sample_tracing [simp]:
  "tracing sample_obs" "tracing (w_obs sample_world)" "tracing (w_obs sample_waiting_world)"
  "obs_ok (w_obs sample_world)" "obs_ok (w_obs sample_waiting_world)"
  by (simp_all add: tracing_def obs_ok_def tracer_ok_def sample_obs_def sample_world_def
      sample_waiting_world_def mk_trace_recorder_def)

lemma sample_relay_ok: "relay_ok sample_relay"
  by (simp add: relay_ok_def sample_relay_def mk_policy_decision_def fields_clean_iff relay_kwargs_def
      ctl_reserved_def reserved_attr_def RECORD_ATTRS_def)

lemma sample_reject_ok: "reject_ok sample_reject"
  by (simp add: reject_ok_def sample_reject_def mk_policy_decision_def fields_clean_iff reject_kwargs_def
      ctl_reserved_def reserved_attr_def RECORD_ATTRS_def as_log_fields_def mk_as_error_def)

lemma sample_decides: "hk_decide (sample_hooks d) c ev b = (Inr d, b)"
  by (simp add: sample_hooks_def)


section \<open>Relaying a call\<close>

text \<open>
  C9: A relayed call. When the answering leg raises its \<^verbatim>\<open>CCEventTry\<close> and the application
  decides to relay, exactly one leg is created, towards the first hop of the decision, with
  the AS's own contact; the decided event is sent on it while \<^verbatim>\<open>SipConf\<close> carries the AS's
  identity, which is put back; the other hops stay for failover in their order; a no-answer
  timer is armed for the configured time; the hop is marked reachable and the attempt is
  traced under the Call-ID with the application's vocabulary. Nothing is sent on the trunk.
\<close>
theorem relay_originates_first_hop:
  assumes "bc_uaA c = Some u" "bc_uaO c = None" "is_try ev"
    and "hk_decide hk c ev (w_obs w) = (Inr d, b)" "tracing b" "relay_ok d"
    and "pd_next_hops d = hop # rest" "pd_outbound_event d = Some (CCEventTry td)"
  shows "\<exists>c' w'. recv_event hk ev u (c, w) = (Inr (), (c', w'))
    \<and> w_sip w' = w_sip w @
        [UaCreated (w_next_id w) (Some (nh_address hop, nh_port hop))
           (opt_get (gc_sip_uaname (bc_conf c)) []) (local_contact (bc_conf c) (w_conf w)),
         UaRecvEvent (w_next_id w) (CCEventTry td) (pinned_identity (bc_conf c) (w_conf w))]
    \<and> w_conf w' = w_conf w
    \<and> bc_uaA c' = Some u \<and> bc_uaO c' = Some (w_next_id w)
    \<and> bc_serving_hop c' = Some hop \<and> bc_failover_hops c' = rest
    \<and> bc_no_answer_timer c' = Some (w_next_id w + 1)
    \<and> w_timers w' = w_timers w @ [(w_next_id w + 1,
        ob_clock b + opt_get (gc_next_hop_expire (bc_conf c)) DEFAULT_NEXT_HOP_EXPIRE)]
    \<and> ob_metrics (w_obs w') = set_peer_status (hk_peer_status_key hk hop) REACHABLE (ob_metrics b)
    \<and> trace_of (bc_call_id c) (w_obs w') = trace_of (bc_call_id c) b @
        [the_event (ob_clock b) (bc_call_id c) OUTBOUND ''INVITE'' (pd_relay_log_message d)
           (peer_text (nh_address hop, nh_port hop)) PNone
           (od_update [(''leg'', PStr LEG_NEXT_HOP)]
              (with_attempt_fields (pd_attributes d) hop (td_called td)))]"
proof -
  let ?c = "attempt_ctl hop w (routed d c)"
  let ?w = "attempt_world hk (routed d c) d hop (CCEventTry td) (td_called td) (w\<lparr>w_obs := b\<rparr>)"
  from assms(6) have r: "pd_action d = RELAY" "fields_clean (relay_kwargs [] [] (pd_relay_log_fields d))"
    by (auto elim: relay_okE)
  have "recv_event hk ev u (c, w) = (Inr (), (?c, ?w))"
    unfolding event_try [OF assms(1-3)]
    by (rule run_outbound_relay [OF assms(4) tracing_ok [OF assms(5)] r(1) assms(7,8) r(2)])
  moreover have "trace_of (bc_call_id c) (w_obs ?w) = trace_of (bc_call_id c) b @
        [the_event (ob_clock b) (bc_call_id c) OUTBOUND ''INVITE'' (pd_relay_log_message d)
           (peer_text (nh_address hop, nh_port hop)) PNone
           (od_update [(''leg'', PStr LEG_NEXT_HOP)]
              (with_attempt_fields (pd_attributes d) hop (td_called td)))]"
    using assms(5) by (simp add: attempt_world_def attempt_obs_def trace_of_recorded routed_def hop_addr_def)
  ultimately show ?thesis
    using assms(1,7) by (simp add: attempt_world_def attempt_ctl_def routed_def hop_addr_def)
qed

theorem relay_originates_first_hop_witness:
  "\<exists>c' w'. recv_event (sample_hooks sample_relay) (CCEventTry sample_try) 1 (sample_call, sample_world) =
       (Inr (), (c', w')) \<and> bc_uaO c' = Some 2 \<and> bc_failover_hops c' = [sample_hop ''b''] \<and>
     length (w_sip w') = 2 \<and> w_timers w' = [(3, 3000)]"
proof -
  have c: "bc_uaA sample_call = Some 1" "bc_uaO sample_call = None" "is_try (CCEventTry sample_try)"
    "bc_conf sample_call = sample_conf"
    by (simp_all add: sample_call_def mk_controller_def)
  have d: "pd_next_hops sample_relay = [sample_hop ''a'', sample_hop ''b'']"
    "pd_outbound_event sample_relay = Some (CCEventTry sample_try)"
    by (simp_all add: sample_relay_def)
  have w: "w_next_id sample_world = 2" "w_sip sample_world = []" "w_timers sample_world = []"
    "ob_clock (w_obs sample_world) = 0" "gc_next_hop_expire sample_conf = None"
    by (simp_all add: sample_world_def sample_obs_def sample_conf_def)
  obtain c' w' where "recv_event (sample_hooks sample_relay) (CCEventTry sample_try) 1 (sample_call, sample_world) =
       (Inr (), (c', w'))" "bc_uaO c' = Some 2" "bc_failover_hops c' = [sample_hop ''b'']"
       "length (w_sip w') = 2" "w_timers w' = [(3, 3000)]"
    using relay_originates_first_hop [OF c(1-3) sample_decides sample_tracing(2) sample_relay_ok d]
    by (auto simp: w c(4) DEFAULT_NEXT_HOP_EXPIRE_def)
  then show ?thesis by blast
qed

text \<open>
  C8: A rejected call has one leg. When the application decides to reject, the only thing
  asked of sippy is the failure answer on the trunk leg, with the SIP status and the reason
  phrase of the decision's error; no leg is created and no timer is left; the supplied
  disposition is counted once and no error code is counted; the answer is traced with the
  leg, the error code and the application's attributes, under the rule the attributes name.
\<close>
theorem reject_is_one_leg:
  assumes "bc_uaA c = Some u" "bc_uaO c = None" "is_try ev"
    and "hk_decide hk c ev (w_obs w) = (Inr d, b)" "tracing b" "reject_ok d" "pd_error d = Some err"
  shows "\<exists>c' w'. recv_event hk ev u (c, w) = (Inr (), (c', w'))
    \<and> w_sip w' = w_sip w @
        [UaRecvEvent u (CCEventFail (Some (as_sip_status err, as_sip_phrase err, None))) (w_conf w)]
    \<and> w_next_id w' = w_next_id w \<and> w_conf w' = w_conf w
    \<and> bc_uaO c' = None \<and> bc_uaA c' = Some u \<and> bc_no_answer_timer c' = None
    \<and> set (w_timers w') \<subseteq> set (w_timers w)
    \<and> ob_metrics (w_obs w') = record_call_disposition (pd_disposition d) (ob_metrics b)
    \<and> trace_of (bc_call_id c) (w_obs w') = trace_of (bc_call_id c) b @
        [the_event (ob_clock b) (bc_call_id c) OUTBOUND (int_str (as_sip_status err))
           (pd_reject_trace_summary d) (bc_trunk_peer c)
           (py_or (opt_get (map_of (pd_attributes d) ''rule_id'') PNone) PNone)
           (od_update [(''leg'', PStr LEG_TRUNK), (''error_code'', PStr (ec_code (ae_code err)))]
              (pd_attributes d))]"
proof -
  from assms(6,7) have r: "pd_action d = REJECT"
    "fields_clean (reject_kwargs [] [] err (pd_reject_log_fields d))"
    by (auto elim: reject_okE)
  have "recv_event hk ev u (c, w) = (Inr (), ((decided d c)\<lparr>bc_no_answer_timer := None\<rparr>,
       log_sip (UaRecvEvent u (reject_event err) (w_conf w))
         (wobs (rejected_obs c d err) (timer_dropped c (w\<lparr>w_obs := b\<rparr>)))))"
    unfolding event_try [OF assms(1-3)]
    by (rule run_outbound_reject [OF assms(4) tracing_ok [OF assms(5)] r(1) assms(7) r(2) assms(1)])
  then show ?thesis
    using assms(1,2,5)
    by (auto simp: decided_def reject_event_def rejected_obs_def trace_of_traced)
qed

theorem reject_is_one_leg_witness:
  "\<exists>c' w'. recv_event (sample_hooks sample_reject) (CCEventTry sample_try) 1 (sample_call, sample_world) =
       (Inr (), (c', w')) \<and> bc_uaO c' = None \<and>
     w_sip w' = [UaRecvEvent 1 (CCEventFail (Some (503, ''Service Unavailable'', None))) (w_conf sample_world)]"
proof -
  have err: "pd_error sample_reject = Some (mk_as_error (skeleton_row PEER_UNREACHABLE) None None None)"
    by (simp add: sample_reject_def)
  have u: "bc_uaA sample_call = Some 1" "bc_uaO sample_call = None"
    by (simp_all add: sample_call_def mk_controller_def)
  have sip: "w_sip sample_world = []" by (simp add: sample_world_def)
  show ?thesis
    using reject_is_one_leg [OF u is_try.simps(1) [THEN eqTrueE] sample_decides sample_tracing(2) sample_reject_ok err, of sample_try]
    by (auto simp: sip as_sip_status_def as_sip_phrase_def mk_as_error_def SIP_PHRASES_def)
qed

section \<open>Failover\<close>

text \<open>
  C10: A failed hop is replaced. When the serving leg fails or is torn down before the trunk
  leg has connected and a hop is left, the caller is not told: the only calls into sippy
  create a leg towards the next hop and send the same event on it, under the AS's
  identity. The failed hop is marked unreachable and the new one reachable, no disposition
  is counted, the remaining hops keep their order, and from now on events of the replaced
  leg are ignored.
\<close>
theorem failover_switches_hop:
  assumes "bc_uaA c = Some a" "bc_uaO c = Some u" "u \<noteq> a" "u < w_next_id w"
    and "is_fail_or_disconnect ev" "\<not> is_connected w (Some a)"
    and "bc_failover_hops c = hop # rest" "bc_serving_hop c = Some failed"
    and "bc_policy c = Some p" "bc_pending_event c = Some (CCEventTry td)" "relay_ok p"
    and "obs_ok (w_obs w)" "a < w_next_id w"
  shows "\<exists>c' w'. recv_event hk ev u (c, w) = (Inr (), (c', w'))
    \<and> w_sip w' = w_sip w @
        [UaCreated (w_next_id w) (Some (nh_address hop, nh_port hop))
           (opt_get (gc_sip_uaname (bc_conf c)) []) (local_contact (bc_conf c) (w_conf w)),
         UaRecvEvent (w_next_id w) (CCEventTry td) (pinned_identity (bc_conf c) (w_conf w))]
    \<and> w_conf w' = w_conf w
    \<and> bc_uaO c' = Some (w_next_id w) \<and> bc_uaA c' = Some a
    \<and> bc_serving_hop c' = Some hop \<and> bc_failover_hops c' = rest
    \<and> ob_metrics (w_obs w') =
        set_peer_status (hk_peer_status_key hk hop) REACHABLE
          (set_peer_status (hk_peer_status_key hk failed) UNREACHABLE (ob_metrics (w_obs w)))
    \<and> (\<forall>late. recv_event hk late u (c', w') = (Inr (), (c', w')))"
proof -
  let ?c = "(attempt_ctl hop w (switching rest c))\<lparr>bc_no_answer_timer := None\<rparr>"
  have clean: "fields_clean (relay_kwargs [] [] (pd_relay_log_fields p))"
    using assms(11) by (auto elim: relay_okE)
  have ne: "bc_uaA c \<noteq> Some u" using assms(1,3) by simp
  have late: "recv_event hk late u (?c, w') = (Inr (), (?c, w'))" for late w'
    by (rule event_stale) (use assms(1,3,4) in \<open>simp_all add: attempt_ctl_def switching_def\<close>)
  have "\<not> is_connected w (bc_uaA c)" using assms(1,6) by simp
  note run = next_hop_failover [OF assms(12,5) this assms(7,9,10) clean, of hk]
  show ?thesis
    unfolding event_next_hop [OF ne assms(2)] run
    using late assms(1,8)
    by (simp add: attempt_world_def) (simp add: attempt_ctl_def switching_def hop_addr_def)
qed

theorem failover_switches_hop_witness:
  "\<exists>c' w'. recv_event (sample_hooks sample_relay) (CCEventFail None) 2 (sample_waiting, sample_waiting_world) =
       (Inr (), (c', w')) \<and> bc_uaO c' = Some 4 \<and> bc_failover_hops c' = [] \<and> length (w_sip w') = 2"
proof -
  have w: "\<not> is_connected sample_waiting_world (Some 1)" "w_next_id sample_waiting_world = 4"
    "w_sip sample_waiting_world = []"
    by (simp_all add: sample_waiting_world_def sample_world_def is_connected_def)
  have c: "bc_uaA sample_waiting = Some 1" "bc_uaO sample_waiting = Some 2"
    "bc_failover_hops sample_waiting = [sample_hop ''b'']"
    "bc_serving_hop sample_waiting = Some (sample_hop ''a'')"
    "bc_policy sample_waiting = Some sample_relay"
    "bc_pending_event sample_waiting = Some (CCEventTry sample_try)"
    by (simp_all add: sample_waiting_def sample_call_def mk_controller_def)
  show ?thesis
    using failover_switches_hop [OF c(1,2) _ _ is_fail_or_disconnect.simps(1) [THEN eqTrueE] w(1) c(3-6) sample_relay_ok
        sample_tracing(5)] w(2,3) by fastforce
qed

text \<open>
  The last failure reaches the caller. When the serving leg ends the call and no hop is
  left, or the call was already connected, the event itself is passed to the trunk leg and
  nothing else is asked of sippy; the outcome is counted exactly once, as failed for a
  failure, completed for a release after the answer and abandoned for one before it; the
  current timer is gone and no leg or hop changes.
\<close>
lemma final_event_spec:
  assumes "bc_uaA c = Some a" "bc_uaO c = Some u" "u \<noteq> a" "obs_ok (w_obs w)"
    and "is_fail_or_disconnect ev" "is_connected w (Some a) \<or> bc_failover_hops c = []"
  shows "\<exists>w'. recv_event hk ev u (c, w) = (Inr (), (c\<lparr>bc_no_answer_timer := None\<rparr>, w'))
    \<and> w_sip w' = w_sip w @ [UaRecvEvent a ev (w_conf w)] \<and> w_conf w' = w_conf w
    \<and> (\<forall>t. bc_no_answer_timer c = Some t \<longrightarrow> t \<notin> fst ` set (w_timers w'))
    \<and> ob_metrics (w_obs w') = record_call_disposition
        (case ev of CCEventFail _ \<Rightarrow> FAILED
         | _ \<Rightarrow> if a \<in> set (w_connected w) then COMPLETED else ABANDONED) (ob_metrics (w_obs w))"
proof -
  have ne: "bc_uaA c \<noteq> Some u" using assms(1,3) by simp
  have fin: "final_disposition c w ev = (case ev of CCEventFail _ \<Rightarrow> FAILED
      | _ \<Rightarrow> if a \<in> set (w_connected w) then COMPLETED else ABANDONED)"
    using assms(1) by (simp add: final_disposition_def is_connected_def)
  have "is_connected w (bc_uaA c) \<or> bc_failover_hops c = []" using assms(1,6) by simp
  then show ?thesis
    unfolding event_next_hop [OF ne assms(2)] next_hop_no_failover [OF assms(4,5), unfolded assms(1)]
    using run_relay_final [OF assms(4,5,1)] next_hop_no_failover [OF assms(4,5), of c hk]
    by (auto simp: fin)
qed

text \<open>
  C11: A response is relayed. A ringing or connect event of the serving leg is passed to the
  trunk leg as it is, nothing else is asked of sippy, no outcome is counted, the no-answer
  timer is cancelled, and the trace gains the response twice: received from the next hop
  and sent on the trunk.
\<close>
theorem response_relayed_to_trunk:
  assumes "bc_uaA c = Some a" "bc_uaO c = Some u" "u \<noteq> a" "tracing (w_obs w)" "is_ring_or_connect ev"
  shows "\<exists>w'. recv_event hk ev u (c, w) = (Inr (), (c\<lparr>bc_no_answer_timer := None\<rparr>, w'))
    \<and> w_sip w' = w_sip w @ [UaRecvEvent a ev (w_conf w)] \<and> w_conf w' = w_conf w
    \<and> w_timers w' = filter (\<lambda>x. Some (fst x) \<noteq> bc_no_answer_timer c) (w_timers w)
    \<and> ob_metrics (w_obs w') = ob_metrics (w_obs w)
    \<and> map (\<lambda>e. (te_direction e, te_method e, te_peer e, te_attributes e))
        (trace_of (bc_call_id c) (w_obs w')) =
      map (\<lambda>e. (te_direction e, te_method e, te_peer e, te_attributes e))
        (trace_of (bc_call_id c) (w_obs w)) @
      [(INBOUND, fst (describe_event ev), next_hop_peer c, [(''leg'', PStr LEG_NEXT_HOP)]),
       (OUTBOUND, fst (describe_event ev), bc_trunk_peer c, [(''leg'', PStr LEG_TRUNK)])]"
proof -
  have ne: "bc_uaA c \<noteq> Some u" using assms(1,3) by simp
  let ?c = "c\<lparr>bc_no_answer_timer := None\<rparr>"
  have ok: "obs_ok (w_obs (timer_dropped c w))" using assms(4) tracing_ok by simp
  have a: "bc_uaA ?c = Some a" using assms(1) by simp
  show ?thesis
    unfolding event_next_hop [OF ne assms(2)] next_hop_progress [OF assms(5)]
      run_relay_progress [OF ok assms(5) a]
    using assms(4)
    by (simp add: relayed_in_def relayed_out_def trace_of_recorded the_event_def next_hop_peer_def)
qed

theorem response_relayed_to_trunk_witness:
  "\<exists>w'. recv_event base_hooks (CCEventRing None) 2 (sample_waiting, sample_waiting_world) =
       (Inr (), (sample_waiting\<lparr>bc_no_answer_timer := None\<rparr>, w')) \<and> w_timers w' = []
     \<and> w_sip w' = [UaRecvEvent 1 (CCEventRing None) (w_conf sample_waiting_world)]"
proof -
  have c: "bc_uaA sample_waiting = Some 1" "bc_uaO sample_waiting = Some 2"
    "bc_no_answer_timer sample_waiting = Some 3"
    by (simp_all add: sample_waiting_def sample_call_def mk_controller_def)
  have w: "w_timers sample_waiting_world = [(3, 3000)]" "w_sip sample_waiting_world = []"
    by (simp_all add: sample_waiting_world_def sample_world_def)
  show ?thesis
    using response_relayed_to_trunk [OF c(1,2) _ sample_tracing(3) is_ring_or_connect.simps(1) [THEN eqTrueE], of base_hooks] c w
    by auto
qed

end
