(* ===== verification/CallReach.thy ===== *)
theory CallReach
  imports CallEvents
begin

text \<open>
  A call as a state machine: the inputs the environment gives a controller (sippy events,
  the expiry of an armed timer, time, the connection state of the legs, the disposal at
  shutdown), the states reachable under them and the invariants of those states.
\<close>

section \<open>Inputs\<close>

datatype call_input =
    Event ccevent nat
  | Fire nat
  | Tick nat
  | Connected "nat list"
  | Dispose

definition due :: "nat \<Rightarrow> world \<Rightarrow> bool" where
  "due t w \<longleftrightarrow> list_ex (\<lambda>(i, dl). i = t \<and> dl \<le> ob_clock (w_obs w)) (w_timers w)"

text \<open>The event loop runs a due one-shot timer once and forgets it.\<close>

fun call_do :: "hooks \<Rightarrow> call_input \<Rightarrow> cst \<Rightarrow> (pyexc + unit) \<times> cst" where
  "call_do hk (Event ev u) s = recv_event hk ev u s"
| "call_do hk (Fire t) (c, w) =
     (if due t w then on_next_hop_no_answer hk (c, disarm t w) else (Inr (), (c, w)))"
| "call_do hk (Tick d) (c, w) =
     (Inr (), (c, wobs (\<lambda>b. b\<lparr>ob_clock := ob_clock b + int d\<rparr>) w))"
| "call_do hk (Connected us) (c, w) = (Inr (), (c, w\<lparr>w_connected := us\<rparr>))"
| "call_do hk Dispose s = dispose s"

inductive call_reach :: "hooks \<Rightarrow> cst \<Rightarrow> cst \<Rightarrow> bool" for hk s0 where
  reach_start: "call_reach hk s0 s0"
| reach_step: "call_reach hk s0 s \<Longrightarrow> call_do hk i s = (r, s') \<Longrightarrow> call_reach hk s0 s'"

fun run_call :: "hooks \<Rightarrow> call_input list \<Rightarrow> cst \<Rightarrow> cst" where
  "run_call hk [] s = s"
| "run_call hk (i # is) s = run_call hk is (snd (call_do hk i s))"

lemma reach_run: "call_reach hk s0 s \<Longrightarrow> call_reach hk s0 (run_call hk is s)"
proof (induction "is" arbitrary: s)
  case Nil
  then show ?case by simp
next
  case (Cons i "is")
  obtain r s' where "call_do hk i s = (r, s')" by (cases "call_do hk i s")
  with Cons show ?case using reach_step by fastforce
qed

lemma run_call_append: "run_call hk (xs @ ys) s = run_call hk ys (run_call hk xs s)"
  by (induction xs arbitrary: s) simp_all

text \<open>The reachable states are those of the runs, so what holds of one holds of the other.\<close>

lemma call_reach_iff_run: "call_reach hk s0 s \<longleftrightarrow> (\<exists>is. s = run_call hk is s0)"
proof
  show "call_reach hk s0 s \<Longrightarrow> \<exists>is. s = run_call hk is s0"
  proof (induction rule: call_reach.induct)
    case reach_start
    show ?case by (intro exI [of _ "[]"]) simp
  next
    case (reach_step s i r s')
    then obtain "is" where "s = run_call hk is s0" by blast
    then show ?case using reach_step.hyps(2) by (intro exI [of _ "is @ [i]"]) (simp add: run_call_append)
  qed
qed (use reach_run [OF reach_start] in blast)

section \<open>The start of a call\<close>

definition inbound_ok :: "hooks \<Rightarrow> sip_request \<Rightarrow> bool" where
  "inbound_ok hk rq \<longleftrightarrow> (case hk_inbound_fields hk rq of Inl _ \<Rightarrow> False
     | Inr f \<Rightarrow> fields_clean (relay_kwargs [] [] f))"

definition inbound_obs :: "controller \<Rightarrow> fields \<Rightarrow> obs \<Rightarrow> obs" where
  "inbound_obs c f b =
     logged INFO ''invite received on the trunk''
       ([(''call_id'', PStr (bc_call_id c)), (''direction'', PStr INBOUND),
         (''peer'', PStr (bc_trunk_peer c)), (''method'', PStr ''INVITE'')] @ f)
     (recorded (bc_call_id c) INBOUND LEG_TRUNK ''INVITE'' ''invite received from the trunk''
        (bc_trunk_peer c) f
     (counted (set_peer_status (bc_trunk_peer c @ '':trunk'') REACHABLE) (counted record_call_started b)))"

definition answered :: "sip_request \<Rightarrow> world \<Rightarrow> controller \<Rightarrow> controller" where
  "answered rq w c = c\<lparr>bc_call_id := rq_call_id rq, bc_trunk_peer := source_peer rq,
     bc_uaA := Some (w_next_id w)\<rparr>"

definition answered_world :: "sip_request \<Rightarrow> controller \<Rightarrow> fields \<Rightarrow> world \<Rightarrow> world" where
  "answered_world rq c f w = w\<lparr>w_obs := inbound_obs c f (w_obs w), w_next_id := w_next_id w + 1,
     w_sip := w_sip w @
       [UaCreated (w_next_id w) None (opt_get (gc_sip_uaname (bc_conf c)) [])
          (local_contact (bc_conf c) (w_conf w)),
        UaRecvRequest (w_next_id w) rq (pinned_identity (bc_conf c) (w_conf w))]\<rparr>"

lemma run_recv_request:
  assumes "obs_ok (w_obs w)" "hk_inbound_fields hk rq = Inr f" "fields_clean (relay_kwargs [] [] f)"
  shows "recv_request hk rq (c, w) =
    (Inr (), (answered rq w c, answered_world rq (answered rq w c) f w))"
proof -
  have clean: "fields_clean ([(''call_id'', PStr cid), (''direction'', PStr INBOUND),
      (''peer'', PStr peer), (''method'', PStr ''INVITE'')] @ f)" for cid peer
    using assms(3) by (simp add: fields_clean_iff relay_kwargs_def)
  show ?thesis
    using assms(1,2) clean
    by (simp add: recv_request_def run_simps ua_recv_request_def)
       (simp add: answered_def answered_world_def inbound_obs_def wobs_def log_sip_def)
qed

section \<open>The invariant\<close>

text \<open>The next-hop legs created so far: their number and the address dialled.\<close>

definition created :: "sip_call list \<Rightarrow> (nat \<times> (string \<times> int)) list" where
  "created xs = concat (map (\<lambda>x. case x of UaCreated n (Some nh) _ _ \<Rightarrow> [(n, nh)] | _ \<Rightarrow> []) xs)"

lemma created_simps [simp]:
  "created [] = []" "created (xs @ ys) = created xs @ created ys"
  "created (UaCreated n None l k # xs) = created xs"
  "created (UaCreated n (Some nh) l k # xs) = (n, nh) # created xs"
  "created (UaRecvRequest n rq cf # xs) = created xs"
  "created (UaRecvEvent n ev cf # xs) = created xs"
  "created (UaDisconnect n # xs) = created xs"
  by (simp_all add: created_def)

text \<open>
  \<open>walked\<close>: the call has a next-hop leg, the decision that made it is still the applied one,
  and the addresses dialled followed by the hops left are the decision's hops.
\<close>

definition walked :: "gconf \<Rightarrow> sip_conf \<Rightarrow> controller \<Rightarrow> world \<Rightarrow> policy_decision \<Rightarrow> bool" where
  "walked g conf c w p \<longleftrightarrow>
     bc_policy c = Some p \<and> relay_ok p \<and> bc_pending_event c = pd_outbound_event p
   \<and> map snd (created (w_sip w)) @ map hop_addr (bc_failover_hops c) = map hop_addr (pd_next_hops p)
   \<and> created (w_sip w) \<noteq> [] \<and> bc_uaO c = Some (fst (last (created (w_sip w))))
   \<and> map_option hop_addr (bc_serving_hop c) = Some (snd (last (created (w_sip w))))
   \<and> (\<forall>(n, nh)\<in>set (created (w_sip w)). n < w_next_id w \<and> bc_uaA c \<noteq> Some n
        \<and> (\<exists>ev. pd_outbound_event p = Some ev \<and>
             UaRecvEvent n ev (pinned_identity g conf) \<in> set (w_sip w)))"

lemma walked_leg:
  assumes "walked g conf c w p" and "bc_uaO c = Some u"
  shows "bc_uaA c \<noteq> Some u \<and> u < w_next_id w"
proof -
  obtain n nh where l: "last (created (w_sip w)) = (n, nh)" by (cases "last (created (w_sip w))")
  have "(n, nh) \<in> set (created (w_sip w))"
    using assms(1) l by (metis last_in_set walked_def)
  then have "n < w_next_id w \<and> bc_uaA c \<noteq> Some n" using assms(1) unfolding walked_def by blast
  moreover have "u = n" using assms l by (simp add: walked_def)
  ultimately show ?thesis by blast
qed

definition timers_ok :: "controller \<Rightarrow> world \<Rightarrow> bool" where
  "timers_ok c w \<longleftrightarrow> (\<forall>x\<in>set (w_timers w). fst x < w_next_id w)
     \<and> (\<forall>t. bc_no_answer_timer c = Some t \<longrightarrow> t < w_next_id w)"

definition call_inv :: "gconf \<Rightarrow> sip_conf \<Rightarrow> nat \<Rightarrow> string \<Rightarrow> cst \<Rightarrow> bool" where
  "call_inv g conf a cid s \<longleftrightarrow> (case s of (c, w) \<Rightarrow>
     obs_ok (w_obs w) \<and> bc_conf c = g \<and> w_conf w = conf \<and> bc_call_id c = cid
   \<and> bc_uaA c = Some a \<and> a < w_next_id w \<and> timers_ok c w
   \<and> (case bc_uaO c of None \<Rightarrow> created (w_sip w) = [] | Some u \<Rightarrow> \<exists>p. walked g conf c w p))"

lemma inv_legE:
  assumes "call_inv g conf a cid (c, w)" and "bc_uaO c = Some u"
  obtains p td where "bc_policy c = Some p" "bc_pending_event c = Some (CCEventTry td)"
    "fields_clean (relay_kwargs [] [] (pd_relay_log_fields p))" "bc_uaA c \<noteq> Some u"
proof -
  obtain p where p: "walked g conf c w p" using assms by (auto simp: call_inv_def)
  then have q: "relay_ok p" "bc_policy c = Some p" "bc_pending_event c = pd_outbound_event p"
    by (simp_all add: walked_def)
  obtain td where "pd_outbound_event p = Some (CCEventTry td)"
    "fields_clean (relay_kwargs [] [] (pd_relay_log_fields p))" using q(1) by (rule relay_okE)
  then show ?thesis using that q walked_leg [OF p assms(2)] by simp
qed

text \<open>The documented contract of the application's hook.\<close>

definition decide_ok :: "hooks \<Rightarrow> bool" where
  "decide_ok hk \<longleftrightarrow> (\<forall>c ev b. obs_ok b \<longrightarrow>
     (\<exists>d b'. hk_decide hk c ev b = (Inr d, b') \<and> obs_ok b' \<and> (relay_ok d \<or> reject_ok d)))"

lemma decide_okE:
  assumes "decide_ok hk" "obs_ok b"
  obtains d b' where "hk_decide hk c ev b = (Inr d, b')" "obs_ok b'" "relay_ok d \<or> reject_ok d"
  using assms unfolding decide_ok_def by blast

text \<open>Steps that leave the legs and the decision alone keep the invariant.\<close>

lemma walked_cong:
  assumes "walked g conf c w p"
    and "bc_policy c' = bc_policy c" "bc_pending_event c' = bc_pending_event c"
    "bc_failover_hops c' = bc_failover_hops c" "bc_uaO c' = bc_uaO c" "bc_uaA c' = bc_uaA c"
    "bc_serving_hop c' = bc_serving_hop c"
    and "created (w_sip w') = created (w_sip w)" "set (w_sip w) \<subseteq> set (w_sip w')"
    "w_next_id w' = w_next_id w"
  shows "walked g conf c' w' p"
  using assms unfolding walked_def by (auto split: prod.splits) blast+

lemma call_inv_quiet:
  assumes "call_inv g conf a cid (c, w)"
    and "bc_policy c' = bc_policy c" "bc_pending_event c' = bc_pending_event c"
    "bc_failover_hops c' = bc_failover_hops c" "bc_uaO c' = bc_uaO c" "bc_uaA c' = bc_uaA c"
    "bc_serving_hop c' = bc_serving_hop c" "bc_conf c' = bc_conf c" "bc_call_id c' = bc_call_id c"
    and "bc_no_answer_timer c' \<in> {None, bc_no_answer_timer c}"
    and "created (w_sip w') = created (w_sip w)" "set (w_sip w) \<subseteq> set (w_sip w')"
    "w_next_id w' = w_next_id w" "w_conf w' = w_conf w" "obs_ok (w_obs w')"
    "set (w_timers w') \<subseteq> set (w_timers w)"
  shows "call_inv g conf a cid (c', w')"
proof -
  have "timers_ok c' w'"
    using assms(1,10,13,16) by (auto simp: call_inv_def timers_ok_def)
  moreover have "case bc_uaO c' of None \<Rightarrow> created (w_sip w') = [] | Some u \<Rightarrow> \<exists>p. walked g conf c' w' p"
  proof (cases "bc_uaO c")
    case None
    then show ?thesis using assms by (simp add: call_inv_def)
  next
    case (Some u)
    then obtain p where "walked g conf c w p" using assms(1) by (auto simp: call_inv_def)
    then have "walked g conf c' w' p" by (rule walked_cong) (use assms in simp_all)
    then show ?thesis using Some assms(5) by auto
  qed
  ultimately show ?thesis using assms by (simp add: call_inv_def)
qed

definition ready :: "gconf \<Rightarrow> sip_conf \<Rightarrow> nat \<Rightarrow> string \<Rightarrow> next_hop \<Rightarrow> policy_decision \<Rightarrow> cst \<Rightarrow> bool" where
  "ready g conf a cid hop p s \<longleftrightarrow> (case s of (c, w) \<Rightarrow>
     obs_ok (w_obs w) \<and> bc_conf c = g \<and> w_conf w = conf \<and> bc_call_id c = cid
   \<and> bc_uaA c = Some a \<and> a < w_next_id w \<and> timers_ok c w
   \<and> relay_ok p \<and> bc_policy c = Some p \<and> bc_pending_event c = pd_outbound_event p
   \<and> map snd (created (w_sip w)) @ hop_addr hop # map hop_addr (bc_failover_hops c)
       = map hop_addr (pd_next_hops p)
   \<and> (\<forall>(n, nh)\<in>set (created (w_sip w)). n < w_next_id w \<and> Some a \<noteq> Some n
        \<and> (\<exists>ev. pd_outbound_event p = Some ev \<and>
             UaRecvEvent n ev (pinned_identity g conf) \<in> set (w_sip w))))"

lemma inv_attempt:
  assumes "ready g conf a cid hop p (c, w)" "pd_outbound_event p = Some (CCEventTry td)"
  shows "call_inv g conf a cid
    (attempt_ctl hop w c, attempt_world hk c p hop (CCEventTry td) num w)"
proof -
  let ?c = "attempt_ctl hop w c" and ?w = "attempt_world hk c p hop (CCEventTry td) num w"
  have cr: "created (w_sip ?w) = created (w_sip w) @ [(w_next_id w, hop_addr hop)]"
    by (simp add: attempt_world_def)
  have r: "obs_ok (w_obs w)" "bc_conf c = g" "w_conf w = conf" "bc_call_id c = cid"
    "bc_uaA c = Some a" "a < w_next_id w" "timers_ok c w" "relay_ok p" "bc_policy c = Some p"
    "bc_pending_event c = pd_outbound_event p"
    "map snd (created (w_sip w)) @ hop_addr hop # map hop_addr (bc_failover_hops c)
       = map hop_addr (pd_next_hops p)"
    and legs: "\<forall>(n, nh)\<in>set (created (w_sip w)). n < w_next_id w \<and> Some a \<noteq> Some n
        \<and> (\<exists>ev. pd_outbound_event p = Some ev \<and>
             UaRecvEvent n ev (pinned_identity g conf) \<in> set (w_sip w))"
    using assms(1) by (simp_all add: ready_def)
  have mono: "set (w_sip w) \<subseteq> set (w_sip ?w)" "w_next_id ?w = w_next_id w + 2"
    "UaRecvEvent (w_next_id w) (CCEventTry td) (pinned_identity g conf) \<in> set (w_sip ?w)"
    using r(2,3) by (auto simp: attempt_world_def)
  have "\<forall>(n, nh)\<in>set (created (w_sip ?w)). n < w_next_id ?w \<and> bc_uaA ?c \<noteq> Some n
        \<and> (\<exists>ev. pd_outbound_event p = Some ev \<and>
             UaRecvEvent n ev (pinned_identity g conf) \<in> set (w_sip ?w))"
    using legs mono r(5,6) assms(2) by (fastforce simp: cr attempt_ctl_def)
  then have "walked g conf ?c ?w p"
    using r(8-11) by (simp add: walked_def cr) (simp add: attempt_ctl_def)
  moreover have "timers_ok ?c ?w"
    using r(7) by (auto simp: timers_ok_def attempt_ctl_def attempt_world_def)
  moreover have "obs_ok (w_obs ?w)" using r(1) by (simp add: attempt_world_def)
  ultimately show ?thesis
    using r(2-6) by (simp add: call_inv_def) (auto simp: attempt_ctl_def attempt_world_def)
qed

section \<open>Every input keeps the invariant and raises nothing\<close>

lemma inv_event_try:
  assumes hk: "decide_ok hk" and inv: "call_inv g conf a cid (c, w)" and n: "bc_uaO c = None"
    and t: "is_try ev"
  shows "\<exists>s'. recv_event hk ev a (c, w) = (Inr (), s') \<and> call_inv g conf a cid s'"
proof -
  have i: "obs_ok (w_obs w)" "bc_conf c = g" "w_conf w = conf" "bc_call_id c = cid"
    "bc_uaA c = Some a" "a < w_next_id w" "timers_ok c w" "created (w_sip w) = []"
    using inv n by (simp_all add: call_inv_def)
  obtain d b where d: "hk_decide hk c ev (w_obs w) = (Inr d, b)" "obs_ok b" "relay_ok d \<or> reject_ok d"
    using decide_okE [OF hk i(1)] by metis
  show ?thesis
  proof (cases "relay_ok d")
    case True
    then obtain hop rest td where r: "pd_action d = RELAY" "pd_next_hops d = hop # rest"
      "pd_outbound_event d = Some (CCEventTry td)" "fields_clean (relay_kwargs [] [] (pd_relay_log_fields d))"
      by (rule relay_okE)
    have "ready g conf a cid hop d (routed d c, w\<lparr>w_obs := b\<rparr>)"
      using i d(2) r True by (simp add: ready_def routed_def timers_ok_def)
    from inv_attempt [OF this r(3)] show ?thesis
      unfolding event_try [OF i(5) n t]
      using run_outbound_relay [OF d(1,2) r] by (simp add: attempt_ctl_def)
  next
    case False
    with d(3) have "reject_ok d" by blast
    then obtain err where r: "pd_action d = REJECT" "pd_error d = Some err"
      "fields_clean (reject_kwargs [] [] err (pd_reject_log_fields d))" by (rule reject_okE)
    have "call_inv g conf a cid ((decided d c)\<lparr>bc_no_answer_timer := None\<rparr>,
       log_sip (UaRecvEvent a (reject_event err) (w_conf w))
         (wobs (rejected_obs c d err) (timer_dropped c (w\<lparr>w_obs := b\<rparr>))))"
      using i n d(2) by (auto simp: call_inv_def decided_def timers_ok_def)
    then show ?thesis
      unfolding event_try [OF i(5) n t]
      using run_outbound_reject [OF d(1,2) r i(5)] by simp
  qed
qed

lemma inv_event_failover:
  assumes inv: "call_inv g conf a cid (c, w)" and u: "bc_uaO c = Some u"
    and e: "is_fail_or_disconnect ev" "\<not> is_connected w (Some a)" "bc_failover_hops c = hop # rest"
  shows "\<exists>s'. recv_event hk ev u (c, w) = (Inr (), s') \<and> call_inv g conf a cid s'"
proof -
  obtain p where p: "walked g conf c w p" using inv u by (auto simp: call_inv_def)
  have i: "obs_ok (w_obs w)" "bc_conf c = g" "w_conf w = conf" "bc_call_id c = cid"
    "bc_uaA c = Some a" "a < w_next_id w" "timers_ok c w"
    using inv by (simp_all add: call_inv_def)
  have q: "bc_policy c = Some p" "relay_ok p" "bc_pending_event c = pd_outbound_event p"
    "map snd (created (w_sip w)) @ map hop_addr (bc_failover_hops c) = map hop_addr (pd_next_hops p)"
    using p by (simp_all add: walked_def)
  obtain td where td: "pd_outbound_event p = Some (CCEventTry td)"
    "fields_clean (relay_kwargs [] [] (pd_relay_log_fields p))" using q(2) by (rule relay_okE)
  have "u \<noteq> a" using walked_leg [OF p u] i(5) by auto
  then have ne: "bc_uaA c \<noteq> Some u" using i(5) by simp
  have "ready g conf a cid hop p (switching rest c, wobs (failover_obs hk c hop) w)"
    using i p q e(3) by (auto simp: ready_def switching_def timers_ok_def walked_def)
  from inv_attempt [OF this td(1), of hk "td_called td"]
  have inv': "call_inv g conf a cid
      (attempt_ctl hop w (switching rest c), attempt_world hk (switching rest c) p hop (CCEventTry td)
         (td_called td) (wobs (failover_obs hk c hop) w))"
    by (simp add: attempt_ctl_def)
  have "call_inv g conf a cid ((attempt_ctl hop w (switching rest c))\<lparr>bc_no_answer_timer := None\<rparr>,
     wobs (switched_obs (attempt_ctl hop w (switching rest c)) ev)
       (disarm (w_next_id w + 1)
         (attempt_world hk (switching rest c) p hop (CCEventTry td) (td_called td)
            (wobs (failover_obs hk c hop) w))))"
    by (rule call_inv_quiet [OF inv']) (use i(1) in \<open>auto simp: attempt_world_def\<close>)
  then show ?thesis
    unfolding event_next_hop [OF ne u]
    using next_hop_failover [OF i(1) e(1) _ e(3) q(1) _ td(2), of td] e(2) i(5) q(3) td(1) by simp
qed

lemma inv_event_trunk_bound:
  assumes inv: "call_inv g conf a cid (c, w)" and u: "bc_uaO c = Some v"
  shows "\<exists>s'. recv_event hk ev a (c, w) = (Inr (), s') \<and> call_inv g conf a cid s'"
proof -
  have i: "obs_ok (w_obs w)" "bc_uaA c = Some a" using inv by (simp_all add: call_inv_def)
  have "call_inv g conf a cid (c, log_sip (UaRecvEvent v ev (w_conf w))
      (wobs (recorded (bc_call_id c) INBOUND LEG_TRUNK (fst (describe_event ev))
         (snd (describe_event ev) @ '' on the trunk leg'') (bc_trunk_peer c) []) w))"
    by (rule call_inv_quiet [OF inv]) (use i in auto)
  then show ?thesis using event_trunk [OF i(2) u i(1)] by simp
qed

lemma inv_relay_to_trunk:
  assumes inv: "call_inv g conf a cid (c, w)"
  shows "\<exists>s'. relay_to_trunk ev (c, w) = (Inr (), s') \<and> call_inv g conf a cid s'"
proof -
  have i: "obs_ok (w_obs w)" "bc_uaA c = Some a" using inv by (simp_all add: call_inv_def)
  consider "is_fail_or_disconnect ev" | "is_ring_or_connect ev"
    | "\<not> is_ring_or_connect ev" "\<not> is_fail_or_disconnect ev" by blast
  then show ?thesis
  proof cases
    case 1
    have "call_inv g conf a cid (c\<lparr>bc_no_answer_timer := None\<rparr>, log_sip (UaRecvEvent a ev (w_conf w))
      (wobs (\<lambda>b. finished (bc_call_id c) (final_disposition c w ev) (relayed_in c ev b))
        (timer_dropped c w)))"
      by (rule call_inv_quiet [OF inv]) (use i in auto)
    then show ?thesis using run_relay_final [OF i(1) 1 i(2)] by simp
  next
    case 2
    have "call_inv g conf a cid (c, wobs (relayed_out c ev)
        (log_sip (UaRecvEvent a ev (w_conf w)) (wobs (relayed_in c ev) w)))"
      by (rule call_inv_quiet [OF inv]) (use i in auto)
    then show ?thesis using run_relay_progress [OF i(1) 2 i(2)] by simp
  next
    case 3
    have "call_inv g conf a cid (c, log_sip (UaRecvEvent a ev (w_conf w)) (wobs (relayed_in c ev) w))"
      by (rule call_inv_quiet [OF inv]) (use i in auto)
    then show ?thesis using run_relay_other [OF i(1) 3 i(2)] by simp
  qed
qed

lemma inv_timer_dropped:
  "call_inv g conf a cid (c, w) \<Longrightarrow> call_inv g conf a cid (c\<lparr>bc_no_answer_timer := None\<rparr>, timer_dropped c w)"
  by (rule call_inv_quiet [of g conf a cid c w]) (auto simp: call_inv_def)

lemma inv_event_next_hop:
  assumes inv: "call_inv g conf a cid (c, w)" and u: "bc_uaO c = Some u"
  shows "\<exists>s'. recv_event hk ev u (c, w) = (Inr (), s') \<and> call_inv g conf a cid s'"
proof -
  obtain p where p: "walked g conf c w p" using inv u by (auto simp: call_inv_def)
  have i: "obs_ok (w_obs w)" "bc_uaA c = Some a" using inv by (simp_all add: call_inv_def)
  have ne: "bc_uaA c \<noteq> Some u" using walked_leg [OF p u] by blast
  consider hop rest where "is_fail_or_disconnect ev" "\<not> is_connected w (Some a)"
      "bc_failover_hops c = hop # rest"
    | "is_fail_or_disconnect ev" "is_connected w (Some a) \<or> bc_failover_hops c = []"
    | "is_ring_or_connect ev" | "\<not> is_ring_or_connect ev" "\<not> is_fail_or_disconnect ev"
    by (cases "bc_failover_hops c") auto
  then show ?thesis
  proof cases
    case 1
    then show ?thesis by (rule inv_event_failover [OF inv u])
  next
    case 2
    then show ?thesis
      unfolding event_next_hop [OF ne u]
      using next_hop_no_failover [OF i(1) 2(1), of c hk] inv_relay_to_trunk [OF inv] i(2) by simp
  next
    case 3
    show ?thesis
      unfolding event_next_hop [OF ne u] next_hop_progress [OF 3]
      by (rule inv_relay_to_trunk [OF inv_timer_dropped [OF inv]])
  next
    case 4
    show ?thesis
      unfolding event_next_hop [OF ne u] next_hop_other [OF 4] by (intro inv_relay_to_trunk [OF inv])
  qed
qed

lemma inv_event:
  assumes hk: "decide_ok hk" and inv: "call_inv g conf a cid (c, w)"
  shows "\<exists>s'. recv_event hk ev u (c, w) = (Inr (), s') \<and> call_inv g conf a cid s'"
proof -
  have i: "obs_ok (w_obs w)" "bc_uaA c = Some a" using inv by (simp_all add: call_inv_def)
  consider "u = a" "bc_uaO c = None" "is_try ev" | "u = a" "bc_uaO c = None" "\<not> is_try ev"
    | v where "u = a" "bc_uaO c = Some v" | "bc_uaO c = Some u"
    | "u \<noteq> a" "bc_uaO c \<noteq> Some u"
    by (cases "bc_uaO c") blast+
  then show ?thesis
  proof cases
    case 1
    then show ?thesis using inv_event_try [OF hk inv] by blast
  next
    case 2
    have "call_inv g conf a cid (c, log_sip (UaRecvEvent a CCEventDisconnect (w_conf w)) w)"
      by (rule call_inv_quiet [OF inv]) (use i in auto)
    then show ?thesis using event_trunk_early [OF i(2) 2(2,3)] 2(1) by simp
  next
    case 3
    then show ?thesis using inv_event_trunk_bound [OF inv] by blast
  next
    case 4
    then show ?thesis by (rule inv_event_next_hop [OF inv])
  next
    case 5
    then have "recv_event hk ev u (c, w) = (Inr (), (c, w))"
      using i(2) by (intro event_stale) auto
    then show ?thesis using inv by blast
  qed
qed

lemma inv_no_answer:
  assumes inv: "call_inv g conf a cid (c, w)"
  shows "\<exists>s'. on_next_hop_no_answer hk (c, w) = (Inr (), s') \<and> call_inv g conf a cid s'"
proof -
  have i: "obs_ok (w_obs w)" "bc_uaA c = Some a" using inv by (simp_all add: call_inv_def)
  show ?thesis
  proof (cases "bc_uaO c = None \<or> is_connected w (bc_uaA c)")
    case True
    then show ?thesis using inv by (auto simp: on_next_hop_no_answer_def split: option.splits)
  next
    case False
    then obtain u where u: "bc_uaO c = Some u" by auto
    let ?kw = "[(''call_id'', PStr (bc_call_id c)), (''direction'', PStr INTERNAL),
        (''next_hop'', PStr (hk_no_answer_hop_label hk c)),
        (''error_code'', PStr (ec_code (skeleton_row PEER_UNREACHABLE)))]"
    have "on_next_hop_no_answer hk (c, w) = (Inr (),
        (c, log_sip (UaDisconnect u) (wobs (logged WARNING ''next hop did not answer in time'' ?kw) w)))"
      using False u by (simp add: on_next_hop_no_answer_def run_simps fields_clean_iff)
    moreover have "call_inv g conf a cid
        (c, log_sip (UaDisconnect u) (wobs (logged WARNING ''next hop did not answer in time'' ?kw) w))"
      by (rule call_inv_quiet [OF inv]) (use i in auto)
    ultimately show ?thesis by blast
  qed
qed

lemma inv_input:
  assumes hk: "decide_ok hk" and inv: "call_inv g conf a cid s"
  shows "\<exists>s'. call_do hk i s = (Inr (), s') \<and> call_inv g conf a cid s'"
proof -
  obtain c w where s: "s = (c, w)" by (cases s)
  have o: "obs_ok (w_obs w)" using inv by (simp add: s call_inv_def)
  show ?thesis
  proof (cases i)
    case (Event ev u)
    then show ?thesis using inv_event [OF hk inv [unfolded s]] s by simp
  next
    case (Fire t)
    have "call_inv g conf a cid (c, disarm t w)"
      by (rule call_inv_quiet [OF inv [unfolded s]]) (use o in auto)
    then show ?thesis using Fire s inv_no_answer inv by auto
  next
    case (Tick d)
    have "call_inv g conf a cid (c, wobs (\<lambda>b. b\<lparr>ob_clock := ob_clock b + int d\<rparr>) w)"
      by (rule call_inv_quiet [OF inv [unfolded s]]) (use o in \<open>auto simp: obs_ok_def\<close>)
    then show ?thesis using Tick s by simp
  next
    case (Connected us)
    have "call_inv g conf a cid (c, w\<lparr>w_connected := us\<rparr>)"
      by (rule call_inv_quiet [OF inv [unfolded s]]) (use o in auto)
    then show ?thesis using Connected s by simp
  next
    case Dispose
    then show ?thesis using inv_timer_dropped inv by (simp add: s dispose_def run_simps)
  qed
qed

lemma inv_reach:
  assumes "call_reach hk s0 s" and hk: "decide_ok hk" and inv: "call_inv g conf a cid s0"
  shows "call_inv g conf a cid s"
  using assms(1)
proof induction
  case reach_start
  then show ?case by (rule inv)
next
  case (reach_step s i r s')
  then show ?case using inv_input [OF hk reach_step.IH, of i] by auto
qed

end
