(* ===== verification/CallProperties.thy ===== *)
theory CallProperties
  imports CallReach "HOL-Library.Multiset"
begin

text \<open>
  The properties of a whole call: over every state reachable from the trunk INVITE, whatever
  sippy raises, whenever timers fire and whenever the process is stopped.
\<close>

section \<open>The start\<close>

definition fresh_world :: "world \<Rightarrow> bool" where
  "fresh_world w \<longleftrightarrow> obs_ok (w_obs w) \<and> w_sip w = [] \<and> w_timers w = []"

lemma inv_start:
  assumes "inbound_ok hk rq" "fresh_world w" "recv_request hk rq (mk_controller g nh, w) = (r, s0)"
  shows "r = Inr () \<and> call_inv g (w_conf w) (w_next_id w) (rq_call_id rq) s0
    \<and> bc_uaO (fst s0) = None \<and> w_timers (snd s0) = [] \<and> bc_no_answer_timer (fst s0) = None"
proof -
  obtain f where f: "hk_inbound_fields hk rq = Inr f" "fields_clean (relay_kwargs [] [] f)"
    using assms(1) by (auto simp: inbound_ok_def split: sum.splits)
  have w: "obs_ok (w_obs w)" "w_sip w = []" "w_timers w = []" using assms(2) by (simp_all add: fresh_world_def)
  let ?c = "answered rq w (mk_controller g nh)"
  have s0: "r = Inr ()" "s0 = (?c, answered_world rq ?c f w)"
    using run_recv_request [OF w(1) f, of "mk_controller g nh"] assms(3) by simp_all
  have o: "obs_ok (inbound_obs ?c f (w_obs w))" using w(1) by (simp add: inbound_obs_def)
  show ?thesis
    using w o by (simp add: s0 call_inv_def answered_world_def timers_ok_def)
      (simp add: answered_def mk_controller_def)
qed

definition rejects_all :: "hooks \<Rightarrow> bool" where
  "rejects_all hk \<longleftrightarrow> (\<forall>c ev b. obs_ok b \<longrightarrow>
     (\<exists>d b'. hk_decide hk c ev b = (Inr d, b') \<and> obs_ok b' \<and> reject_ok d))"

section \<open>A sample start\<close>

definition sample_request :: sip_request where
  "sample_request = \<lparr>rq_method = ''INVITE'', rq_source = Some (''10.0.0.2'', 5060), rq_call_id = ''c1'',
     rq_to_tag = None, rq_headers = []\<rparr>"

definition sample_start :: "policy_decision \<Rightarrow> cst" where
  "sample_start d = snd (recv_request (sample_hooks d) sample_request (mk_controller sample_conf None, sample_world))"

text \<open>The waiting call of leg 2 with the calls into sippy that led there.\<close>

definition sample_walk_world :: world where
  "sample_walk_world = sample_waiting_world\<lparr>w_sip :=
     [UaCreated 2 (Some (''a.net'', 5060)) ''as'' (''10.0.0.1'', 5060),
      UaRecvEvent 2 (CCEventTry sample_try) (pinned_identity sample_conf (w_conf sample_world))]\<rparr>"

lemma sample_fresh: "fresh_world sample_world"
  using sample_tracing(4) by (simp add: fresh_world_def) (simp add: sample_world_def)

lemma sample_inbound: "inbound_ok (sample_hooks d) rq"
  by (simp add: inbound_ok_def sample_hooks_def base_hooks_def fields_clean_iff relay_kwargs_def)

lemma sample_decide_ok: "decide_ok (sample_hooks sample_relay)" "rejects_all (sample_hooks sample_reject)"
  by (simp_all add: decide_ok_def rejects_all_def sample_decides sample_relay_ok sample_reject_ok)

lemma sample_started:
  "recv_request (sample_hooks d) sample_request (mk_controller sample_conf None, sample_world) =
     (Inr (), sample_start d)"
  unfolding sample_start_def
  using inv_start [OF sample_inbound sample_fresh, of d sample_request sample_conf None]
  by (metis prod.collapse)

lemma sample_start_fields:
  "bc_uaA (fst (sample_start d)) = Some 2" "bc_uaO (fst (sample_start d)) = None"
  "bc_conf (fst (sample_start d)) = sample_conf" "w_next_id (snd (sample_start d)) = 3"
  "obs_ok (w_obs (snd (sample_start d)))" "created (w_sip (snd (sample_start d))) = []"
proof -
  let ?c = "answered sample_request sample_world (mk_controller sample_conf None)"
  have "hk_inbound_fields (sample_hooks d) sample_request = Inr []"
    by (simp add: sample_hooks_def base_hooks_def)
  moreover have "fields_clean (relay_kwargs [] [] [])" by (simp add: fields_clean_iff relay_kwargs_def)
  ultimately have s: "sample_start d = (?c, answered_world sample_request ?c [] sample_world)"
    using run_recv_request [OF sample_tracing(4), of "sample_hooks d" sample_request "[]"]
    by (simp add: sample_start_def)
  have c: "bc_uaA ?c = Some 2" "bc_uaO ?c = None" "bc_conf ?c = sample_conf"
    by (simp_all add: answered_def mk_controller_def sample_world_def)
  have w: "w_next_id sample_world = 2" "w_sip sample_world = []" by (simp_all add: sample_world_def)
  show "bc_uaA (fst (sample_start d)) = Some 2" "bc_uaO (fst (sample_start d)) = None"
    "bc_conf (fst (sample_start d)) = sample_conf"
    using c by (simp_all add: s)
  show "w_next_id (snd (sample_start d)) = 3" "created (w_sip (snd (sample_start d))) = []"
    using w by (simp_all add: s answered_world_def)
  show "obs_ok (w_obs (snd (sample_start d)))"
    using sample_tracing(4) by (simp add: s answered_world_def inbound_obs_def)
qed

lemma sample_walk_inv:
  "call_inv sample_conf (w_conf sample_world) 1 ''c1'' (sample_waiting, sample_walk_world)"
proof -
  have "obs_ok (w_obs sample_walk_world)" using sample_tracing(5) by (simp add: sample_walk_world_def)
  moreover have "walked sample_conf (w_conf sample_world) sample_waiting sample_walk_world sample_relay"
    using sample_relay_ok
    by (simp add: walked_def sample_walk_world_def)
       (simp add: sample_waiting_def sample_call_def mk_controller_def sample_relay_def hop_addr_def
          sample_hop_def sample_waiting_world_def)
  ultimately show ?thesis
    by (auto simp: call_inv_def sample_walk_world_def sample_waiting_def sample_call_def
        mk_controller_def sample_waiting_world_def sample_world_def timers_ok_def)
qed

lemma sample_walk_facts:
  "bc_uaO sample_waiting = Some 2" "bc_failover_hops sample_waiting = [sample_hop ''b'']"
  "\<not> is_connected sample_walk_world (Some 1)" "w_next_id sample_walk_world = 4"
  "w_timers sample_walk_world = [(3, 3000)]" "ob_clock (w_obs sample_walk_world) = 0"
  by (simp_all add: sample_waiting_def sample_walk_world_def sample_waiting_world_def sample_world_def
      sample_obs_def is_connected_def)

section \<open>The failover walk\<close>

text \<open>
  C1: The failover walk. In every state a call can reach, either no next-hop leg has ever been
  created (the one-leg invariant), or the current leg is the last one created and the
  addresses dialled so far, followed by the hops still available, are exactly the hops of
  the applied relay decision in their order: every hop is tried at most once, none is
  skipped and none is invented.
\<close>
theorem failover_walk:
  assumes "decide_ok hk" "inbound_ok hk rq" "fresh_world w"
    and "recv_request hk rq (mk_controller g nh, w) = (r, s0)" "call_reach hk s0 (c, w')"
  shows "(bc_uaO c = None \<longrightarrow> created (w_sip w') = [])
    \<and> (\<forall>u. bc_uaO c = Some u \<longrightarrow> (\<exists>p. bc_policy c = Some p \<and> pd_action p = RELAY
        \<and> map snd (created (w_sip w')) @ map hop_addr (bc_failover_hops c) = map hop_addr (pd_next_hops p)
        \<and> u = fst (last (created (w_sip w')))))"
proof -
  have "call_inv g (w_conf w) (w_next_id w) (rq_call_id rq) (c, w')"
    using inv_reach [OF assms(5,1)] inv_start [OF assms(2-4)] by blast
  then show ?thesis
    by (cases "bc_uaO c") (auto simp: call_inv_def walked_def relay_ok_def)
qed

theorem failover_walk_witness:
  "\<exists>c w'. call_reach (sample_hooks sample_relay) (sample_start sample_relay) (c, w') \<and> bc_uaO c = Some 3
     \<and> map snd (created (w_sip w')) @ map hop_addr (bc_failover_hops c) = [(''a.net'', 5060), (''b.net'', 5060)]"
proof -
  let ?hk = "sample_hooks sample_relay" and ?ev = "CCEventTry sample_try"
  obtain c0 w0 where s0: "sample_start sample_relay = (c0, w0)" by (cases "sample_start sample_relay")
  note f = sample_start_fields [of sample_relay, unfolded s0 fst_conv snd_conv]
  obtain hop rest td where r: "pd_action sample_relay = RELAY" "pd_next_hops sample_relay = hop # rest"
      "pd_outbound_event sample_relay = Some (CCEventTry td)"
      "fields_clean (relay_kwargs [] [] (pd_relay_log_fields sample_relay))"
    using sample_relay_ok by (rule relay_okE)
  have run: "call_do ?hk (Event ?ev 2) (c0, w0) = (Inr (), (attempt_ctl hop w0 (routed sample_relay c0),
      attempt_world ?hk (routed sample_relay c0) sample_relay hop (CCEventTry td) (td_called td) (w0\<lparr>w_obs := w_obs w0\<rparr>)))"
    using run_outbound_relay [OF sample_decides f(5) r] event_try [OF f(1,2), of ?ev] by simp
  then obtain c w' where cw: "call_do ?hk (Event ?ev 2) (c0, w0) = (Inr (), (c, w'))" "bc_uaO c = Some 3"
      "bc_policy c = Some sample_relay"
    using f(4) by (simp add: attempt_ctl_def routed_def)
  have reach: "call_reach ?hk (sample_start sample_relay) (c, w')"
    using reach_step [OF reach_start cw(1)] by (simp add: s0)
  have hops: "map hop_addr (pd_next_hops sample_relay) = [(''a.net'', 5060), (''b.net'', 5060)]"
    by (simp add: sample_relay_def hop_addr_def sample_hop_def)
  show ?thesis
    using failover_walk [OF sample_decide_ok(1) sample_inbound sample_fresh sample_started reach] reach cw(2,3) hops
    by fastforce
qed

text \<open>
  The identity. Whatever the call goes through, the process-wide \<^verbatim>\<open>SipConf\<close> is, after every
  handler, what it was before the call arrived, and every leg the call created was sent
  the decided \<^verbatim>\<open>CCEventTry\<close> while \<^verbatim>\<open>SipConf\<close> carried this AS's configured identity.
\<close>
lemma identity_pinned_and_restored:
  assumes "decide_ok hk" "inbound_ok hk rq" "fresh_world w"
    and "recv_request hk rq (mk_controller g nh, w) = (r, s0)" "call_reach hk s0 (c, w')"
  shows "w_conf w' = w_conf w \<and> (\<forall>n nh'. (n, nh') \<in> set (created (w_sip w')) \<longrightarrow>
      (\<exists>td. UaRecvEvent n (CCEventTry td) (pinned_identity g (w_conf w)) \<in> set (w_sip w')))"
proof -
  have i: "call_inv g (w_conf w) (w_next_id w) (rq_call_id rq) (c, w')"
    using inv_reach [OF assms(5,1)] inv_start [OF assms(2-4)] by blast
  show ?thesis
  proof (cases "bc_uaO c")
    case None
    then show ?thesis using i by (simp add: call_inv_def)
  next
    case (Some u)
    then obtain p where p: "walked g (w_conf w) c w' p" using i by (auto simp: call_inv_def)
    then have "relay_ok p" by (simp add: walked_def)
    then obtain td where "pd_outbound_event p = Some (CCEventTry td)" by (rule relay_okE)
    with p i show ?thesis by (auto simp: walked_def call_inv_def)
  qed
qed

text \<open>
  C2: No handler raises. With an application that keeps the contract of \<^verbatim>\<open>decide\<close> and whose
  fields do not collide with the base's, the INVITE handler and then every event, in every
  order, on every leg, every timer expiry and the disposal return normally.
\<close>
theorem no_handler_raises:
  assumes "decide_ok hk" "inbound_ok hk rq" "fresh_world w"
    and "recv_request hk rq (mk_controller g nh, w) = (r, s0)" "call_reach hk s0 s"
  shows "r = Inr () \<and> fst (call_do hk i s) = Inr ()"
proof -
  have "call_inv g (w_conf w) (w_next_id w) (rq_call_id rq) s"
    using inv_reach [OF assms(5,1)] inv_start [OF assms(2-4)] by blast
  then show ?thesis
    using inv_input [OF assms(1), of g "w_conf w" "w_next_id w" "rq_call_id rq" s i] inv_start [OF assms(2-4)]
    by auto
qed

theorem no_handler_raises_witness:
  "fst (call_do (sample_hooks sample_relay) (Event (CCEventFail None) 3)
     (run_call (sample_hooks sample_relay) [Event (CCEventTry sample_try) 2, Dispose] (sample_start sample_relay))) = Inr ()"
  using no_handler_raises [OF sample_decide_ok(1) sample_inbound sample_fresh sample_started
      reach_run [OF reach_start]] by blast

section \<open>The one-leg invariant\<close>

text \<open>The user agent a call into sippy addresses.\<close>

fun sip_leg :: "sip_call \<Rightarrow> nat" where
  "sip_leg (UaCreated n _ _ _) = n"
| "sip_leg (UaRecvRequest n _ _) = n"
| "sip_leg (UaRecvEvent n _ _) = n"
| "sip_leg (UaDisconnect n) = n"

definition one_leg :: "nat \<Rightarrow> cst \<Rightarrow> bool" where
  "one_leg a s \<longleftrightarrow> (case s of (c, w) \<Rightarrow> obs_ok (w_obs w) \<and> bc_uaA c = Some a \<and> bc_uaO c = None
     \<and> bc_no_answer_timer c = None \<and> w_timers w = [] \<and> (\<forall>x\<in>set (w_sip w). sip_leg x = a))"

lemma one_leg_input:
  assumes hk: "rejects_all hk" and inv: "one_leg a s"
  shows "one_leg a (snd (call_do hk i s))"
proof -
  obtain c w where s: "s = (c, w)" by (cases s)
  have o: "obs_ok (w_obs w)" "bc_uaA c = Some a" "bc_uaO c = None" "bc_no_answer_timer c = None"
    "w_timers w = []" "\<forall>x\<in>set (w_sip w). sip_leg x = a"
    using inv by (simp_all add: s one_leg_def)
  show ?thesis
  proof (cases i)
    case (Event ev u)
    consider "u = a" "is_try ev" | "u = a" "\<not> is_try ev" | "u \<noteq> a" by blast
    then show ?thesis
    proof cases
      case 1
      obtain d b err where d: "hk_decide hk c ev (w_obs w) = (Inr d, b)" "obs_ok b" "pd_action d = REJECT"
        "pd_error d = Some err" "fields_clean (reject_kwargs [] [] err (pd_reject_log_fields d))"
        using hk o(1) unfolding rejects_all_def by (metis reject_okE)
      show ?thesis
        using o run_outbound_reject [OF d(1,2,3,4,5) o(2)] Event 1 d(2)
        by (simp add: s event_try one_leg_def decided_def reject_event_def)
    next
      case 2
      then show ?thesis using o Event by (simp add: s event_trunk_early one_leg_def)
    next
      case 3
      then show ?thesis using o Event inv by (simp add: s event_stale)
    qed
  next
    case (Fire t)
    then show ?thesis using o inv by (simp add: s due_def)
  next
    case (Tick d)
    then show ?thesis using o by (simp add: s one_leg_def obs_ok_def)
  next
    case (Connected us)
    then show ?thesis using o by (simp add: s one_leg_def)
  next
    case Dispose
    then show ?thesis using o by (simp add: s one_leg_def dispose_def run_simps)
  qed
qed

text \<open>
  A call that is always rejected has one leg for its whole lifetime. If the application
  only rejects, then in every reachable state there is no next-hop leg and no timer, and
  every call ever made into sippy was made on the one answering leg.
\<close>
lemma rejected_call_one_leg:
  assumes "rejects_all hk" "inbound_ok hk rq" "fresh_world w"
    and "recv_request hk rq (mk_controller g nh, w) = (r, s0)" "call_reach hk s0 (c, w')"
  shows "bc_uaO c = None \<and> w_timers w' = [] \<and> (\<forall>x\<in>set (w_sip w'). sip_leg x = w_next_id w)
    \<and> bc_uaA c = Some (w_next_id w)"
proof -
  obtain f where f: "hk_inbound_fields hk rq = Inr f" "fields_clean (relay_kwargs [] [] f)"
    using assms(2) by (auto simp: inbound_ok_def split: sum.splits)
  have w: "obs_ok (w_obs w)" "w_sip w = []" "w_timers w = []" using assms(3) by (simp_all add: fresh_world_def)
  have "one_leg (w_next_id w) s0"
    using run_recv_request [OF w(1) f, of "mk_controller g nh"] assms(4) w
    by (auto simp: one_leg_def answered_world_def answered_def mk_controller_def inbound_obs_def)
  from assms(5) this have "one_leg (w_next_id w) (c, w')"
  proof (induction "(c, w')" arbitrary: c w')
    case reach_start
    then show ?case by simp
  next
    case (reach_step s i r)
    then show ?case using one_leg_input [OF assms(1), of "w_next_id w" s i] by (cases s) auto
  qed
  then show ?thesis by (simp add: one_leg_def)
qed

section \<open>The no-answer timer\<close>

lemma failover_effect:
  assumes "call_inv g conf a cid (c, w)" "bc_uaO c = Some u"
    and "is_fail_or_disconnect ev" "\<not> is_connected w (Some a)" "bc_failover_hops c = hop # rest"
  shows "\<exists>c' w'. recv_event hk ev u (c, w) = (Inr (), (c', w')) \<and> bc_uaO c' = Some (w_next_id w)
    \<and> bc_uaA c' = Some a \<and> bc_no_answer_timer c' = None \<and> w_timers w' = w_timers w
    \<and> ob_clock (w_obs w') = ob_clock (w_obs w) \<and> w_connected w' = w_connected w \<and> obs_ok (w_obs w')
    \<and> created (w_sip w') = created (w_sip w) @ [(w_next_id w, hop_addr hop)]"
proof -
  have i: "obs_ok (w_obs w)" "bc_uaA c = Some a" "timers_ok c w"
    using assms(1) by (simp_all add: call_inv_def)
  obtain p td where p: "bc_policy c = Some p" "bc_pending_event c = Some (CCEventTry td)"
    "fields_clean (relay_kwargs [] [] (pd_relay_log_fields p))" and ne: "bc_uaA c \<noteq> Some u"
    using inv_legE [OF assms(1,2)] by metis
  have nc: "\<not> is_connected w (bc_uaA c)" using assms(4) i(2) by simp
  have "filter (\<lambda>x. fst x \<noteq> w_next_id w + 1) (w_timers w) = w_timers w"
    using i(3) by (intro filter_True) (auto simp: timers_ok_def)
  then show ?thesis
    unfolding event_next_hop [OF ne assms(2)]
    using next_hop_failover [OF i(1) assms(3) nc assms(5) p, of hk] i(1,2)
    by (simp add: attempt_world_def) (simp add: attempt_ctl_def switching_def)
qed

lemma no_answer_fires:
  assumes "obs_ok (w_obs w)" "bc_uaO c = Some u" "\<not> is_connected w (bc_uaA c)" "due t w"
  shows "\<exists>w'. call_do hk (Fire t) (c, w) = (Inr (), (c, w')) \<and> w_sip w' = w_sip w @ [UaDisconnect u]
    \<and> w_timers w' = filter (\<lambda>x. fst x \<noteq> t) (w_timers w) \<and> ob_metrics (w_obs w') = ob_metrics (w_obs w)
    \<and> w_next_id w' = w_next_id w"
  using assms by (simp add: on_next_hop_no_answer_def run_simps fields_clean_iff)

text \<open>
  C12: An unanswered hop is given up. Once the no-answer timer of the serving hop is due and
  the trunk leg has not connected, its expiry disconnects the serving leg and nothing else;
  and the release that sippy then raises on that leg dials the next hop of the decision.
\<close>
theorem no_answer_moves_on:
  assumes "call_inv g conf a cid (c, w)" "bc_uaO c = Some u" "\<not> is_connected w (Some a)"
    and "bc_failover_hops c = hop # rest" "due t w"
  shows "\<exists>w1 c2 w2. call_do hk (Fire t) (c, w) = (Inr (), (c, w1))
    \<and> w_sip w1 = w_sip w @ [UaDisconnect u] \<and> \<not> due t w1
    \<and> call_do hk (Event CCEventDisconnect u) (c, w1) = (Inr (), (c2, w2))
    \<and> created (w_sip w2) = created (w_sip w) @ [(w_next_id w, hop_addr hop)]
    \<and> bc_failover_hops c2 = rest"
proof -
  have i: "obs_ok (w_obs w)" "bc_uaA c = Some a" using assms(1) by (simp_all add: call_inv_def)
  let ?kw = "[(''call_id'', PStr (bc_call_id c)), (''direction'', PStr INTERNAL),
        (''next_hop'', PStr (hk_no_answer_hop_label hk c)),
        (''error_code'', PStr (ec_code (skeleton_row PEER_UNREACHABLE)))]"
  let ?w = "log_sip (UaDisconnect u)
      (wobs (logged WARNING ''next hop did not answer in time'' ?kw) (disarm t w))"
  have fire: "call_do hk (Fire t) (c, w) = (Inr (), (c, ?w))"
    using assms(2,3,5) i by (simp add: on_next_hop_no_answer_def run_simps fields_clean_iff)
  have inv: "call_inv g conf a cid (c, ?w)"
    by (rule call_inv_quiet [OF assms(1)]) (use i in auto)
  obtain p td where p: "bc_policy c = Some p" "bc_pending_event c = Some (CCEventTry td)"
    "fields_clean (relay_kwargs [] [] (pd_relay_log_fields p))" "bc_uaA c \<noteq> Some u"
    using inv_legE [OF assms(1,2)] by metis
  have "\<not> is_connected ?w (bc_uaA c)" using assms(3) i(2) by simp
  moreover have "obs_ok (w_obs ?w)" using i(1) by simp
  ultimately have run: "relay_from_next_hop hk CCEventDisconnect (c, ?w) = (Inr (),
    ((attempt_ctl hop ?w (switching rest c))\<lparr>bc_no_answer_timer := None\<rparr>,
     wobs (switched_obs (attempt_ctl hop ?w (switching rest c)) CCEventDisconnect)
       (disarm (w_next_id ?w + 1)
         (attempt_world hk (switching rest c) p hop (CCEventTry td) (td_called td)
            (wobs (failover_obs hk c hop) ?w)))))"
    using assms(4) p(1-3) by (intro next_hop_failover) simp_all
  have "\<exists>c2 w2. recv_event hk CCEventDisconnect u (c, ?w) = (Inr (), (c2, w2))
      \<and> created (w_sip w2) = created (w_sip w) @ [(w_next_id w, hop_addr hop)] \<and> bc_failover_hops c2 = rest"
    unfolding event_next_hop [OF p(4) assms(2)] run
    by (simp add: attempt_world_def) (simp add: attempt_ctl_def switching_def)
  moreover have "\<not> due t ?w" by (auto simp: due_def list_ex_iff)
  ultimately show ?thesis using fire by fastforce
qed

theorem no_answer_moves_on_witness:
  "\<exists>w1. call_do base_hooks (Fire 3) (sample_waiting, wobs (\<lambda>b. b\<lparr>ob_clock := 3000\<rparr>) sample_walk_world) =
     (Inr (), (sample_waiting, w1)) \<and> last (w_sip w1) = UaDisconnect 2"
proof -
  let ?w = "wobs (\<lambda>b. b\<lparr>ob_clock := 3000\<rparr>) sample_walk_world"
  have "call_inv sample_conf (w_conf sample_world) 1 ''c1'' (sample_waiting, ?w)"
    by (rule call_inv_quiet [OF sample_walk_inv])
       (use sample_walk_inv in \<open>auto simp: call_inv_def obs_ok_def\<close>)
  moreover have "\<not> is_connected ?w (Some 1)" "due 3 ?w"
    using sample_walk_facts by (simp_all add: due_def)
  ultimately show ?thesis
    using no_answer_moves_on [of sample_conf "w_conf sample_world" 1 "''c1''" sample_waiting ?w 2
        "sample_hop ''b''" "[]" 3 base_hooks] sample_walk_facts(1,2) by fastforce
qed

text \<open>
  C13: A hop reached by failover is not watched. When a failed hop is replaced, the handler
  arms a timer for the new hop and then cancels that very timer: afterwards the controller
  holds no timer and the armed timers are those armed before the failure, so a new hop that
  never answers triggers no failover of its own.
\<close>
theorem failover_hop_unwatched:
  assumes "call_inv g conf a cid (c, w)" "bc_uaO c = Some u"
    and "is_fail_or_disconnect ev" "\<not> is_connected w (Some a)" "bc_failover_hops c = hop # rest"
  shows "\<exists>c' w'. recv_event hk ev u (c, w) = (Inr (), (c', w')) \<and> bc_uaO c' = Some (w_next_id w)
    \<and> bc_no_answer_timer c' = None \<and> w_timers w' = w_timers w"
  using failover_effect [OF assms, of hk] by blast

theorem failover_hop_unwatched_witness:
  "\<exists>c' w'. recv_event base_hooks (CCEventFail None) 2 (sample_waiting, sample_walk_world) = (Inr (), (c', w'))
     \<and> bc_uaO c' = Some 4 \<and> bc_no_answer_timer c' = None \<and> w_timers w' = [(3, 3000)]"
  using failover_hop_unwatched [OF sample_walk_inv sample_walk_facts(1)
      is_fail_or_disconnect.simps(1) [THEN eqTrueE] sample_walk_facts(3,2), of base_hooks]
  by (simp add: sample_walk_facts)

text \<open>
  C14: The failed hop's timer outlives it. After a failover caused by a failure event, the
  timer armed for the failed hop is still armed: disposing of the controller does not
  cancel it, and when it is due it disconnects the new hop's leg, however recently that
  leg was dialled.
\<close>
theorem stale_timer_ends_new_hop:
  assumes "call_inv g conf a cid (c, w)" "bc_uaO c = Some u"
    and "is_fail_or_disconnect ev" "\<not> is_connected w (Some a)" "bc_failover_hops c = hop # rest"
    and "(t, dl) \<in> set (w_timers w)" "dl \<le> ob_clock (w_obs w) + int d"
  shows "(t, dl) \<in> set (w_timers (snd (run_call hk [Event ev u, Dispose] (c, w))))
    \<and> last (w_sip (snd (run_call hk [Event ev u, Tick d, Fire t] (c, w)))) = UaDisconnect (w_next_id w)"
proof -
  obtain c' w' where f: "recv_event hk ev u (c, w) = (Inr (), (c', w'))" "bc_uaO c' = Some (w_next_id w)"
    "bc_uaA c' = Some a" "bc_no_answer_timer c' = None" "w_timers w' = w_timers w"
    "ob_clock (w_obs w') = ob_clock (w_obs w)" "w_connected w' = w_connected w" "obs_ok (w_obs w')"
    using failover_effect [OF assms(1-5), of hk] by blast
  let ?w = "wobs (\<lambda>b. b\<lparr>ob_clock := ob_clock b + int d\<rparr>) w'"
  have "due t ?w"
    using assms(6,7) f(5,6) by (auto simp: due_def list_ex_iff)
  moreover have "\<not> is_connected ?w (bc_uaA c')"
    using assms(4) f(3,7) by (simp add: is_connected_def)
  ultimately have "last (w_sip (snd (snd (call_do hk (Fire t) (c', ?w))))) = UaDisconnect (w_next_id w)"
    using no_answer_fires [of ?w c' "w_next_id w" t hk] f(2,8) by (auto simp: obs_ok_def)
  then show ?thesis
    using f(1,4,5) assms(6) by (simp add: dispose_def run_simps timer_dropped_def)
qed

theorem stale_timer_ends_new_hop_witness:
  "last (w_sip (snd (run_call base_hooks [Event (CCEventFail None) 2, Tick 3000, Fire 3]
     (sample_waiting, sample_walk_world)))) = UaDisconnect 4"
  using stale_timer_ends_new_hop [OF sample_walk_inv sample_walk_facts(1)
      is_fail_or_disconnect.simps(1) [THEN eqTrueE] sample_walk_facts(3,2), of 3 3000 3000 base_hooks]
  by (simp add: sample_walk_facts del: run_call.simps)

text \<open>
  C15: A caller who hangs up before the answer does not end the walk. The release on the
  trunk leg is passed to the serving leg, but no outcome is counted, the no-answer timer
  stays armed and the failover hops stay; when the serving leg is then torn down, the next
  hop is dialled for a caller who is gone.
\<close>
theorem caller_hangup_keeps_dialling:
  assumes "call_inv g conf a cid (c, w)" "bc_uaO c = Some u"
    and "\<not> is_connected w (Some a)" "bc_failover_hops c = hop # rest"
  shows "\<exists>w1 c2 w2. recv_event hk CCEventDisconnect a (c, w) = (Inr (), (c, w1))
    \<and> w_sip w1 = w_sip w @ [UaRecvEvent u CCEventDisconnect (w_conf w)]
    \<and> ob_metrics (w_obs w1) = ob_metrics (w_obs w) \<and> w_timers w1 = w_timers w
    \<and> recv_event hk CCEventDisconnect u (c, w1) = (Inr (), (c2, w2))
    \<and> created (w_sip w2) = created (w_sip w) @ [(w_next_id w, hop_addr hop)]"
proof -
  have i: "obs_ok (w_obs w)" "bc_uaA c = Some a" using assms(1) by (simp_all add: call_inv_def)
  let ?w = "log_sip (UaRecvEvent u CCEventDisconnect (w_conf w))
      (wobs (recorded (bc_call_id c) INBOUND LEG_TRUNK (fst (describe_event CCEventDisconnect))
         (snd (describe_event CCEventDisconnect) @ '' on the trunk leg'') (bc_trunk_peer c) []) w)"
  have hang: "recv_event hk CCEventDisconnect a (c, w) = (Inr (), (c, ?w))"
    by (rule event_trunk [OF i(2) assms(2) i(1)])
  have "call_inv g conf a cid (c, ?w)"
    by (rule call_inv_quiet [OF assms(1)]) (use i in auto)
  from failover_effect [OF this assms(2) _ _ assms(4), of CCEventDisconnect hk] assms(3)
  obtain c2 w2 where "recv_event hk CCEventDisconnect u (c, ?w) = (Inr (), (c2, w2))"
    "created (w_sip w2) = created (w_sip w) @ [(w_next_id w, hop_addr hop)]" by auto
  with hang show ?thesis by fastforce
qed

theorem caller_hangup_keeps_dialling_witness:
  "\<exists>w1 c2 w2. recv_event base_hooks CCEventDisconnect 1 (sample_waiting, sample_walk_world) =
       (Inr (), (sample_waiting, w1))
     \<and> recv_event base_hooks CCEventDisconnect 2 (sample_waiting, w1) = (Inr (), (c2, w2))
     \<and> map snd (created (w_sip w2)) = [(''a.net'', 5060), (''b.net'', 5060)]"
proof -
  have "created (w_sip sample_walk_world) = [(2, (''a.net'', 5060))]" by (simp add: sample_walk_world_def)
  moreover have "hop_addr (sample_hop ''b'') = (''b.net'', 5060)" by (simp add: hop_addr_def sample_hop_def)
  ultimately show ?thesis
    using caller_hangup_keeps_dialling [OF sample_walk_inv sample_walk_facts(1,3,2), of base_hooks] by fastforce
qed

section \<open>The vocabulary and the headers\<close>

text \<open>
  The relay line of an attempt is the application's, filled for this attempt. Of the
  fields the application supplied, exactly the called number and the next hop are replaced
  by the values of the attempt, and only where the application asked for them by name; no
  field is added, dropped or moved.
\<close>
lemma attempt_fields_filled:
  "od_keys (with_attempt_fields flds hop num) = od_keys flds \<and>
   map_of (with_attempt_fields flds hop num) k =
     (if k \<notin> set (od_keys flds) then None
      else if k = ''next_hop'' then Some (PStr (nh_name hop))
      else if k = ''called_number'' then Some (PStr num)
      else map_of flds k)"
proof
  show "od_keys (with_attempt_fields flds hop num) = od_keys flds" by (rule keys_with_attempt_fields)
  have none: "map_of flds j = None \<longleftrightarrow> j \<notin> set (od_keys flds)" for j by (simp add: map_of_eq_None_iff)
  have upd: "map_of (AList.update j v f) i = (if i = j then Some v else map_of f i)" for i j v and f :: fields
    by (simp add: update_conv')
  show "map_of (with_attempt_fields flds hop num) k =
     (if k \<notin> set (od_keys flds) then None
      else if k = ''next_hop'' then Some (PStr (nh_name hop))
      else if k = ''called_number'' then Some (PStr num)
      else map_of flds k)"
    unfolding with_attempt_fields_def Let_def none [symmetric] by (simp add: upd)
qed

text \<open>
  C18: The headers copied to the outbound INVITE are, with their multiplicity, exactly the
  header fields of the trunk INVITE that are on the pass-through list (and none without a
  captured request); fields of the same name keep their wire order.
\<close>
theorem pass_through_exact:
  "mset (pass_through_headers (Some rq)) =
     filter_mset (\<lambda>h. fst h \<in> set PASSTHROUGH_HEADERS) (mset (rq_headers rq))
   \<and> map snd (filter (\<lambda>h. fst h = nm) (pass_through_headers (Some rq))) =
       (if nm \<in> set PASSTHROUGH_HEADERS then get_hf_bodys rq nm else [])
   \<and> pass_through_headers None = []"
proof -
  let ?one = "\<lambda>nm. map (\<lambda>b. (nm, b)) (get_hf_bodys rq nm)"
  have one: "?one nm = filter (\<lambda>h. fst h = nm) (rq_headers rq)" for nm
    unfolding get_hf_bodys_def by (induction "rq_headers rq") (auto simp: comp_def intro!: map_idI)
  have ms: "distinct nms \<Longrightarrow> mset (concat (map ?one nms)) =
      filter_mset (\<lambda>h. fst h \<in> set nms) (mset (rq_headers rq))" for nms
  proof (induction nms)
    case Nil
    then show ?case by simp
  next
    case (Cons nm nms)
    have "filter_mset (\<lambda>h. fst h \<in> set (nm # nms)) M =
        filter_mset (\<lambda>h. fst h = nm) M + filter_mset (\<lambda>h. fst h \<in> set nms) M" for M :: "(string \<times> string) multiset"
      using Cons.prems by (induction M) auto
    with Cons show ?case by (simp add: one)
  qed
  have sel: "distinct nms \<Longrightarrow> filter (\<lambda>h. fst h = nm) (concat (map ?one nms)) =
      (if nm \<in> set nms then ?one nm else [])" for nm nms
  proof (induction nms)
    case Nil
    then show ?case by simp
  next
    case (Cons x nms)
    have "filter (\<lambda>h. fst h = nm) (?one x) = (if x = nm then ?one nm else [])"
      by (auto simp: filter_map comp_def)
    with Cons show ?case by auto
  qed
  have d: "distinct PASSTHROUGH_HEADERS" by (simp add: PASSTHROUGH_HEADERS_def)
  show ?thesis
    using ms [OF d] sel [OF d, of nm] by (simp add: pass_through_headers_def comp_def)
qed

end
