(* ===== verification/CallMap.thy ===== *)
theory CallMap
  imports CallProperties
begin

text \<open>
  \<^verbatim>\<open>BaseCallMap\<close> of \<^verbatim>\<open>call_controller.py\<close>: the entry point of the trunk, its peer allowlist and
  the controllers it keeps. A reply the map generates itself is its status and phrase; a
  call that is handed to a controller is answered by sippy's user agent.
\<close>

record call_map =
  cm_conf :: gconf
  cm_allowed_peers :: "string list"
  cm_controllers :: "controller list"

datatype map_reply = Response int string | FromAgent

type_synonym mst = "call_map \<times> world"

definition mk_call_map :: "gconf \<Rightarrow> string list \<Rightarrow> call_map" where
  "mk_call_map g allowed = \<lparr>cm_conf = g, cm_allowed_peers = allowed, cm_controllers = []\<rparr>"

definition configured_next_hop :: "call_map \<Rightarrow> (string \<times> int) option" where
  "configured_next_hop m = gc_nh_addr (cm_conf m)"

definition peer_error :: "string \<Rightarrow> string \<Rightarrow> as_error" where
  "peer_error source meth = mk_as_error (skeleton_row PEER_NOT_ALLOWED)
     (Some (''source address '' @ source @ '' is not an allowed trunk peer'')) None
     (Some [(''source'', source), (''sip_method'', meth)])"

definition on_world_obs :: "'a obs_prog \<Rightarrow> (pyexc, mst, 'a) prog" where
  "on_world_obs p = (\<lambda>(m, w). case p (w_obs w) of (r, b) \<Rightarrow> (r, (m, w\<lparr>w_obs := b\<rparr>)))"

definition reject_peer :: "sip_request \<Rightarrow> string \<Rightarrow> string \<Rightarrow> (pyexc, mst, map_reply) prog" where
  "reject_peer rq source peer = bindp (block [
     on_world_obs (metrics_do (record_error (ec_code (skeleton_row PEER_NOT_ALLOWED)))),
     on_world_obs (obs_trace (rq_call_id rq) INBOUND (rq_method rq)
       ''403 forbidden: source is not an allowed trunk peer'' peer PNone [(''leg'', PStr LEG_TRUNK)]),
     on_world_obs (obs_log WARNING ''request rejected: source address is not an allowed trunk peer''
       ([(''call_id'', PStr (rq_call_id rq)), (''direction'', PStr INBOUND), (''peer'', PStr peer),
         (''method'', PStr (rq_method rq))]
        @ map (\<lambda>(k, v). (k, PStr v)) (as_log_fields (peer_error source (rq_method rq)))))])
     (\<lambda>_. ret (Response 403 ''Forbidden''))"

text \<open>\<^verbatim>\<open>_build_controller\<close> of the base class, which every application replaces.\<close>

definition base_build_controller :: "(string \<times> int) option \<Rightarrow> pyexc + controller" where
  "base_build_controller nh = Inl NotImplementedError"

text \<open>
  \<^verbatim>\<open>_new_controller\<close> and the two calls on it: the controller is remembered before it sees the
  request, so it stays in the list whatever its handler does.
\<close>

definition accept_call ::
    "((string \<times> int) option \<Rightarrow> pyexc + controller) \<Rightarrow> hooks \<Rightarrow> sip_request \<Rightarrow> (pyexc, mst, map_reply) prog" where
  "accept_call build hk rq = (\<lambda>(m, w).
     case build (configured_next_hop m) of
       Inl e \<Rightarrow> (Inl e, (m, w))
     | Inr c \<Rightarrow>
         (case block [capture_trunk_request rq, recv_request hk rq] (c, w) of
            (r, (c', w')) \<Rightarrow>
              (case r of Inl e \<Rightarrow> Inl e | Inr _ \<Rightarrow> Inr FromAgent,
               (m\<lparr>cm_controllers := cm_controllers m @ [c']\<rparr>, w'))))"

definition map_recv_request ::
    "((string \<times> int) option \<Rightarrow> pyexc + controller) \<Rightarrow> hooks \<Rightarrow> sip_request \<Rightarrow> (pyexc, mst, map_reply) prog" where
  "map_recv_request build hk rq = getp (\<lambda>(m, w).
     if \<not> is_allowed_peer (source_address rq) (cm_allowed_peers m)
     then reject_peer rq (source_address rq) (source_peer rq)
     else if rq_to_tag rq \<noteq> None then ret (Response 481 ''Call Leg/Transaction Does Not Exist'')
     else if rq_method rq \<noteq> ''INVITE'' then ret (Response 501 ''Not Implemented'')
     else accept_call build hk rq)"

text \<open>\<^verbatim>\<open>dispose\<close>: every controller in turn.\<close>

fun dispose_all :: "controller list \<Rightarrow> world \<Rightarrow> controller list \<times> world" where
  "dispose_all [] w = ([], w)"
| "dispose_all (c # cs) w =
     (case dispose (c, w) of (_, (c', w')) \<Rightarrow>
        (case dispose_all cs w' of (cs', w'') \<Rightarrow> (c' # cs', w'')))"

definition map_dispose :: "mst \<Rightarrow> mst" where
  "map_dispose s = (case s of (m, w) \<Rightarrow> (case dispose_all (cm_controllers m) w of
     (cs, w') \<Rightarrow> (m\<lparr>cm_controllers := cs\<rparr>, w')))"

section \<open>Facts\<close>

lemma bindp_world_metrics [run_simps]:
  "bindp (on_world_obs (metrics_do f)) g (m, w) = g () (m, wobs (counted f) w)"
  by (simp add: on_world_obs_def metrics_do_def bindp_def counted_def wobs_def)

lemma bindp_world_trace [run_simps]:
  "obs_ok (w_obs w) \<Longrightarrow> bindp (on_world_obs (obs_trace cid dir meth summ peer rid attrs)) g (m, w) =
     g () (m, wobs (traced cid dir meth summ peer rid attrs) w)"
  by (simp add: on_world_obs_def obs_trace_ok bindp_def wobs_def)

lemma bindp_world_log [run_simps]:
  "fields_clean kw \<Longrightarrow> bindp (on_world_obs (obs_log lev ev kw)) g (m, w) =
     g () (m, wobs (logged lev ev kw) w)"
  by (simp add: on_world_obs_def obs_log_ok bindp_def wobs_def)

definition peer_kwargs :: "sip_request \<Rightarrow> fields" where
  "peer_kwargs rq = [(''call_id'', PStr (rq_call_id rq)), (''direction'', PStr INBOUND),
     (''peer'', PStr (source_peer rq)), (''method'', PStr (rq_method rq)),
     (''error_code'', PStr ''AS-PEER-001''), (''sip_status'', PStr (int_str 403)),
     (''error_detail'', PStr (''source address '' @ source_address rq @ '' is not an allowed trunk peer'')),
     (''source'', PStr (source_address rq)), (''sip_method'', PStr (rq_method rq))]"

lemma peer_kwargs_eq:
  "[(''call_id'', PStr (rq_call_id rq)), (''direction'', PStr INBOUND), (''peer'', PStr (source_peer rq)),
    (''method'', PStr (rq_method rq))]
   @ map (\<lambda>(k, v). (k, PStr v)) (as_log_fields (peer_error (source_address rq) (rq_method rq))) = peer_kwargs rq"
  by (simp add: peer_kwargs_def as_log_fields_def peer_error_def mk_as_error_def as_sip_status_def)

lemma peer_kwargs_clean: "fields_clean (peer_kwargs rq)"
  by (simp add: fields_clean_iff peer_kwargs_def ctl_reserved_def reserved_attr_def RECORD_ATTRS_def)

lemma run_reject_peer:
  "obs_ok (w_obs w) \<Longrightarrow> reject_peer rq (source_address rq) (source_peer rq) (m, w) =
     (Inr (Response 403 ''Forbidden''), (m,
        wobs (logged WARNING ''request rejected: source address is not an allowed trunk peer'' (peer_kwargs rq))
       (wobs (traced (rq_call_id rq) INBOUND (rq_method rq)
          ''403 forbidden: source is not an allowed trunk peer'' (source_peer rq) PNone
          [(''leg'', PStr LEG_TRUNK)])
       (wobs (counted (record_error ''AS-PEER-001'')) w))))"
  by (simp add: reject_peer_def peer_kwargs_eq run_simps peer_kwargs_clean del: append_Cons append_Nil)

text \<open>
  C16: The trunk allowlist. A request whose source is not a configured peer (a request without
  a recorded source included, unless \<^verbatim>\<open>-\<close> itself is configured) is answered 403 before
  any call state exists: no controller, no user agent, no timer; exactly one AS-PEER-001
  error and no call is counted, one event is traced under its Call-ID, and a log line at
  warning names the source and the code.
\<close>
theorem peer_not_allowed_refused:
  assumes "source_address rq \<notin> set (cm_allowed_peers m)" "tracing (w_obs w)"
    and "ls_threshold (ob_log (w_obs w)) \<le> WARNING"
  shows "\<exists>w' line. map_recv_request build hk rq (m, w) = (Inr (Response 403 ''Forbidden''), (m, w'))
    \<and> w_sip w' = w_sip w \<and> w_timers w' = w_timers w \<and> w_conf w' = w_conf w
    \<and> ob_metrics (w_obs w') = record_error ''AS-PEER-001'' (ob_metrics (w_obs w))
    \<and> map te_method (trace_of (rq_call_id rq) (w_obs w')) =
        map te_method (trace_of (rq_call_id rq) (w_obs w)) @ [rq_method rq]
    \<and> ls_lines (ob_log (w_obs w')) = ls_lines (ob_log (w_obs w)) @ [line]
    \<and> ll_level line = WARNING \<and> map_of (ll_extra line) ''error_code'' = Some (PStr ''AS-PEER-001'')
    \<and> map_of (ll_extra line) ''source'' = Some (PStr (source_address rq))"
proof -
  have ok: "obs_ok (w_obs w)" using assms(2) by (rule tracing_ok)
  have run: "map_recv_request build hk rq (m, w) = reject_peer rq (source_address rq) (source_peer rq) (m, w)"
    using assms(1) by (simp add: map_recv_request_def is_allowed_peer_def)
  have clean: "log_kwargs_ok (peer_kwargs rq)" "\<not> list_ex reserved_attr (od_keys (log_extra (peer_kwargs rq)))"
    using peer_kwargs_clean [of rq] fields_clean_extra by (simp_all add: fields_clean_def)
  have d: "distinct (od_keys (peer_kwargs rq))" using clean(1) by (rule log_kwargs_okD)
  have look: "map_of (log_extra (peer_kwargs rq)) ''error_code'' = Some (PStr ''AS-PEER-001'')"
    "map_of (log_extra (peer_kwargs rq)) ''source'' = Some (PStr (source_address rq))"
    unfolding log_extra_lookup [OF d] by (simp_all add: peer_kwargs_def)
  have lines: "ls_lines (ob_log (logged WARNING ev (peer_kwargs rq) b)) =
      ls_lines (ob_log b) @ [\<lparr>ll_level = WARNING, ll_module = ''call_controller'', ll_event = ev,
        ll_extra = log_extra (peer_kwargs rq)\<rparr>]"
    if "ls_threshold (ob_log b) \<le> WARNING" for ev b
    using that clean by (simp add: logged_def log_event_run)
  show ?thesis
    unfolding run run_reject_peer [OF ok]
    using assms(2,3) look by (simp add: lines trace_of_traced the_event_def)
qed

theorem peer_not_allowed_refused_witness:
  "\<exists>w'. map_recv_request (\<lambda>nh. Inl NotImplementedError) base_hooks sample_request
      (mk_call_map sample_conf [''192.0.2.1''], sample_world) =
      (Inr (Response 403 ''Forbidden''), (mk_call_map sample_conf [''192.0.2.1''], w'))
    \<and> mr_errors_by_code (ob_metrics (w_obs w')) = [(''AS-PEER-001'', 1)]"
proof -
  have "source_address sample_request \<notin> set (cm_allowed_peers (mk_call_map sample_conf [''192.0.2.1'']))"
    by (simp add: source_address_def sample_request_def mk_call_map_def)
  moreover have "ls_threshold (ob_log (w_obs sample_world)) \<le> WARNING"
    "ob_metrics (w_obs sample_world) = empty_registry"
    by (simp_all add: sample_world_def sample_obs_def)
  ultimately show ?thesis
    using peer_not_allowed_refused [OF _ sample_tracing(2), of sample_request
        "mk_call_map sample_conf [''192.0.2.1'']" "\<lambda>nh. Inl NotImplementedError" base_hooks]
    by (fastforce simp: record_error_def empty_registry_def counter_add_def counter_get_def)
qed

text \<open>The admission of an INVITE, as an equation.\<close>

lemma run_admission:
  assumes "source_address rq \<in> set (cm_allowed_peers m)" "rq_to_tag rq = None" "rq_method rq = ''INVITE''"
    and "build (gc_nh_addr (cm_conf m)) = Inr c" "obs_ok (w_obs w)"
    and "hk_inbound_fields hk rq = Inr f" "fields_clean (relay_kwargs [] [] f)"
  shows "map_recv_request build hk rq (m, w) =
    (Inr FromAgent, (m\<lparr>cm_controllers := cm_controllers m @ [answered rq w (c\<lparr>bc_trunk_request := Some rq\<rparr>)]\<rparr>,
       answered_world rq (answered rq w (c\<lparr>bc_trunk_request := Some rq\<rparr>)) f w))"
proof -
  have "map_recv_request build hk rq (m, w) = accept_call build hk rq (m, w)"
    using assms(1-3) by (simp add: map_recv_request_def is_allowed_peer_def)
  also have "\<dots> = (Inr FromAgent,
      (m\<lparr>cm_controllers := cm_controllers m @ [answered rq w (c\<lparr>bc_trunk_request := Some rq\<rparr>)]\<rparr>,
       answered_world rq (answered rq w (c\<lparr>bc_trunk_request := Some rq\<rparr>)) f w))"
    using assms(4-) by (simp add: accept_call_def configured_next_hop_def capture_trunk_request_def
        bindp_unit_ret bindp_ret_right run_recv_request)
  finally show ?thesis .
qed

lemma trunk_refusals:
  assumes "source_address rq \<in> set (cm_allowed_peers m)"
  shows "rq_to_tag rq \<noteq> None \<Longrightarrow> map_recv_request build hk rq (m, w) =
            (Inr (Response 481 ''Call Leg/Transaction Does Not Exist''), (m, w))"
    and "rq_to_tag rq = None \<Longrightarrow> rq_method rq \<noteq> ''INVITE'' \<Longrightarrow> map_recv_request build hk rq (m, w) =
            (Inr (Response 501 ''Not Implemented''), (m, w))"
  using assms by (simp_all add: map_recv_request_def is_allowed_peer_def)

text \<open>
  C17: Admission from an allowed peer. A request inside a dialog is answered 481 and a request
  other than INVITE 501, with nothing changed; an INVITE that opens a dialog adds exactly
  one controller behind the known ones (which stay as they are): the application's, for
  the configured hop, having captured the INVITE and answered it on a leg of its own, and
  the call is counted.
\<close>
theorem trunk_admission:
  assumes "source_address rq \<in> set (cm_allowed_peers m)"
  shows "(rq_to_tag rq \<noteq> None \<longrightarrow> map_recv_request build hk rq (m, w) =
            (Inr (Response 481 ''Call Leg/Transaction Does Not Exist''), (m, w)))
    \<and> (rq_to_tag rq = None \<and> rq_method rq \<noteq> ''INVITE'' \<longrightarrow> map_recv_request build hk rq (m, w) =
            (Inr (Response 501 ''Not Implemented''), (m, w)))
    \<and> (rq_to_tag rq = None \<and> rq_method rq = ''INVITE'' \<and> build (gc_nh_addr (cm_conf m)) = Inr c
         \<and> obs_ok (w_obs w) \<and> inbound_ok hk rq \<longrightarrow>
         (\<exists>c' w'. map_recv_request build hk rq (m, w) =
              (Inr FromAgent, (m\<lparr>cm_controllers := cm_controllers m @ [c']\<rparr>, w'))
          \<and> bc_trunk_request c' = Some rq \<and> bc_call_id c' = rq_call_id rq
          \<and> bc_uaA c' = Some (w_next_id w) \<and> bc_uaO c' = bc_uaO c
          \<and> last (w_sip w') = UaRecvRequest (w_next_id w) rq (pinned_identity (bc_conf c) (w_conf w))
          \<and> w_conf w' = w_conf w
          \<and> mr_calls_total (ob_metrics (w_obs w')) = mr_calls_total (ob_metrics (w_obs w)) + 1))"
proof (intro conjI impI)
  assume "rq_to_tag rq \<noteq> None"
  then show "map_recv_request build hk rq (m, w) =
      (Inr (Response 481 ''Call Leg/Transaction Does Not Exist''), (m, w))"
    by (rule trunk_refusals(1) [OF assms])
next
  assume "rq_to_tag rq = None \<and> rq_method rq \<noteq> ''INVITE''"
  then show "map_recv_request build hk rq (m, w) = (Inr (Response 501 ''Not Implemented''), (m, w))"
    using trunk_refusals(2) [OF assms] by blast
next
  assume a: "rq_to_tag rq = None \<and> rq_method rq = ''INVITE'' \<and> build (gc_nh_addr (cm_conf m)) = Inr c
         \<and> obs_ok (w_obs w) \<and> inbound_ok hk rq"
  then obtain f where f: "hk_inbound_fields hk rq = Inr f" "fields_clean (relay_kwargs [] [] f)"
    by (auto simp: inbound_ok_def split: sum.splits)
  let ?c0 = "c\<lparr>bc_trunk_request := Some rq\<rparr>"
  let ?c = "answered rq w ?c0"
  have run: "map_recv_request build hk rq (m, w) =
      (Inr FromAgent, (m\<lparr>cm_controllers := cm_controllers m @ [?c]\<rparr>, answered_world rq ?c f w))"
    by (intro run_admission assms) (use a f in simp_all)
  show "\<exists>c' w'. map_recv_request build hk rq (m, w) =
              (Inr FromAgent, (m\<lparr>cm_controllers := cm_controllers m @ [c']\<rparr>, w'))
          \<and> bc_trunk_request c' = Some rq \<and> bc_call_id c' = rq_call_id rq
          \<and> bc_uaA c' = Some (w_next_id w) \<and> bc_uaO c' = bc_uaO c
          \<and> last (w_sip w') = UaRecvRequest (w_next_id w) rq (pinned_identity (bc_conf c) (w_conf w))
          \<and> w_conf w' = w_conf w
          \<and> mr_calls_total (ob_metrics (w_obs w')) = mr_calls_total (ob_metrics (w_obs w)) + 1"
    unfolding run
    by (rule exI [of _ ?c], rule exI [of _ "answered_world rq ?c f w"])
       (simp add: answered_world_def inbound_obs_def, simp add: answered_def metric_op_defs)
qed

theorem trunk_admission_witness:
  "\<exists>c' w'. map_recv_request (\<lambda>nh. Inr (mk_controller sample_conf nh)) base_hooks sample_request
      (mk_call_map sample_conf [''10.0.0.2''], sample_world) =
      (Inr FromAgent, ((mk_call_map sample_conf [''10.0.0.2''])\<lparr>cm_controllers := [c']\<rparr>, w'))
    \<and> bc_call_id c' = ''c1''"
proof -
  have "source_address sample_request \<in> set (cm_allowed_peers (mk_call_map sample_conf [''10.0.0.2'']))"
    by (simp add: source_address_def sample_request_def mk_call_map_def)
  moreover have "rq_to_tag sample_request = None" "rq_method sample_request = ''INVITE''"
    "rq_call_id sample_request = ''c1''" "cm_controllers (mk_call_map sample_conf [''10.0.0.2'']) = []"
    by (simp_all add: sample_request_def mk_call_map_def)
  moreover have "inbound_ok base_hooks sample_request"
    by (simp add: inbound_ok_def base_hooks_def fields_clean_iff relay_kwargs_def)
  ultimately show ?thesis
    using trunk_admission [of sample_request "mk_call_map sample_conf [''10.0.0.2'']"
        "\<lambda>nh. Inr (mk_controller sample_conf nh)" base_hooks sample_world
        "mk_controller sample_conf (gc_nh_addr (cm_conf (mk_call_map sample_conf [''10.0.0.2''])))"]
    by (fastforce simp: sample_tracing(4))
qed

lemma bare_map_raises:
  "source_address rq \<in> set (cm_allowed_peers m) \<Longrightarrow> rq_to_tag rq = None \<Longrightarrow> rq_method rq = ''INVITE'' \<Longrightarrow>
   map_recv_request base_build_controller hk rq (m, w) = (Inl NotImplementedError, (m, w))"
  by (simp add: map_recv_request_def is_allowed_peer_def accept_call_def base_build_controller_def)

lemma dispose_all_spec:
  "map bc_no_answer_timer (fst (dispose_all cs w)) = replicate (length cs) None
   \<and> w_timers (snd (dispose_all cs w)) = filter (\<lambda>x. Some (fst x) \<notin> bc_no_answer_timer ` set cs) (w_timers w)
   \<and> w_sip (snd (dispose_all cs w)) = w_sip w"
proof (induction cs arbitrary: w)
  case Nil
  then show ?case by simp
next
  case (Cons c cs)
  obtain cs' w' where r: "dispose_all cs (timer_dropped c w) = (cs', w')"
    by (cases "dispose_all cs (timer_dropped c w)")
  have step: "dispose_all (c # cs) w = (c\<lparr>bc_no_answer_timer := None\<rparr> # cs', w')"
    by (simp add: dispose_def run_simps r)
  show ?case
    unfolding step using Cons.IH [of "timer_dropped c w"] r
    by (auto simp: filter_filter intro!: filter_cong)
qed

lemma dispose_all_idle:
  "map bc_no_answer_timer cs = replicate (length cs) None \<Longrightarrow> dispose_all cs w = (cs, w)"
proof (induction cs)
  case Nil
  then show ?case by simp
next
  case (Cons c cs)
  then have "dispose (c, w) = (Inr (), (c, w))"
    by (simp add: dispose_def cancel_no_answer_timer_def)
  with Cons show ?case by simp
qed

lemma map_dispose_spec:
  assumes "map_dispose (m, w) = (m', w')"
  shows "map bc_no_answer_timer (cm_controllers m') = replicate (length (cm_controllers m)) None"
    and "w_timers w' = filter (\<lambda>x. Some (fst x) \<notin> bc_no_answer_timer ` set (cm_controllers m)) (w_timers w)"
    and "w_sip w' = w_sip w" and "map_dispose (m', v) = (m', v)"
proof -
  note d = dispose_all_spec [of "cm_controllers m" w]
  obtain cs v' where c: "dispose_all (cm_controllers m) w = (cs, v')" by (cases "dispose_all (cm_controllers m) w")
  then have e: "m' = m\<lparr>cm_controllers := cs\<rparr>" "w' = v'" using assms by (simp_all add: map_dispose_def)
  show 1: "map bc_no_answer_timer (cm_controllers m') = replicate (length (cm_controllers m)) None"
    "w_timers w' = filter (\<lambda>x. Some (fst x) \<notin> bc_no_answer_timer ` set (cm_controllers m)) (w_timers w)"
    "w_sip w' = w_sip w"
    using d c by (simp_all add: e)
  have "length cs = length (cm_controllers m)" using 1(1) by (metis length_map length_replicate e(1) call_map.select_convs(3) call_map.update_convs(3) call_map.surjective)
  then show "map_dispose (m', v) = (m', v)"
    using 1(1) dispose_all_idle [of cs v] by (simp add: map_dispose_def e)
qed

text \<open>
  Disposal. When the stack stops, every controller the map knows gives up its no-answer
  timer: no controller holds one afterwards, exactly the timers the controllers held are
  disarmed, and nothing is sent.
\<close>
lemma dispose_disarms_held_timers:
  "map bc_no_answer_timer (cm_controllers (fst (map_dispose (m, w)))) =
     replicate (length (cm_controllers m)) None
   \<and> w_timers (snd (map_dispose (m, w))) =
       filter (\<lambda>x. Some (fst x) \<notin> bc_no_answer_timer ` set (cm_controllers m)) (w_timers w)
   \<and> w_sip (snd (map_dispose (m, w))) = w_sip w"
  using map_dispose_spec by (cases "map_dispose (m, w)") simp

end
