(* ===== verification/JsonDoc.thy ===== *)
theory JsonDoc
  imports AsErrors
begin

text \<open>
  JSON documents and the two functions of Python's \<^verbatim>\<open>json\<close> module the platform uses,
  \<^verbatim>\<open>dumps(v, default=str)\<close> and \<^verbatim>\<open>loads\<close>, on the Python values a record can hold. A text is
  the document it parses to; an object in a text may repeat a key. A float is the rational
  number it stands for; float keys and the non-finite floats are left out.
\<close>

datatype json =
    JNull
  | JBool bool
  | JInt int
  | JNum rat
  | JStr string
  | JList "json list"
  | JObj "(string \<times> json) list"

datatype dict_key = KStr string | KInt int | KBool bool | KNone | KOther

text \<open>\<open>OOther s\<close> is any other object, \<open>s\<close> its \<^verbatim>\<open>str()\<close>.\<close>

datatype pyobj =
    ONone
  | OBool bool
  | OInt int
  | OFloat rat
  | OStr string
  | OList "pyobj list"
  | OTuple "pyobj list"
  | ODict "(dict_key \<times> pyobj) list"
  | OOther string

fun key_text :: "dict_key \<Rightarrow> pyexc + string" where
  "key_text (KStr s) = Inr s"
| "key_text (KInt i) = Inr (int_str i)"
| "key_text (KBool b) = Inr (if b then ''true'' else ''false'')"
| "key_text KNone = Inr ''null''"
| "key_text KOther = Inl TypeError"

fun dumps :: "pyobj \<Rightarrow> pyexc + json"
  and dumps_list :: "pyobj list \<Rightarrow> pyexc + json list"
  and dumps_items :: "(dict_key \<times> pyobj) list \<Rightarrow> pyexc + (string \<times> json) list" where
  "dumps ONone = Inr JNull"
| "dumps (OBool b) = Inr (JBool b)"
| "dumps (OInt i) = Inr (JInt i)"
| "dumps (OFloat q) = Inr (JNum q)"
| "dumps (OStr s) = Inr (JStr s)"
| "dumps (OList xs) = (case dumps_list xs of Inl e \<Rightarrow> Inl e | Inr js \<Rightarrow> Inr (JList js))"
| "dumps (OTuple xs) = (case dumps_list xs of Inl e \<Rightarrow> Inl e | Inr js \<Rightarrow> Inr (JList js))"
| "dumps (ODict kvs) = (case dumps_items kvs of Inl e \<Rightarrow> Inl e | Inr js \<Rightarrow> Inr (JObj js))"
| "dumps (OOther s) = Inr (JStr s)"
| "dumps_list [] = Inr []"
| "dumps_list (x # xs) = (case dumps x of Inl e \<Rightarrow> Inl e
     | Inr j \<Rightarrow> (case dumps_list xs of Inl e \<Rightarrow> Inl e | Inr js \<Rightarrow> Inr (j # js)))"
| "dumps_items [] = Inr []"
| "dumps_items ((k, v) # kvs) = (case key_text k of Inl e \<Rightarrow> Inl e
     | Inr t \<Rightarrow> (case dumps v of Inl e \<Rightarrow> Inl e
     | Inr j \<Rightarrow> (case dumps_items kvs of Inl e \<Rightarrow> Inl e | Inr js \<Rightarrow> Inr ((t, j) # js))))"

text \<open>A repeated key keeps its first place and its last value.\<close>

fun loads :: "json \<Rightarrow> pyobj"
  and loads_list :: "json list \<Rightarrow> pyobj list"
  and loads_items :: "(string \<times> json) list \<Rightarrow> (dict_key \<times> pyobj) list" where
  "loads JNull = ONone"
| "loads (JBool b) = OBool b"
| "loads (JInt i) = OInt i"
| "loads (JNum q) = OFloat q"
| "loads (JStr s) = OStr s"
| "loads (JList js) = OList (loads_list js)"
| "loads (JObj kjs) = ODict (od_update [] (loads_items kjs))"
| "loads_list [] = []"
| "loads_list (j # js) = loads j # loads_list js"
| "loads_items [] = []"
| "loads_items ((k, j) # kjs) = (KStr k, loads j) # loads_items kjs"

text \<open>The values a JSON text can stand for.\<close>

fun is_str_key :: "dict_key \<Rightarrow> bool" where
  "is_str_key (KStr _) = True"
| "is_str_key _ = False"

fun json_plain :: "pyobj \<Rightarrow> bool" where
  "json_plain (OList xs) = list_all json_plain xs"
| "json_plain (OTuple xs) = False"
| "json_plain (ODict kvs) \<longleftrightarrow> distinct (map fst kvs) \<and> list_all (\<lambda>(k, v). is_str_key k \<and> json_plain v) kvs"
| "json_plain (OOther s) = False"
| "json_plain _ = True"

section \<open>Facts\<close>

lemma od_update_append: "distinct (od_keys (d @ e)) \<Longrightarrow> od_update d e = d @ e"
proof (induction e arbitrary: d)
  case Nil
  then show ?case by simp
next
  case (Cons kv e)
  obtain k v where kv: "kv = (k, v)" by (cases kv)
  have "k \<notin> set (od_keys d)" using Cons.prems by (auto simp: kv)
  then have "AList.update k v d = d @ [(k, v)]" by (induction d) auto
  then show ?case using Cons.IH [of "d @ [(k, v)]"] Cons.prems by (simp add: kv)
qed

lemma list_roundtrip:
  "(\<And>x. x \<in> set xs \<Longrightarrow> \<exists>j. dumps x = Inr j \<and> loads j = x) \<Longrightarrow>
   \<exists>js. dumps_list xs = Inr js \<and> loads_list js = xs"
proof (induction xs)
  case (Cons x xs)
  obtain j where "dumps x = Inr j" "loads j = x" using Cons.prems [of x] by auto
  moreover obtain js where "dumps_list xs = Inr js" "loads_list js = xs" using Cons by auto
  ultimately show ?case by simp
qed simp

lemma items_roundtrip:
  "(\<And>k v. (k, v) \<in> set kvs \<Longrightarrow> is_str_key k \<and> (\<exists>j. dumps v = Inr j \<and> loads j = v)) \<Longrightarrow>
   \<exists>js. dumps_items kvs = Inr js \<and> loads_items js = kvs"
proof (induction kvs)
  case (Cons kv kvs)
  obtain k v where kv: "kv = (k, v)" by (cases kv)
  have "is_str_key k \<and> (\<exists>j. dumps v = Inr j \<and> loads j = v)" using Cons.prems [of k v] by (simp add: kv)
  then obtain t j where "k = KStr t" "dumps v = Inr j" "loads j = v" by (cases k) auto
  moreover obtain js where "dumps_items kvs = Inr js" "loads_items js = kvs" using Cons by auto
  ultimately show ?case by (simp add: kv)
qed simp

lemma plain_roundtrip: "json_plain v \<Longrightarrow> \<exists>j. dumps v = Inr j \<and> loads j = v"
proof (induction v)
  case (OList xs)
  then obtain js where "dumps_list xs = Inr js" "loads_list js = xs"
    using list_roundtrip [of xs] by (auto simp: list_all_iff)
  then show ?case by simp
next
  case (ODict kvs)
  have "is_str_key k \<and> (\<exists>j. dumps v = Inr j \<and> loads j = v)" if "(k, v) \<in> set kvs" for k v
    using ODict.IH [OF that, of v] ODict.prems that by (auto simp: list_all_iff)
  then obtain js where js: "dumps_items kvs = Inr js" "loads_items js = kvs"
    using items_roundtrip [of kvs] by auto
  have "od_update [] kvs = kvs" using ODict.prems od_update_append [of "[]" kvs] by simp
  with js show ?case by simp
qed simp_all

lemma values_update:
  "list_all (\<lambda>(k, v). P k v) d \<Longrightarrow> P k v \<Longrightarrow> list_all (\<lambda>(k, v). P k v) (AList.update k v d)"
  by (induction d) auto

lemma values_od_update:
  "list_all (\<lambda>(k, v). P k v) d \<Longrightarrow> list_all (\<lambda>(k, v). P k v) e \<Longrightarrow> list_all (\<lambda>(k, v). P k v) (od_update d e)"
proof (induction e arbitrary: d)
  case (Cons kv e)
  obtain k v where kv: "kv = (k, v)" by (cases kv)
  have "list_all (\<lambda>(k, v). P k v) (AList.update k v d)"
    by (rule values_update) (use Cons.prems kv in simp_all)
  then show ?case using Cons kv by simp
qed simp

lemma loads_plain:
  "json_plain (loads j)" "list_all json_plain (loads_list js)"
  "list_all (\<lambda>(k, v). is_str_key k \<and> json_plain v) (loads_items kjs)"
proof (induction j and js and kjs rule: loads_loads_list_loads_items.induct)
  case (7 kjs)
  then show ?case
    using values_od_update [of "\<lambda>k v. is_str_key k \<and> json_plain v" "[]" "loads_items kjs"]
      od_wf_od_update [of "[]" "loads_items kjs"]
    by (simp add: od_wf_def)
qed simp_all

end
