(* ===== verification/InternalApi.thy ===== *)
theory InternalApi
  imports AsMetrics AsTracing SipAdapter JsonDoc
begin

text \<open>
  The internal API of \<^verbatim>\<open>internal_api.py\<close>: the payload builders, the route handlers that read
  the registries, the polling of the event feed and the server's thread bookkeeping.
  FastAPI, uvicorn and the JSON encoder are third-party: a handler's result is its status
  and its document. A float is the rational number it stands for.
\<close>

section \<open>Documents\<close>

fun json_of_pyval :: "pyval \<Rightarrow> json" where
  "json_of_pyval PNone = JNull"
| "json_of_pyval (PBool b) = JBool b"
| "json_of_pyval (PInt i) = JInt i"
| "json_of_pyval (PStr s) = JStr s"

definition json_of_fields :: "fields \<Rightarrow> json" where
  "json_of_fields f = JObj (map (\<lambda>(k, v). (k, json_of_pyval v)) f)"

definition json_of_counter :: "counter \<Rightarrow> json" where
  "json_of_counter c = JObj (map (\<lambda>(k, n). (k, JInt n)) c)"

text \<open>\<^verbatim>\<open>round(x, 3)\<close>: to the nearest thousandth, ties to the even one.\<close>

definition round_half_even :: "rat \<Rightarrow> int" where
  "round_half_even x =
     (let f = \<lfloor>x\<rfloor>; d = x - of_int f
      in if d < 1 / 2 then f else if 1 / 2 < d then f + 1 else if even f then f else f + 1)"

definition round3 :: "rat \<Rightarrow> rat" where
  "round3 x = of_int (round_half_even (1000 * x)) / 1000"

definition health_payload ::
    "string \<Rightarrow> rat \<Rightarrow> bool \<Rightarrow> string \<Rightarrow> (string, json) odict option \<Rightarrow> (string, json) odict" where
  "health_payload version uptime_seconds ready instance extra = od_update
     [(''status'', JStr (if ready then ''ok'' else ''degraded'')),
      (''instance'', JStr instance),
      (''version'', JStr version),
      (''uptime_seconds'', JNum (round3 uptime_seconds)),
      (''rule_set_loaded'', JBool ready)]
     (case extra of None \<Rightarrow> [] | Some e \<Rightarrow> e)"

definition metrics_payload :: "metrics_registry \<Rightarrow> (string, json) odict" where
  "metrics_payload registry =
     (let s = snapshot registry in
      [(''calls_total'', JInt (ms_calls_total s)),
       (''calls_by_disposition'', json_of_counter (ms_calls_by_disposition s)),
       (''errors_by_code'', json_of_counter (ms_errors_by_code s)),
       (''rule_hits'', json_of_counter (ms_rule_hits s)),
       (''peer_status'', JObj (map (\<lambda>(k, v). (k, JStr v)) (ms_peer_status s))),
       (''counters'', json_of_counter (ms_counters s))])"

definition event_payload :: "(int \<Rightarrow> string) \<Rightarrow> trace_event \<Rightarrow> (string, json) odict" where
  "event_payload isoformat e =
     [(''timestamp'', JStr (isoformat (te_timestamp e))),
      (''call_id'', JStr (te_call_id e)),
      (''direction'', JStr (te_direction e)),
      (''method'', JStr (te_method e)),
      (''peer'', JStr (te_peer e)),
      (''summary'', JStr (te_summary e)),
      (''rule_id'', json_of_pyval (te_rule_id e)),
      (''attributes'', json_of_fields (te_attributes e))]"

definition trace_payload :: "(int \<Rightarrow> string) \<Rightarrow> call_trace \<Rightarrow> (string, json) odict" where
  "trace_payload isoformat t =
     [(''call_id'', JStr (ct_call_id t)),
      (''events'', JList (map (\<lambda>e. JObj (event_payload isoformat e)) (ct_events t)))]"

definition traces_payload :: "(int \<Rightarrow> string) \<Rightarrow> trace_recorder \<Rightarrow> int \<Rightarrow> (string, json) odict" where
  "traces_payload isoformat recorder limit =
     [(''calls'', JList (map (\<lambda>t. JObj (trace_payload isoformat t)) (recent limit recorder)))]"

definition message_json :: "recorded_sip_message \<Rightarrow> json" where
  "message_json m = JObj [(''direction'', JStr (sm_direction m)), (''peer'', JStr (sm_peer m)),
     (''call_id'', JStr (sm_call_id m)), (''text'', JStr (sm_text m))]"

definition messages_payload :: "string \<Rightarrow> sip_message_recorder \<Rightarrow> (string, json) odict" where
  "messages_payload trunk_call_id sip_recorder =
     (let outbound_id = outbound_call_id trunk_call_id in
      [(''call_id'', JStr trunk_call_id),
       (''outbound_call_id'', JStr outbound_id),
       (''messages'', JList (map message_json
          (messages_for_any [trunk_call_id, outbound_id] sip_recorder)))])"

section \<open>Routes\<close>

text \<open>What the application's provider reports at the time of the request.\<close>

record provider =
  pr_instance :: string
  pr_ready :: bool
  pr_health_extra :: "(string, json) odict"
  pr_resource :: "json option"
  pr_resource_missing :: string

record api_app =
  aa_version :: string
  aa_started_at :: rat
  aa_sip_recorder :: "sip_message_recorder option"

datatype route = Healthz | Metrics | Resource | Traces | Trace string | TraceMessages string

definition api_get ::
    "(int \<Rightarrow> string) \<Rightarrow> rat \<Rightarrow> api_app \<Rightarrow> provider \<Rightarrow> metrics_registry \<Rightarrow> trace_recorder \<Rightarrow> route \<Rightarrow> int \<times> json" where
  "api_get isoformat now app p metrics tracer rt =
     (case rt of
        Healthz \<Rightarrow> (200, JObj (health_payload (aa_version app) (now - aa_started_at app) (pr_ready p)
                      (pr_instance p) (Some (pr_health_extra p))))
      | Metrics \<Rightarrow> (200, JObj (metrics_payload metrics))
      | Resource \<Rightarrow> (case pr_resource p of
                        None \<Rightarrow> (503, JObj [(''error'', JStr (pr_resource_missing p))])
                      | Some r \<Rightarrow> (200, r))
      | Traces \<Rightarrow> (200, JObj (traces_payload isoformat tracer 20))
      | Trace cid \<Rightarrow> (200, JObj (trace_payload isoformat (trace_for cid tracer)))
      | TraceMessages cid \<Rightarrow>
          (200, JObj (case aa_sip_recorder app of
             None \<Rightarrow> [(''call_id'', JStr cid), (''outbound_call_id'', JStr (outbound_call_id cid)),
                      (''messages'', JList [])]
           | Some r \<Rightarrow> messages_payload cid r)))"

section \<open>The event feed\<close>

definition WS_MAX_TRACES :: int where "WS_MAX_TRACES = 50"

text \<open>
  One round of \<^verbatim>\<open>ws_events\<close>: the Call-IDs seen so far, the recorder when the Call-IDs are read
  and the recorder when the traces are read (the lock is free in between). The result is
  the new set of seen Call-IDs and the batch sent, if any.
\<close>

definition feed_poll ::
    "string list \<Rightarrow> trace_recorder \<Rightarrow> trace_recorder \<Rightarrow> string list \<times> call_trace list option" where
  "feed_poll seen r_ids r_traces =
     (let current_ids = known_call_ids r_ids;
          new_ids = filter (\<lambda>c. c \<notin> set seen) current_ids
      in if new_ids = [] then (seen, None)
         else (current_ids, Some (filter (\<lambda>t. ct_call_id t \<in> set new_ids) (recent WS_MAX_TRACES r_traces))))"

fun feed_run :: "string list \<Rightarrow> trace_recorder list \<Rightarrow> call_trace list list" where
  "feed_run seen [] = []"
| "feed_run seen (r # rs) =
     (case feed_poll seen r r of
        (seen', None) \<Rightarrow> [] # feed_run seen' rs
      | (seen', Some batch) \<Rightarrow> batch # feed_run seen' rs)"

text \<open>What goes over the socket: one message per round that found something new.\<close>

definition feed_message :: "(int \<Rightarrow> string) \<Rightarrow> call_trace list \<Rightarrow> json" where
  "feed_message isoformat batch =
     JObj [(''type'', JStr ''traces''),
           (''traces'', JList (map (\<lambda>t. JObj (trace_payload isoformat t)) batch))]"

fun feed_messages :: "(int \<Rightarrow> string) \<Rightarrow> string list \<Rightarrow> trace_recorder list \<Rightarrow> json list" where
  "feed_messages isoformat seen [] = []"
| "feed_messages isoformat seen (r # rs) =
     (case feed_poll seen r r of
        (seen', None) \<Rightarrow> feed_messages isoformat seen' rs
      | (seen', Some batch) \<Rightarrow> feed_message isoformat batch # feed_messages isoformat seen' rs)"

section \<open>The server thread\<close>

record api_server =
  as_server :: "nat option"
  as_thread :: "nat option"

text \<open>The uvicorn servers that run, those told to exit, and an unused number.\<close>

record api_host =
  ah_running :: "nat list"
  ah_exiting :: "nat list"
  ah_next :: nat

definition server_start :: "api_server \<times> api_host \<Rightarrow> api_server \<times> api_host" where
  "server_start s = (case s of (a, h) \<Rightarrow>
     (a\<lparr>as_server := Some (ah_next h), as_thread := Some (ah_next h)\<rparr>,
      h\<lparr>ah_running := ah_running h @ [ah_next h], ah_next := ah_next h + 1\<rparr>))"

definition server_stop :: "api_server \<times> api_host \<Rightarrow> api_server \<times> api_host" where
  "server_stop s = (case s of (a, h) \<Rightarrow>
     (a\<lparr>as_server := None, as_thread := None\<rparr>,
      (case as_server a of None \<Rightarrow> h | Some n \<Rightarrow> h\<lparr>ah_exiting := ah_exiting h @ [n]\<rparr>)))"

section \<open>Facts\<close>

lemma round_half_even_near: "\<bar>of_int (round_half_even x) - x\<bar> \<le> 1 / 2"
proof -
  have "0 \<le> x - of_int \<lfloor>x\<rfloor>" "x - of_int \<lfloor>x\<rfloor> < 1" by linarith+
  then show ?thesis by (auto simp: round_half_even_def Let_def abs_if) linarith+
qed

lemma recent_ids: "map ct_call_id (recent limit r) = py_take limit (known_call_ids r)"
  by (auto simp: recent_def known_call_ids_def py_take_def comp_def case_prod_beta rev_map take_map
      length_map)

lemma recent_events:
  assumes "tracer_ok r" and "t \<in> set (recent limit r)"
  shows "t = trace_for (ct_call_id t) r"
proof -
  obtain cid evs where t: "t = \<lparr>ct_call_id = cid, ct_events = evs\<rparr>" "(cid, evs) \<in> set (tr_traces r)"
    using assms(2) by (auto simp: recent_def py_take_def split: if_splits dest: in_set_takeD)
  then have "map_of (tr_traces r) cid = Some evs"
    using assms(1) by (simp add: tracer_ok_def od_wf_def)
  with t show ?thesis by (simp add: trace_for_def odict_get_def)
qed

lemma feed_seen_silent:
  "cid \<in> set seen \<Longrightarrow> list_all (\<lambda>r. cid \<in> set (known_call_ids r)) rs \<Longrightarrow>
   cid \<notin> ct_call_id ` set (concat (feed_run seen rs))"
proof (induction rs arbitrary: seen)
  case Nil
  then show ?case by simp
next
  case (Cons r rs)
  have "cid \<in> set (known_call_ids r)" "list_all (\<lambda>r. cid \<in> set (known_call_ids r)) rs"
    using Cons.prems(2) by simp_all
  with Cons.IH [of seen] Cons.IH [of "known_call_ids r"] Cons.prems(1) show ?case
    by (auto simp: feed_poll_def Let_def)
qed

text \<open>
  The console's view of one call. The messages route of a call lists exactly the captured
  messages of its two legs, in capture order, and nothing of another call; without a
  recorder it answers the same document with no messages; the trace route lists exactly
  the recorded events of the call, and an unloaded resource is a 503 with its text.
\<close>
lemma api_views_exact:
  "api_get fmt now app p metrics tracer (TraceMessages cid) =
     (200, JObj [(''call_id'', JStr cid), (''outbound_call_id'', JStr (cid @ ''-b2b_1'')),
        (''messages'', JList (map message_json
           (case aa_sip_recorder app of None \<Rightarrow> []
            | Some r \<Rightarrow> filter (\<lambda>m. sm_call_id m = cid \<or> sm_call_id m = cid @ ''-b2b_1'') (sr_messages r))))])
   \<and> api_get fmt now app p metrics tracer (Trace cid) =
     (200, JObj [(''call_id'', JStr cid), (''events'', JList (map (\<lambda>e. JObj (event_payload fmt e))
        (ct_events (trace_for cid tracer))))])
   \<and> fst (api_get fmt now app p metrics tracer Resource) = (if pr_resource p = None then 503 else 200)"
  by (auto simp: api_get_def messages_payload_def Let_def outbound_call_id_def B2BUA_CALL_ID_SUFFIX_def
      messages_for_any_def trace_payload_def trace_for_def split: option.splits)

text \<open>
  The health document. Its readiness is the instance's, its uptime is the elapsed time to
  within half a millisecond, the keys an instance adds never disturb the shared ones it
  does not name, and every key it adds is served with its value.
\<close>
lemma health_document:
  assumes "distinct (od_keys (pr_health_extra p))"
  shows "\<exists>doc u. api_get fmt now app p metrics tracer Healthz = (200, JObj doc)
    \<and> (\<forall>k. map_of doc k = (case map_of (pr_health_extra p) k of Some v \<Rightarrow> Some v
          | None \<Rightarrow> map_of [(''status'', JStr (if pr_ready p then ''ok'' else ''degraded'')),
              (''instance'', JStr (pr_instance p)), (''version'', JStr (aa_version app)),
              (''uptime_seconds'', JNum u), (''rule_set_loaded'', JBool (pr_ready p))] k))
    \<and> \<bar>u - (now - aa_started_at app)\<bar> \<le> 1 / 2000"
proof -
  let ?x = "now - aa_started_at app"
  let ?doc = "health_payload (aa_version app) ?x (pr_ready p) (pr_instance p) (Some (pr_health_extra p))"
  have "\<bar>round3 ?x - ?x\<bar> = \<bar>of_int (round_half_even (1000 * ?x)) - 1000 * ?x\<bar> / 1000"
    by (simp add: round3_def abs_if field_simps)
  also have "\<dots> \<le> 1 / 2000" using round_half_even_near [of "1000 * ?x"] by simp
  finally have near: "\<bar>round3 ?x - ?x\<bar> \<le> 1 / 2000" .
  have "map_of ?doc k = (case map_of (pr_health_extra p) k of Some v \<Rightarrow> Some v
          | None \<Rightarrow> map_of [(''status'', JStr (if pr_ready p then ''ok'' else ''degraded'')),
              (''instance'', JStr (pr_instance p)), (''version'', JStr (aa_version app)),
              (''uptime_seconds'', JNum (round3 ?x)), (''rule_set_loaded'', JBool (pr_ready p))] k)" for k
    unfolding health_payload_def option.case map_of_od_update [OF assms] by (simp split: option.split)
  with near show ?thesis by (auto simp: api_get_def)
qed

text \<open>
  C33: The event feed. When the recorder does not change during a poll, a batch holds exactly
  the full traces of the calls that are new since the previous poll and among the fifty
  most recently active, newest first; and a new call beyond those fifty is never sent: it
  is not in the batch, and no later poll sends it while it stays in the recorder.
\<close>
theorem feed_batch_exact:
  assumes "tracer_ok r" and "filter (\<lambda>c. c \<notin> set seen) (known_call_ids r) \<noteq> []"
  shows "\<exists>batch. feed_poll seen r r = (known_call_ids r, Some batch)
    \<and> batch = map (\<lambda>c. trace_for c r) (filter (\<lambda>c. c \<notin> set seen) (take 50 (known_call_ids r)))
    \<and> (cid \<in> set (drop 50 (known_call_ids r)) \<longrightarrow> cid \<notin> ct_call_id ` set batch
        \<and> (list_all (\<lambda>r'. cid \<in> set (known_call_ids r')) later \<longrightarrow>
             cid \<notin> ct_call_id ` set (concat (feed_run (known_call_ids r) later))))"
proof -
  let ?new = "filter (\<lambda>c. c \<notin> set seen) (known_call_ids r)"
  let ?batch = "filter (\<lambda>t. ct_call_id t \<in> set ?new) (recent WS_MAX_TRACES r)"
  have poll: "feed_poll seen r r = (known_call_ids r, Some ?batch)"
    using assms(2) by (simp add: feed_poll_def Let_def)
  have ids: "map ct_call_id (recent WS_MAX_TRACES r) = take 50 (known_call_ids r)"
    by (simp add: recent_ids py_take_def WS_MAX_TRACES_def)
  have "recent WS_MAX_TRACES r = map (\<lambda>c. trace_for c r) (map ct_call_id (recent WS_MAX_TRACES r))"
    by (rule nth_equalityI) (simp_all, metis recent_events [OF assms(1)] nth_mem)
  then have rec: "recent WS_MAX_TRACES r = map (\<lambda>c. trace_for c r) (take 50 (known_call_ids r))"
    by (simp only: ids)
  have batch: "?batch = map (\<lambda>c. trace_for c r) (filter (\<lambda>c. c \<notin> set seen) (take 50 (known_call_ids r)))"
    unfolding rec filter_map comp_def
    by (rule arg_cong [of _ _ "map _"], rule filter_cong [OF refl])
       (auto simp: trace_for_def dest: in_set_takeD)
  have d: "distinct (known_call_ids r)"
    using assms(1) by (simp add: known_call_ids_def tracer_ok_def od_wf_def)
  have lost: "cid \<notin> ct_call_id ` set ?batch" if "cid \<in> set (drop 50 (known_call_ids r))"
  proof -
    have "cid \<notin> set (take 50 (known_call_ids r))"
      using d that by (metis append_take_drop_id disjoint_iff distinct_append)
    then show ?thesis unfolding batch by (auto simp: trace_for_def)
  qed
  have later: "cid \<notin> ct_call_id ` set (concat (feed_run (known_call_ids r) later))"
    if "cid \<in> set (drop 50 (known_call_ids r))" "list_all (\<lambda>r'. cid \<in> set (known_call_ids r')) later"
    using that by (intro feed_seen_silent) (auto dest: in_set_dropD)
  show ?thesis using poll batch lost later by blast
qed

theorem feed_batch_exact_witness:
  "\<exists>batch. feed_poll [''a''] (fold apply_trace_call (map plain_call [''a'', ''b'']) (mk_trace_recorder 5))
      (fold apply_trace_call (map plain_call [''a'', ''b'']) (mk_trace_recorder 5)) = ([''b'', ''a''], Some batch)
    \<and> map ct_call_id batch = [''b'']"
proof -
  let ?r = "fold apply_trace_call (map plain_call [''a'', ''b'']) (mk_trace_recorder 5)"
  have b: "recorder_with_bound 5 (mk_trace_recorder 5)" using mk_trace_recorder_bound [of 5] by simp
  have ok: "tracer_ok ?r"
    using apply_trace_call_bound [OF apply_trace_call_bound [OF b]] by (simp add: recorder_with_bound_def)
  have known: "known_call_ids ?r = [''b'', ''a'']"
    using tr.keys_after [OF b, of "[''a'', ''b'']"]
    by (simp add: known_call_ids_def mk_trace_recorder_def last_n_def)
  have "filter (\<lambda>c. c \<notin> set [''a'']) (known_call_ids ?r) \<noteq> []" by (simp only: known) simp
  from feed_batch_exact [OF ok this] show ?thesis
    by (auto simp: known trace_for_def comp_def simp del: fold_simps list.map)
qed

end
