(* ===== verification/AsTransport.thy ===== *)
theory AsTransport
  imports AsErrors
begin

text \<open>
  The trunk bindings of \<^verbatim>\<open>transport.py\<close>: the UDP binding, the TLS binding and the interface
  both keep. A socket is a number; what the operating system answers to one \<^verbatim>\<open>start\<close> (is the
  certificate readable, can an address be bound, which port is assigned) is an argument. A
  socket object that nothing refers to any more is closed by CPython's reference counting.
\<close>

section \<open>Sockets\<close>

record net =
  nt_open :: "nat list"
  nt_next :: nat

definition open_socket :: "net \<Rightarrow> nat \<times> net" where
  "open_socket n = (nt_next n, n\<lparr>nt_open := nt_open n @ [nt_next n], nt_next := nt_next n + 1\<rparr>)"

definition close_socket :: "nat option \<Rightarrow> net \<Rightarrow> net" where
  "close_socket s n = (case s of None \<Rightarrow> n | Some i \<Rightarrow> n\<lparr>nt_open := removeAll i (nt_open n)\<rparr>)"

text \<open>What the operating system answers to one call of \<^verbatim>\<open>start\<close>.\<close>

record os_answers =
  oa_cert_ok :: bool
  oa_ca_ok :: bool
  oa_tls_bind_ok :: bool
  oa_udp_probe_ok :: bool
  oa_udp_port :: int
  oa_udp_bind_ok :: bool

section \<open>The two bindings\<close>

record udp_transport =
  ut_address :: string
  ut_port :: int

record tls_transport =
  tt_address :: string
  tt_port :: int
  tt_certfile :: string
  tt_keyfile :: string
  tt_cafile :: "string option"
  tt_local_udp_port :: "int option"
  tt_tls_socket :: "nat option"
  tt_local_socket_in :: "nat option"
  tt_local_socket_out :: "nat option"
  tt_bridge_threads :: "nat list"
  tt_running :: bool

definition mk_tls_transport :: "string \<Rightarrow> int \<Rightarrow> string \<Rightarrow> string \<Rightarrow> string option \<Rightarrow> tls_transport" where
  "mk_tls_transport address port certfile keyfile cafile =
     \<lparr>tt_address = address, tt_port = port, tt_certfile = certfile, tt_keyfile = keyfile,
      tt_cafile = cafile, tt_local_udp_port = None, tt_tls_socket = None,
      tt_local_socket_in = None, tt_local_socket_out = None, tt_bridge_threads = [],
      tt_running = False\<rparr>"

definition udp_sip_config :: "udp_transport \<Rightarrow> pyexc + (string \<times> int)" where
  "udp_sip_config t = Inr (ut_address t, ut_port t)"

definition tls_sip_config :: "tls_transport \<Rightarrow> pyexc + (string \<times> int)" where
  "tls_sip_config t = (case tt_local_udp_port t of None \<Rightarrow> Inl RuntimeError | Some p \<Rightarrow> Inr (''127.0.0.1'', p))"

type_synonym tst = "tls_transport \<times> net"

text \<open>The TLS listener: a bind that fails leaves the raw socket unreferenced, hence closed.\<close>

definition open_tls_listener :: "os_answers \<Rightarrow> (pyexc, tst) stmt" where
  "open_tls_listener oa = (\<lambda>(t, n).
     if oa_tls_bind_ok oa
     then (case open_socket n of (i, n') \<Rightarrow>
             (Inr (), (t\<lparr>tt_tls_socket := Some i\<rparr>, close_socket (tt_tls_socket t) n')))
     else (Inl OSError, (t, n)))"

text \<open>The probe that finds a free UDP port: opened, bound to port 0, read and closed.\<close>

definition allocate_udp_port :: "os_answers \<Rightarrow> (pyexc, tst) stmt" where
  "allocate_udp_port oa = (\<lambda>(t, n).
     if oa_udp_probe_ok oa then (Inr (), (t\<lparr>tt_local_udp_port := Some (oa_udp_port oa)\<rparr>, n))
     else (Inl OSError, (t, n)))"

definition open_udp_sockets :: "os_answers \<Rightarrow> (pyexc, tst) stmt" where
  "open_udp_sockets oa = block [
     (\<lambda>(t, n). case open_socket n of (i, n') \<Rightarrow>
        (Inr (), (t\<lparr>tt_local_socket_in := Some i\<rparr>, close_socket (tt_local_socket_in t) n'))),
     whenp (\<not> oa_udp_bind_ok oa) (raise OSError),
     (\<lambda>(t, n). case open_socket n of (i, n') \<Rightarrow>
        (Inr (), (t\<lparr>tt_local_socket_out := Some i\<rparr>, close_socket (tt_local_socket_out t) n')))]"

definition tls_start :: "os_answers \<Rightarrow> (pyexc, tst) stmt" where
  "tls_start oa = block [
     on_fst (upd (\<lambda>t. t\<lparr>tt_running := True\<rparr>)),
     whenp (\<not> oa_cert_ok oa) (raise OSError),
     getp (\<lambda>(t, n). whenp (tt_cafile t \<noteq> None \<and> \<not> oa_ca_ok oa) (raise OSError)),
     open_tls_listener oa,
     allocate_udp_port oa,
     open_udp_sockets oa]"

definition tls_stop :: "(pyexc, tst) stmt" where
  "tls_stop = (\<lambda>(t, n).
     (Inr (), (t\<lparr>tt_running := False, tt_tls_socket := None, tt_local_socket_in := None,
         tt_local_socket_out := None, tt_bridge_threads := [], tt_local_udp_port := None\<rparr>,
       close_socket (tt_local_socket_out t) (close_socket (tt_local_socket_in t)
         (close_socket (tt_tls_socket t) n)))))"

text \<open>The binding a stack is given, and the protocol's operations on it.\<close>

datatype transport = UdpBinding udp_transport | TlsBinding tls_transport

fun transport_address :: "transport \<Rightarrow> string \<times> int" where
  "transport_address (UdpBinding u) = (ut_address u, ut_port u)"
| "transport_address (TlsBinding t) = (tt_address t, tt_port t)"

fun transport_sip_config :: "transport \<Rightarrow> pyexc + (string \<times> int)" where
  "transport_sip_config (UdpBinding u) = udp_sip_config u"
| "transport_sip_config (TlsBinding t) = tls_sip_config t"

fun transport_start :: "os_answers \<Rightarrow> (pyexc, transport \<times> net) stmt" where
  "transport_start oa (UdpBinding u, n) = (Inr (), (UdpBinding u, n))"
| "transport_start oa (TlsBinding t, n) = (case tls_start oa (t, n) of (r, (t', n')) \<Rightarrow> (r, (TlsBinding t', n')))"

fun transport_stop :: "(pyexc, transport \<times> net) stmt" where
  "transport_stop (UdpBinding u, n) = (Inr (), (UdpBinding u, n))"
| "transport_stop (TlsBinding t, n) = (case tls_stop (t, n) of (r, (t', n')) \<Rightarrow> (r, (TlsBinding t', n')))"

section \<open>The interface\<close>

text \<open>
  What the stack relies on: a successful start makes the configuration available, a stop
  never fails, neither touches a socket the transport does not own, and after a stop it
  owns none. \<open>owned\<close> are the sockets a transport refers to.
\<close>

locale trunk_transport =
  fixes start_op :: "'e \<Rightarrow> ('x, 's \<times> net) stmt"
    and stop_op :: "('x, 's \<times> net) stmt"
    and config :: "'s \<Rightarrow> 'x + (string \<times> int)"
    and owned :: "'s \<Rightarrow> nat set"
    and inv :: "'s \<times> net \<Rightarrow> bool"
  assumes start_inv: "inv (s, n) \<Longrightarrow> inv (snd (start_op e (s, n)))"
    and stop_inv: "inv (s, n) \<Longrightarrow> inv (snd (stop_op (s, n)))"
    and start_foreign: "inv (s, n) \<Longrightarrow> start_op e (s, n) = (r, (s', n')) \<Longrightarrow>
          set (nt_open n') - owned s' = set (nt_open n) - owned s"
    and stop_foreign: "inv (s, n) \<Longrightarrow> stop_op (s, n) = (r, (s', n')) \<Longrightarrow>
          set (nt_open n') = set (nt_open n) - owned s \<and> owned s' = {} \<and> r = Inr ()"
    and start_config: "inv (s, n) \<Longrightarrow> start_op e (s, n) = (Inr (), (s', n')) \<Longrightarrow> \<exists>cfg. config s' = Inr cfg"
begin

text \<open>A run: \<open>Some e\<close> is a start with the answers \<open>e\<close> (successful or not), \<open>None\<close> a stop.\<close>

fun cycle :: "'e option list \<Rightarrow> 's \<times> net \<Rightarrow> 's \<times> net" where
  "cycle [] x = x"
| "cycle (None # ops) x = cycle ops (snd (stop_op x))"
| "cycle (Some e # ops) x = cycle ops (snd (start_op e x))"

lemma cycle_foreign:
  "inv x \<Longrightarrow> inv (cycle ops x) \<and>
   set (nt_open (snd (cycle ops x))) - owned (fst (cycle ops x)) = set (nt_open (snd x)) - owned (fst x)"
proof (induction ops x rule: cycle.induct)
  case (1 x)
  then show ?case by simp
next
  case (2 ops x)
  obtain s n where x: "x = (s, n)" by (cases x)
  obtain r s' n' where st: "stop_op (s, n) = (r, (s', n'))" by (metis prod.collapse)
  have "inv (s', n')" using stop_inv [of s n] 2(2) st x by simp
  then show ?case using 2(1) stop_foreign [OF _ st] 2(2) st x by auto
next
  case (3 e ops x)
  obtain s n where x: "x = (s, n)" by (cases x)
  obtain r s' n' where st: "start_op e (s, n) = (r, (s', n'))" by (metis prod.collapse)
  have "inv (s', n')" using start_inv [of s n e] 3(2) st x by simp
  then show ?case using 3(1) start_foreign [OF _ st] 3(2) st x by auto
qed

lemma stop_releases:
  assumes "inv (s, n)" and "owned s = {}"
  shows "set (nt_open (snd (cycle (ops @ [None]) (s, n)))) = set (nt_open n)"
proof -
  have split: "cycle (ops @ [None]) x = snd (stop_op (cycle ops x))" for x
    by (induction ops x rule: cycle.induct) simp_all
  obtain s1 n1 where c: "cycle ops (s, n) = (s1, n1)" by (cases "cycle ops (s, n)")
  obtain r s2 n2 where st: "stop_op (s1, n1) = (r, (s2, n2))" by (metis prod.collapse)
  have "inv (s1, n1)" "set (nt_open n1) - owned s1 = set (nt_open n)"
    using cycle_foreign [OF assms(1), of ops] c assms(2) by auto
  then show ?thesis using stop_foreign [OF _ st] by (simp add: split c st)
qed

end

section \<open>Both bindings keep the interface\<close>

definition tls_owned :: "tls_transport \<Rightarrow> nat set" where
  "tls_owned t = set_option (tt_tls_socket t) \<union> set_option (tt_local_socket_in t) \<union> set_option (tt_local_socket_out t)"

definition net_ok :: "net \<Rightarrow> bool" where
  "net_ok n \<longleftrightarrow> (\<forall>i\<in>set (nt_open n). i < nt_next n)"

fun transport_owned :: "transport \<Rightarrow> nat set" where
  "transport_owned (UdpBinding _) = {}"
| "transport_owned (TlsBinding t) = tls_owned t"

definition net_fine :: "transport \<times> net \<Rightarrow> bool" where
  "net_fine s \<longleftrightarrow> net_ok (snd s)"

lemma open_socket_run: "open_socket n = (nt_next n, snd (open_socket n))"
  by (simp add: open_socket_def)

lemma open_socket_facts:
  "net_ok n \<Longrightarrow> net_ok (snd (open_socket n)) \<and> nt_next n \<notin> set (nt_open n)
     \<and> set (nt_open (snd (open_socket n))) = insert (nt_next n) (set (nt_open n))"
  by (auto simp: net_ok_def open_socket_def)

lemma close_socket_facts:
  "net_ok n \<Longrightarrow> net_ok (close_socket s n)"
  "set (nt_open (close_socket s n)) = set (nt_open n) - set_option s"
  by (auto simp: net_ok_def close_socket_def split: option.splits)

text \<open>A statement of the TLS binding that keeps the sockets of others.\<close>

definition keeps_foreign :: "(pyexc, tst) stmt \<Rightarrow> bool" where
  "keeps_foreign m \<longleftrightarrow> (\<forall>t n. net_ok n \<longrightarrow> (case m (t, n) of (r, (t', n')) \<Rightarrow>
     net_ok n' \<and> set (nt_open n') - tls_owned t' = set (nt_open n) - tls_owned t))"

lemma keeps_foreignI:
  "(\<And>t n r t' n'. net_ok n \<Longrightarrow> m (t, n) = (r, (t', n')) \<Longrightarrow>
     net_ok n' \<and> set (nt_open n') - tls_owned t' = set (nt_open n) - tls_owned t) \<Longrightarrow> keeps_foreign m"
  by (auto simp: keeps_foreign_def split: prod.splits)

lemma keeps_foreignD:
  "keeps_foreign m \<Longrightarrow> net_ok n \<Longrightarrow> m (t, n) = (r, (t', n')) \<Longrightarrow>
     net_ok n' \<and> set (nt_open n') - tls_owned t' = set (nt_open n) - tls_owned t"
  by (auto simp: keeps_foreign_def split: prod.splits)

lemma keeps_raise: "keeps_foreign (raise e)" and keeps_ret: "keeps_foreign (ret ())"
  by (rule keeps_foreignI, simp)+

lemma keeps_bindp: "keeps_foreign m \<Longrightarrow> keeps_foreign m' \<Longrightarrow> keeps_foreign (bindp m (\<lambda>_. m'))"
proof (rule keeps_foreignI)
  fix t n r t' n'
  assume k: "keeps_foreign m" "keeps_foreign m'" and n: "net_ok n" and run: "bindp m (\<lambda>_. m') (t, n) = (r, (t', n'))"
  obtain r1 t1 n1 where 1: "m (t, n) = (r1, (t1, n1))" by (metis prod.collapse)
  note f = keeps_foreignD [OF k(1) n 1]
  show "net_ok n' \<and> set (nt_open n') - tls_owned t' = set (nt_open n) - tls_owned t"
  proof (cases r1)
    case (Inl e)
    then show ?thesis using run 1 f by (simp add: bindp_def)
  next
    case (Inr u)
    then have "m' (t1, n1) = (r, (t', n'))" using run 1 by (simp add: bindp_def)
    then show ?thesis using keeps_foreignD [OF k(2)] f by metis
  qed
qed

lemma keeps_block: "list_all keeps_foreign ms \<Longrightarrow> keeps_foreign (block ms)"
  by (induction ms) (simp_all add: keeps_ret keeps_bindp)

lemma keeps_open:
  assumes "\<And>i t. insert i (tls_owned t) = insert i (tls_owned (f i t)) \<union> set_option (old t)"
    and "\<And>i t. i \<in> tls_owned (f i t)"
  shows "keeps_foreign (\<lambda>(t, n). case open_socket n of (i, n') \<Rightarrow> (Inr (), (f i t, close_socket (old t) n')))"
proof (rule keeps_foreignI)
  fix t n r t' n'
  assume n: "net_ok n" and run: "(\<lambda>(t, n). case open_socket n of (i, n') \<Rightarrow>
      (Inr (), (f i t, close_socket (old t) n'))) (t, n) = (r, (t', n'))"
  have t': "t' = f (nt_next n) t" "n' = close_socket (old t) (snd (open_socket n))"
    using run by (simp_all add: open_socket_def)
  note o = open_socket_facts [OF n]
  have "net_ok n'" using o close_socket_facts(1) t'(2) by blast
  moreover have "set (nt_open n') = insert (nt_next n) (set (nt_open n)) - set_option (old t)"
    using o by (simp add: t'(2) close_socket_facts(2))
  moreover have "insert (nt_next n) (tls_owned t) = insert (nt_next n) (tls_owned t') \<union> set_option (old t)"
    "nt_next n \<in> tls_owned t'" using assms t'(1) by auto
  moreover have "x \<in> set (nt_open n') - tls_owned t' \<longleftrightarrow> x \<in> set (nt_open n) - tls_owned t" for x
  proof -
    have "x = nt_next n \<or> x \<in> tls_owned t \<longleftrightarrow> x = nt_next n \<or> x \<in> tls_owned t' \<or> old t = Some x"
      using assms(1) [of "nt_next n" t] t'(1) by auto
    then show ?thesis using o calculation(2,4) by auto
  qed
  ultimately show "net_ok n' \<and> set (nt_open n') - tls_owned t' = set (nt_open n) - tls_owned t"
    by blast
qed

lemma keeps_start: "keeps_foreign (tls_start oa)"
proof -
  have same: "keeps_foreign (\<lambda>(t, n). if b then (Inr (), (g t, n)) else (Inl OSError, (t, n)))"
    if "\<And>t. tls_owned (g t) = tls_owned t" for b g
    by (rule keeps_foreignI) (use that in \<open>auto split: if_splits\<close>)
  have run: "keeps_foreign (on_fst (upd (\<lambda>t. t\<lparr>tt_running := True\<rparr>)))"
    by (rule keeps_foreignI) (auto simp: tls_owned_def)
  have ca: "keeps_foreign (getp (\<lambda>(t, n). whenp (tt_cafile t \<noteq> None \<and> \<not> oa_ca_ok oa) (raise OSError)))"
    by (rule keeps_foreignI) (auto simp: whenp_run split: if_splits)
  have w: "keeps_foreign (whenp b (raise OSError))" for b
    by (cases b) (simp_all add: keeps_raise keeps_ret)
  have lis: "keeps_foreign (open_tls_listener oa)"
  proof (cases "oa_tls_bind_ok oa")
    case True
    then show ?thesis
      using keeps_open [of "\<lambda>i t. t\<lparr>tt_tls_socket := Some i\<rparr>" tt_tls_socket]
      by (simp add: open_tls_listener_def tls_owned_def Un_ac)
  next
    case False
    then show ?thesis
      by (intro keeps_foreignI) (simp add: open_tls_listener_def)
  qed
  have udp: "keeps_foreign (allocate_udp_port oa)"
    unfolding allocate_udp_port_def by (rule same) (simp add: tls_owned_def)
  have s_in: "keeps_foreign (\<lambda>(t, n). case open_socket n of (i, n') \<Rightarrow>
        (Inr (), (t\<lparr>tt_local_socket_in := Some i\<rparr>, close_socket (tt_local_socket_in t) n')))"
    by (rule keeps_open) (auto simp: tls_owned_def)
  have s_out: "keeps_foreign (\<lambda>(t, n). case open_socket n of (i, n') \<Rightarrow>
        (Inr (), (t\<lparr>tt_local_socket_out := Some i\<rparr>, close_socket (tt_local_socket_out t) n')))"
    by (rule keeps_open) (auto simp: tls_owned_def)
  have sockets: "keeps_foreign (open_udp_sockets oa)"
    unfolding open_udp_sockets_def by (rule keeps_block) (simp add: s_in s_out w)
  show ?thesis
    unfolding tls_start_def
    by (rule keeps_block, unfold list.pred_inject) (intro conjI run ca w lis udp sockets, simp)
qed

lemma start_config_some:
  assumes "tls_start oa (t, n) = (Inr (), (t', n'))"
  shows "tls_sip_config t' = Inr (''127.0.0.1'', oa_udp_port oa) \<and> tt_running t'
    \<and> tt_bridge_threads t' = tt_bridge_threads t"
  using assms
  by (auto simp: tls_start_def whenp_def open_tls_listener_def open_socket_def bindp_def
      allocate_udp_port_def open_udp_sockets_def tls_sip_config_def split: if_splits)

lemma transport_start_config:
  "transport_start oa (s, n) = (Inr (), (s', n')) \<Longrightarrow> \<exists>cfg. transport_sip_config s' = Inr cfg"
  by (cases s) (auto simp: udp_sip_config_def dest!: start_config_some split: prod.splits)

interpretation trunk: trunk_transport transport_start transport_stop transport_sip_config transport_owned net_fine
proof unfold_locales
  fix s n e r s' n'
  assume f: "net_fine (s, n)"
  then have n: "net_ok n" by (simp add: net_fine_def)
  have st: "net_ok n1 \<and> set (nt_open n1) - transport_owned s1 = set (nt_open n) - transport_owned s"
    if "transport_start e (s, n) = (r1, (s1, n1))" for r1 s1 n1
  proof (cases s)
    case (UdpBinding u)
    then show ?thesis using that n by simp
  next
    case (TlsBinding t)
    obtain r2 t2 n2 where 2: "tls_start e (t, n) = (r2, (t2, n2))" by (metis prod.collapse)
    then have "s1 = TlsBinding t2" "n1 = n2" using that TlsBinding by auto
    then show ?thesis using TlsBinding keeps_foreignD [OF keeps_start n 2] by simp
  qed
  obtain r1 s1 n1 where 1: "transport_start e (s, n) = (r1, (s1, n1))" by (metis prod.collapse)
  show "net_fine (snd (transport_start e (s, n)))" using st [OF 1] 1 by (simp add: net_fine_def)
  show "transport_start e (s, n) = (r, (s', n')) \<Longrightarrow>
      set (nt_open n') - transport_owned s' = set (nt_open n) - transport_owned s"
    using st by blast
  show "transport_start e (s, n) = (Inr (), (s', n')) \<Longrightarrow> \<exists>cfg. transport_sip_config s' = Inr cfg"
    by (rule transport_start_config)
  show "net_fine (snd (transport_stop (s, n)))"
    using n by (cases s) (simp_all add: net_fine_def tls_stop_def close_socket_facts)
  show "transport_stop (s, n) = (r, (s', n')) \<Longrightarrow>
      set (nt_open n') = set (nt_open n) - transport_owned s \<and> transport_owned s' = {} \<and> r = Inr ()"
    by (cases s) (auto simp: tls_stop_def close_socket_facts tls_owned_def)
qed

text \<open>
  C29: Whatever happens between creation and the last stop (starts that fail half way,
  starts without a stop, stops without a start, in any order), stopping a transport leaves
  exactly the sockets that were open before it was used: nothing it opened stays open, and
  no socket of anybody else is closed.
\<close>
theorem transport_releases_sockets:
  assumes "net_ok n" and "transport_owned s = {}"
  shows "set (nt_open (snd (trunk.cycle (ops @ [None]) (s, n)))) = set (nt_open n)"
  using assms by (intro trunk.stop_releases) (simp_all add: net_fine_def)

theorem transport_releases_sockets_witness:
  "set (nt_open (snd (trunk.cycle
      [Some \<lparr>oa_cert_ok = True, oa_ca_ok = True, oa_tls_bind_ok = True, oa_udp_probe_ok = False,
             oa_udp_port = 0, oa_udp_bind_ok = True\<rparr>, None]
      (TlsBinding (mk_tls_transport ''0.0.0.0'' 5061 ''c'' ''k'' None), \<lparr>nt_open = [0], nt_next = 1\<rparr>)))) = {0}"
  using transport_releases_sockets [of "\<lparr>nt_open = [0], nt_next = 1\<rparr>"
      "TlsBinding (mk_tls_transport ''0.0.0.0'' 5061 ''c'' ''k'' None)"
      "[Some \<lparr>oa_cert_ok = True, oa_ca_ok = True, oa_tls_bind_ok = True, oa_udp_probe_ok = False,
             oa_udp_port = 0, oa_udp_bind_ok = True\<rparr>]"]
  by (simp add: net_ok_def tls_owned_def mk_tls_transport_def del: trunk.cycle.simps)

text \<open>
  Starting a TLS binding that is stopped. Its configuration is unavailable before; if
  everything can be opened, afterwards exactly three more sockets are open, it points the
  stack at the loopback port the system assigned and no bridge thread exists (the
  documented bridge is never started); a certificate that cannot be loaded fails the start
  with nothing opened, although the binding is marked as running.
\<close>
lemma tls_start_outcome:
  assumes "tls_owned t = {}" "tt_local_udp_port t = None" "tt_bridge_threads t = []"
    "oa_cert_ok oa" "oa_ca_ok oa" "oa_tls_bind_ok oa" "oa_udp_probe_ok oa" "oa_udp_bind_ok oa"
  shows "tls_sip_config t = Inl RuntimeError
    \<and> (\<exists>t' n'. tls_start oa (t, n) = (Inr (), (t', n'))
        \<and> nt_open n' = nt_open n @ [nt_next n, nt_next n + 1, nt_next n + 2]
        \<and> tls_owned t' = {nt_next n, nt_next n + 1, nt_next n + 2}
        \<and> tls_sip_config t' = Inr (''127.0.0.1'', oa_udp_port oa) \<and> tt_bridge_threads t' = [])
    \<and> tls_start (oa\<lparr>oa_cert_ok := False\<rparr>) (t, n) = (Inl OSError, (t\<lparr>tt_running := True\<rparr>, n))"
proof -
  have none: "tt_tls_socket t = None" "tt_local_socket_in t = None" "tt_local_socket_out t = None"
    using assms(1) by (cases "tt_tls_socket t"; cases "tt_local_socket_in t"; cases "tt_local_socket_out t";
      simp add: tls_owned_def)+
  have "tls_start (oa\<lparr>oa_cert_ok := False\<rparr>) (t, n) = (Inl OSError, (t\<lparr>tt_running := True\<rparr>, n))"
    by (simp add: tls_start_def on_fst_def bindp_def)
  then show ?thesis
    using none assms(2-8)
    by (simp add: tls_sip_config_def)
       (simp add: tls_start_def bindp_def on_fst_def whenp_def open_tls_listener_def open_socket_def
          allocate_udp_port_def open_udp_sockets_def close_socket_def tls_owned_def insert_commute)
qed

end
