(* ===== verification/AsBootstrap.thy ===== *)
theory AsBootstrap
  imports AsTransport
begin

text \<open>
  Start-up and shutdown glue: the UDP port probe, the cooperative shutdown state and its
  signal handlers of \<^verbatim>\<open>bootstrap.py\<close>, and the version chain of \<^verbatim>\<open>version.py\<close>.
\<close>

section \<open>The port probe\<close>

text \<open>
  \<open>bind_error\<close> is the text of the operating system's refusal, or \<open>None\<close> when the port can be
  bound. The probe socket is opened before and closed whatever happens.
\<close>

definition port_error :: "string \<Rightarrow> int \<Rightarrow> string \<Rightarrow> as_error" where
  "port_error address port exc = mk_as_error (skeleton_row CFG_PORT_UNAVAILABLE)
     (Some (''cannot bind UDP '' @ address @ '':'' @ int_str port @ '': '' @ exc)) None
     (Some [(''address'', address), (''port'', int_str port)])"

definition check_port_available :: "string option \<Rightarrow> string \<Rightarrow> int \<Rightarrow> (pyexc, net) stmt" where
  "check_port_available bind_error address port = (\<lambda>n.
     case open_socket n of (probe, n') \<Rightarrow>
       finallyp (case bind_error of None \<Rightarrow> ret ()
                 | Some exc \<Rightarrow> raise (RaisedAs (port_error address port exc)))
         (close_socket (Some probe)) n')"

section \<open>Cooperative shutdown\<close>

record shutdown_controller =
  sd_requested :: bool
  sd_reason :: "string option"

definition mk_shutdown_controller :: shutdown_controller where
  "mk_shutdown_controller = \<lparr>sd_requested = False, sd_reason = None\<rparr>"

definition request_shutdown :: "string \<Rightarrow> shutdown_controller \<Rightarrow> shutdown_controller" where
  "request_shutdown reason c = c\<lparr>sd_requested := True, sd_reason := Some reason\<rparr>"

datatype os_signal = SIGTERM | SIGINT | SIGHUP

fun signal_name :: "os_signal \<Rightarrow> string" where
  "signal_name SIGTERM = ''SIGTERM''"
| "signal_name SIGINT = ''SIGINT''"
| "signal_name SIGHUP = ''SIGHUP''"

text \<open>The table of installed handlers: a handler writes the shutdown state and nothing else.\<close>

type_synonym signal_table = "os_signal \<Rightarrow> (shutdown_controller \<Rightarrow> shutdown_controller) option"

definition shutdown_handler :: "os_signal \<Rightarrow> shutdown_controller \<Rightarrow> shutdown_controller" where
  "shutdown_handler signum = request_shutdown (''signal '' @ signal_name signum)"

definition install_signal_handlers :: "signal_table \<Rightarrow> signal_table" where
  "install_signal_handlers tab =
     fold (\<lambda>signum t. t(signum \<mapsto> shutdown_handler signum)) [SIGTERM, SIGINT] tab"

definition deliver :: "signal_table \<Rightarrow> os_signal \<Rightarrow> shutdown_controller \<Rightarrow> shutdown_controller" where
  "deliver tab signum c = (case tab signum of None \<Rightarrow> c | Some h \<Rightarrow> h c)"

section \<open>Version discovery\<close>

text \<open>What the metadata backend and the file system answer: a text, or an exception.\<close>

definition version_file_version :: "(pyexc + string) \<Rightarrow> string \<Rightarrow> pyexc + string" where
  "version_file_version read_text unknown =
     (case read_text of Inr txt \<Rightarrow> Inr (py_strip txt)
      | Inl e \<Rightarrow> if e = OSError then Inr unknown else Inl e)"

definition read_version :: "(pyexc + string) \<Rightarrow> (pyexc + string) \<Rightarrow> pyexc + string" where
  "read_version metadata version_file_reader =
     (case metadata of Inr v \<Rightarrow> Inr v | Inl _ \<Rightarrow> version_file_reader)"

text \<open>The package's own version, from the package's \<^verbatim>\<open>__init__\<close>.\<close>

definition UNKNOWN_VERSION :: string where
  "UNKNOWN_VERSION = ''0.0.0+unknown''"

definition own_version_file :: "(pyexc + string) \<Rightarrow> pyexc + string" where
  "own_version_file read_text = version_file_version read_text UNKNOWN_VERSION"

definition own_version :: "(pyexc + string) \<Rightarrow> (pyexc + string) \<Rightarrow> pyexc + string" where
  "own_version metadata read_text = read_version metadata (own_version_file read_text)"

section \<open>Properties\<close>

text \<open>
  The port probe leaves no socket behind and reports exactly a refusal: it succeeds when
  the port can be bound, and otherwise raises \<^verbatim>\<open>AS-CFG-003\<close> carrying the address and the
  port in its log fields.
\<close>
lemma port_probe_exact:
  assumes "net_ok n"
  shows "set (nt_open (snd (check_port_available be address port n))) = set (nt_open n)
    \<and> (case be of None \<Rightarrow> fst (check_port_available be address port n) = Inr ()
       | Some exc \<Rightarrow> \<exists>err. fst (check_port_available be address port n) = Inl (RaisedAs err)
           \<and> map_of (as_log_fields err) ''error_code'' = Some ''AS-CFG-003''
           \<and> map_of (as_log_fields err) ''address'' = Some address
           \<and> map_of (as_log_fields err) ''port'' = Some (int_str port))"
proof -
  have fresh: "nt_next n \<notin> set (nt_open n)" using assms by (auto simp: net_ok_def)
  have "distinct (od_keys (ae_context (port_error address port exc)))" for exc
    by (simp add: port_error_def mk_as_error_def)
  note look = as_log_fields_lookup [OF this]
  show ?thesis
    using fresh
    by (cases be)
       (auto simp: check_port_available_def open_socket_def finallyp_def close_socket_def look,
        auto simp: port_error_def mk_as_error_def)
qed

text \<open>
  Shutdown is requested by exactly the two installed signals and stays requested: after
  any sequence of signals the flag is set if and only if one of them was SIGTERM or SIGINT
  (given no other handler), the reason is the last such signal, and a handler touches
  nothing but that state.
\<close>
lemma shutdown_requested_exact:
  "sd_requested (fold (deliver (install_signal_handlers (\<lambda>s. None))) sigs mk_shutdown_controller) =
     (filter (\<lambda>s. s = SIGTERM \<or> s = SIGINT) sigs \<noteq> [])
   \<and> sd_reason (fold (deliver (install_signal_handlers (\<lambda>s. None))) sigs mk_shutdown_controller) =
     (case rev (filter (\<lambda>s. s = SIGTERM \<or> s = SIGINT) sigs) of [] \<Rightarrow> None
      | s # _ \<Rightarrow> Some (''signal '' @ signal_name s))"
proof -
  have tab: "install_signal_handlers (\<lambda>s. None) s =
      (if s = SIGTERM \<or> s = SIGINT then Some (shutdown_handler s) else None)" for s
    by (cases s) (simp_all add: install_signal_handlers_def)
  show ?thesis
    by (induction sigs rule: rev_induct)
       (simp_all add: deliver_def tab shutdown_handler_def request_shutdown_def mk_shutdown_controller_def)
qed

end
