(* ===== verification/AsStack.thy ===== *)
theory AsStack
  imports CallMap InternalApi AsBootstrap
begin

text \<open>
  The process shell \<^verbatim>\<open>BaseAsStack\<close> of \<^verbatim>\<open>main.py\<close>: choice of the SIP message logger, start, the
  loop timers, the internal API and the order in which \<open>stop\<close> releases everything. sippy's
  transaction manager and event loop are third-party: the tables of timers the manager
  hangs on to and the timers armed in the loop are the state this code relies on.
\<close>

section \<open>State\<close>

text \<open>
  The logger handed to sippy: the recorder itself, one supplied by the tooling, or the dual
  logger over a \<^verbatim>\<open>SipLogger\<close> that is silenced when payload logging is off.
\<close>

datatype sip_logger = RecorderLogger | SuppliedLogger | DualLogger bool

datatype supplied_logger = NoLogger | ARecorder sip_message_recorder | OtherLogger

record stack =
  sk_transport :: transport
  sk_peer :: "string \<times> int"
  sk_allowed_peers :: "string list"
  sk_api :: "string \<times> int"
  sk_agent_name :: string
  sk_bound_log_message :: string
  sk_sip_logger :: sip_logger
  sk_sip_message_recorder :: "sip_message_recorder option"
  sk_internal_api :: "api_server option"
  sk_shutdown_timer :: "nat option"
  sk_reload_timer :: "nat option"
  sk_transaction_manager :: "transaction_manager option"
  sk_global_config :: "gconf option"
  sk_call_map :: "call_map option"

text \<open>
  What is asked of sippy and the loop, in order. The shutdown of the transaction manager is
  recorded with the loop timers and the transaction timers still armed at that moment.
\<close>

datatype stack_act =
    TmBound gconf
  | TmShutdown "nat list" "nat list"
  | LoopEntered
  | LoopBroken

record machine =
  mc_stack :: stack
  mc_world :: world
  mc_net :: net
  mc_host :: api_host
  mc_txn_armed :: "nat list"
  mc_acts :: "stack_act list"

type_synonym mstmt = "(pyexc, machine) stmt"

section \<open>Construction\<close>

definition build_sip_logger ::
    "bool \<Rightarrow> supplied_logger \<Rightarrow> sip_logger \<times> sip_message_recorder option" where
  "build_sip_logger log_payloads supplied =
     (case supplied of
        ARecorder r \<Rightarrow> (RecorderLogger, Some r)
      | OtherLogger \<Rightarrow> (SuppliedLogger, None)
      | NoLogger \<Rightarrow> (DualLogger log_payloads, Some \<lparr>sr_max_messages = DEFAULT_MAX_CAPTURED_MESSAGES, sr_messages = []\<rparr>))"

definition mk_stack ::
    "transport \<Rightarrow> string \<times> int \<Rightarrow> string list \<Rightarrow> string \<times> int \<Rightarrow> string \<Rightarrow> string \<Rightarrow> bool \<Rightarrow> supplied_logger \<Rightarrow> stack" where
  "mk_stack t peer allowed api agent bound log_payloads supplied =
     \<lparr>sk_transport = t, sk_peer = peer, sk_allowed_peers = allowed, sk_api = api,
      sk_agent_name = agent, sk_bound_log_message = bound,
      sk_sip_logger = fst (build_sip_logger log_payloads supplied),
      sk_sip_message_recorder = snd (build_sip_logger log_payloads supplied),
      sk_internal_api = None, sk_shutdown_timer = None, sk_reload_timer = None,
      sk_transaction_manager = None, sk_global_config = None, sk_call_map = None\<rparr>"

section \<open>Statements\<close>

definition mget :: "(machine \<Rightarrow> mstmt) \<Rightarrow> mstmt" where
  "mget f = getp f"

definition supd :: "(stack \<Rightarrow> stack) \<Rightarrow> mstmt" where
  "supd f = upd (\<lambda>m. m\<lparr>mc_stack := f (mc_stack m)\<rparr>)"

definition mworld :: "(world \<Rightarrow> world) \<Rightarrow> mstmt" where
  "mworld f = upd (\<lambda>m. m\<lparr>mc_world := f (mc_world m)\<rparr>)"

definition act :: "(machine \<Rightarrow> stack_act) \<Rightarrow> mstmt" where
  "act f = upd (\<lambda>m. m\<lparr>mc_acts := mc_acts m @ [f m]\<rparr>)"

definition stack_log :: "log_level \<Rightarrow> string \<Rightarrow> fields \<Rightarrow> mstmt" where
  "stack_log level event kw = (\<lambda>m.
     case log_event ''main'' level event kw (ob_log (w_obs (mc_world m))) of
       (r, l) \<Rightarrow> (r, m\<lparr>mc_world := wobs (\<lambda>b. b\<lparr>ob_log := l\<rparr>) (mc_world m)\<rparr>))"

definition transport_do :: "(pyexc, transport \<times> net) stmt \<Rightarrow> mstmt" where
  "transport_do p = (\<lambda>m. case p (sk_transport (mc_stack m), mc_net m) of
     (r, (t, n)) \<Rightarrow> (r, m\<lparr>mc_stack := (mc_stack m)\<lparr>sk_transport := t\<rparr>, mc_net := n\<rparr>))"

definition of_answer :: "pyexc + 'a \<Rightarrow> ('a \<Rightarrow> mstmt) \<Rightarrow> mstmt" where
  "of_answer x f = (case x of Inl e \<Rightarrow> raise e | Inr a \<Rightarrow> f a)"

fun join_comma :: "string list \<Rightarrow> string" where
  "join_comma [] = []"
| "join_comma [x] = x"
| "join_comma (x # xs) = x @ '','' @ join_comma xs"

section \<open>Start\<close>

text \<open>
  The answers of the environment to one start: the transport's, the application's call map
  and whether sippy can bind the signalling port.
\<close>

record start_answers =
  sa_os :: os_answers
  sa_call_map :: "gconf \<Rightarrow> pyexc + call_map"
  sa_tm_bind_ok :: bool

text \<open>\<^verbatim>\<open>_create_call_map\<close> of the base class, which every application replaces.\<close>

definition base_create_call_map :: "gconf \<Rightarrow> pyexc + call_map" where
  "base_create_call_map g = Inl NotImplementedError"

text \<open>The other hooks of the base class, which every application replaces as well.\<close>

definition base_create_internal_api_server :: "string \<Rightarrow> int \<Rightarrow> pyexc + api_server" where
  "base_create_internal_api_server address port = Inl NotImplementedError"

definition base_poll_reload :: "pyexc + unit" where
  "base_poll_reload = Inl NotImplementedError"

definition base_reload_log_fields :: "pyexc + fields" where
  "base_reload_log_fields = Inl NotImplementedError"

definition stack_config :: "stack \<Rightarrow> string \<times> int \<Rightarrow> gconf" where
  "stack_config s cfg = \<lparr>gc_sip_address = Some (fst cfg), gc_sip_port = Some (snd cfg),
     gc_sip_uaname = Some (sk_agent_name s), gc_next_hop_expire = None, gc_nh_addr = Some (sk_peer s)\<rparr>"

definition stack_start :: "start_answers \<Rightarrow> mstmt" where
  "stack_start sa = block [
     mget (\<lambda>m. mworld (\<lambda>w. w\<lparr>w_conf := \<lparr>
        sc_address = fst (transport_address (sk_transport (mc_stack m))),
        sc_port = snd (transport_address (sk_transport (mc_stack m))),
        sc_uaname = sk_agent_name (mc_stack m)\<rparr>\<rparr>)),
     transport_do (transport_start (sa_os sa)),
     mget (\<lambda>m. of_answer (transport_sip_config (sk_transport (mc_stack m)))
       (\<lambda>cfg. supd (\<lambda>s. s\<lparr>sk_global_config := Some (stack_config s cfg)\<rparr>))),
     mget (\<lambda>m. case sk_global_config (mc_stack m) of
        None \<Rightarrow> raise KeyError
      | Some g \<Rightarrow> block [
          of_answer (sa_call_map sa g) (\<lambda>cm. supd (\<lambda>s. s\<lparr>sk_call_map := Some cm\<rparr>)),
          whenp (\<not> sa_tm_bind_ok sa) (raise OSError),
          supd (\<lambda>s. s\<lparr>sk_transaction_manager := Some \<lparr>tm_tclient = Some [], tm_tserver = Some []\<rparr>\<rparr>),
          act (\<lambda>m. TmBound g)]),
     mget (\<lambda>m. stack_log INFO (sk_bound_log_message (mc_stack m))
       [(''direction'', PStr INTERNAL),
        (''listen'', PStr (peer_text (transport_address (sk_transport (mc_stack m))))),
        (''next_hop'', PStr (peer_text (sk_peer (mc_stack m)))),
        (''allowed_peers'', PStr (join_comma (sk_allowed_peers (mc_stack m))))])]"

definition start_internal_api :: "mstmt" where
  "start_internal_api = block [
     (\<lambda>m. case server_start (\<lparr>as_server = None, as_thread = None\<rparr>, mc_host m) of
        (a, h) \<Rightarrow> (Inr (), m\<lparr>mc_host := h, mc_stack := (mc_stack m)\<lparr>sk_internal_api := Some a\<rparr>\<rparr>)),
     mget (\<lambda>m. stack_log INFO ''internal api listening''
       [(''direction'', PStr INTERNAL), (''address'', PStr (peer_text (sk_api (mc_stack m))))])]"

section \<open>The loop\<close>

definition arm_loop_timer :: "int \<Rightarrow> (nat \<Rightarrow> stack \<Rightarrow> stack) \<Rightarrow> mstmt" where
  "arm_loop_timer delay f = mget (\<lambda>m. block [
     mworld (\<lambda>w. w\<lparr>w_timers := w_timers w @ [(w_next_id w, ob_clock (w_obs w) + delay)],
                   w_next_id := w_next_id w + 1\<rparr>),
     supd (f (w_next_id (mc_world m)))])"

text \<open>\<^verbatim>\<open>run\<close> up to the blocking loop, with the fields the application names for the reload.\<close>

definition stack_run :: "fields \<Rightarrow> mstmt" where
  "stack_run reload_fields = block [
     arm_loop_timer 100 (\<lambda>t s. s\<lparr>sk_shutdown_timer := Some t\<rparr>),
     arm_loop_timer 1000 (\<lambda>t s. s\<lparr>sk_reload_timer := Some t\<rparr>),
     stack_log INFO ''sippy event loop running''
       ([(''direction'', PStr INTERNAL)] @ reload_fields @ [(''reload_poll_seconds'', PStr ''1.0'')]),
     act (\<lambda>m. LoopEntered)]"

definition poll_shutdown :: "shutdown_controller \<Rightarrow> mstmt" where
  "poll_shutdown sd = whenp (sd_requested sd) (act (\<lambda>m. LoopBroken))"

section \<open>Stop\<close>

definition cancel_loop_timer :: "nat option \<Rightarrow> world \<Rightarrow> world" where
  "cancel_loop_timer t w = (case t of None \<Rightarrow> w | Some i \<Rightarrow> disarm i w)"

definition stop_loop_timers :: mstmt where
  "stop_loop_timers = block [
     mget (\<lambda>m. mworld (cancel_loop_timer (sk_shutdown_timer (mc_stack m)))),
     supd (\<lambda>s. s\<lparr>sk_shutdown_timer := None\<rparr>),
     mget (\<lambda>m. mworld (cancel_loop_timer (sk_reload_timer (mc_stack m)))),
     supd (\<lambda>s. s\<lparr>sk_reload_timer := None\<rparr>)]"

definition stop_call_map :: mstmt where
  "stop_call_map = mget (\<lambda>m. case sk_call_map (mc_stack m) of
     None \<Rightarrow> ret ()
   | Some cm \<Rightarrow> (case map_dispose (cm, mc_world m) of
       (cm', w') \<Rightarrow> upd (\<lambda>m. m\<lparr>mc_world := w', mc_stack := (mc_stack m)\<lparr>sk_call_map := Some cm'\<rparr>\<rparr>)))"

definition stop_transactions :: mstmt where
  "stop_transactions = mget (\<lambda>m. case sk_transaction_manager (mc_stack m) of
     None \<Rightarrow> ret ()
   | Some tm \<Rightarrow> (case cancel_transaction_timers tm (mc_txn_armed m) of
       (n, tm', armed') \<Rightarrow> block [
         upd (\<lambda>m. m\<lparr>mc_txn_armed := armed'\<rparr>),
         act (\<lambda>m. TmShutdown (map fst (w_timers (mc_world m))) (mc_txn_armed m)),
         supd (\<lambda>s. s\<lparr>sk_transaction_manager := None\<rparr>)]))"

definition stop_internal_api :: mstmt where
  "stop_internal_api = mget (\<lambda>m. case sk_internal_api (mc_stack m) of
     None \<Rightarrow> ret ()
   | Some a \<Rightarrow> (case server_stop (a, mc_host m) of
       (a', h) \<Rightarrow> upd (\<lambda>m. m\<lparr>mc_host := h, mc_stack := (mc_stack m)\<lparr>sk_internal_api := None\<rparr>\<rparr>)))"

definition stack_stop :: mstmt where
  "stack_stop = block [stop_loop_timers, stop_call_map, stop_transactions, stop_internal_api,
     transport_do transport_stop]"

section \<open>Facts\<close>

text \<open>The loop timers the stack and the controllers of its call map hold.\<close>

definition held_timers :: "stack \<Rightarrow> nat option set" where
  "held_timers s = {sk_shutdown_timer s, sk_reload_timer s}
     \<union> (case sk_call_map s of None \<Rightarrow> {} | Some cm \<Rightarrow> bc_no_answer_timer ` set (cm_controllers cm))"

definition manager_opt_timers :: "transaction_manager option \<Rightarrow> nat set" where
  "manager_opt_timers tm = (case tm of None \<Rightarrow> {} | Some t \<Rightarrow> manager_timers t)"

definition map_timers :: "call_map option \<Rightarrow> nat option list" where
  "map_timers cm = (case cm of None \<Rightarrow> [] | Some m \<Rightarrow> map bc_no_answer_timer (cm_controllers m))"

lemma held_timers_map:
  "held_timers s = {sk_shutdown_timer s, sk_reload_timer s} \<union> set (map_timers (sk_call_map s))"
  by (simp add: held_timers_def map_timers_def split: option.splits)

lemma cancel_loop_timer_timers [simp]:
  "w_timers (cancel_loop_timer t w) = filter (\<lambda>x. Some (fst x) \<noteq> t) (w_timers w)"
  by (auto simp: cancel_loop_timer_def disarm_def split: option.splits intro!: filter_True [symmetric])

lemma cancel_loop_timer_sip [simp]: "w_sip (cancel_loop_timer t w) = w_sip w"
  by (simp add: cancel_loop_timer_def disarm_def split: option.splits)

lemma run_stop_loop_timers [run_simps]:
  "bindp stop_loop_timers g m = g () (m\<lparr>
     mc_world := cancel_loop_timer (sk_reload_timer (mc_stack m))
       (cancel_loop_timer (sk_shutdown_timer (mc_stack m)) (mc_world m)),
     mc_stack := (mc_stack m)\<lparr>sk_shutdown_timer := None, sk_reload_timer := None\<rparr>\<rparr>)"
  by (simp add: stop_loop_timers_def mget_def mworld_def supd_def bindp_def)

definition dispose_map :: "machine \<Rightarrow> machine" where
  "dispose_map m = (case sk_call_map (mc_stack m) of None \<Rightarrow> m
     | Some cm \<Rightarrow> (case map_dispose (cm, mc_world m) of (cm', w') \<Rightarrow>
         m\<lparr>mc_world := w', mc_stack := (mc_stack m)\<lparr>sk_call_map := Some cm'\<rparr>\<rparr>))"

lemma run_stop_call_map [run_simps]: "bindp stop_call_map g m = g () (dispose_map m)"
  by (simp add: stop_call_map_def dispose_map_def mget_def bindp_def split: option.splits prod.splits)

lemma dispose_map_fields [simp]:
  "sk_transport (mc_stack (dispose_map m)) = sk_transport (mc_stack m)"
  "sk_shutdown_timer (mc_stack (dispose_map m)) = sk_shutdown_timer (mc_stack m)"
  "sk_reload_timer (mc_stack (dispose_map m)) = sk_reload_timer (mc_stack m)"
  "sk_transaction_manager (mc_stack (dispose_map m)) = sk_transaction_manager (mc_stack m)"
  "sk_internal_api (mc_stack (dispose_map m)) = sk_internal_api (mc_stack m)"
  "mc_net (dispose_map m) = mc_net m" "mc_host (dispose_map m) = mc_host m"
  "mc_txn_armed (dispose_map m) = mc_txn_armed m" "mc_acts (dispose_map m) = mc_acts m"
  by (simp_all add: dispose_map_def split: option.splits prod.splits)

lemma dispose_map_spec:
  "w_timers (mc_world (dispose_map m)) =
     filter (\<lambda>x. Some (fst x) \<notin> set (map_timers (sk_call_map (mc_stack m)))) (w_timers (mc_world m))"
  "w_sip (mc_world (dispose_map m)) = w_sip (mc_world m)"
  "map_timers (sk_call_map (mc_stack (dispose_map m))) =
     replicate (length (map_timers (sk_call_map (mc_stack m)))) None"
  "sk_call_map (mc_stack m') = sk_call_map (mc_stack (dispose_map m)) \<Longrightarrow> dispose_map m' = m'"
proof -
  have "w_timers (mc_world (dispose_map m)) =
     filter (\<lambda>x. Some (fst x) \<notin> set (map_timers (sk_call_map (mc_stack m)))) (w_timers (mc_world m))
   \<and> w_sip (mc_world (dispose_map m)) = w_sip (mc_world m)
   \<and> map_timers (sk_call_map (mc_stack (dispose_map m))) =
     replicate (length (map_timers (sk_call_map (mc_stack m)))) None
   \<and> (sk_call_map (mc_stack m') = sk_call_map (mc_stack (dispose_map m)) \<longrightarrow> dispose_map m' = m')"
  proof (cases "sk_call_map (mc_stack m)")
    case None
    then show ?thesis by (simp add: dispose_map_def map_timers_def)
  next
    case (Some cm)
    obtain cm' w' where d: "map_dispose (cm, mc_world m) = (cm', w')"
      by (cases "map_dispose (cm, mc_world m)")
    show ?thesis
      using map_dispose_spec [OF d] Some by (simp add: dispose_map_def map_timers_def d)
  qed
  then show "w_timers (mc_world (dispose_map m)) =
     filter (\<lambda>x. Some (fst x) \<notin> set (map_timers (sk_call_map (mc_stack m)))) (w_timers (mc_world m))"
    "w_sip (mc_world (dispose_map m)) = w_sip (mc_world m)"
    "map_timers (sk_call_map (mc_stack (dispose_map m))) =
     replicate (length (map_timers (sk_call_map (mc_stack m)))) None"
    "sk_call_map (mc_stack m') = sk_call_map (mc_stack (dispose_map m)) \<Longrightarrow> dispose_map m' = m'"
    by blast+
qed

definition drop_transactions :: "machine \<Rightarrow> machine" where
  "drop_transactions m = (case sk_transaction_manager (mc_stack m) of None \<Rightarrow> m
     | Some tm \<Rightarrow> (case cancel_transaction_timers tm (mc_txn_armed m) of (n, tm', armed') \<Rightarrow>
         m\<lparr>mc_txn_armed := armed', mc_acts := mc_acts m @ [TmShutdown (map fst (w_timers (mc_world m))) armed'],
           mc_stack := (mc_stack m)\<lparr>sk_transaction_manager := None\<rparr>\<rparr>))"

lemma run_stop_transactions [run_simps]: "bindp stop_transactions g m = g () (drop_transactions m)"
  by (simp add: stop_transactions_def drop_transactions_def mget_def act_def supd_def bindp_def
      split: option.splits prod.splits)

lemma drop_transactions_spec:
  "mc_world (drop_transactions m) = mc_world m" "mc_net (drop_transactions m) = mc_net m"
  "mc_host (drop_transactions m) = mc_host m"
  "mc_stack (drop_transactions m) = (mc_stack m)\<lparr>sk_transaction_manager := None\<rparr>"
  "set (mc_txn_armed (drop_transactions m)) =
     set (mc_txn_armed m) - manager_opt_timers (sk_transaction_manager (mc_stack m))"
  "mc_acts (drop_transactions m) = mc_acts m @ (case sk_transaction_manager (mc_stack m) of None \<Rightarrow> []
     | Some tm \<Rightarrow> [TmShutdown (map fst (w_timers (mc_world m))) (mc_txn_armed (drop_transactions m))])"
proof -
  have s: "set armed' = set armed - manager_timers tm" if "cancel_transaction_timers tm armed = (n, tm', armed')"
    for tm armed n tm' armed' using cancel_transaction_timers_spec(1) [OF that] by simp
  show "mc_world (drop_transactions m) = mc_world m" "mc_net (drop_transactions m) = mc_net m"
    "mc_host (drop_transactions m) = mc_host m"
    "mc_stack (drop_transactions m) = (mc_stack m)\<lparr>sk_transaction_manager := None\<rparr>"
    "set (mc_txn_armed (drop_transactions m)) =
     set (mc_txn_armed m) - manager_opt_timers (sk_transaction_manager (mc_stack m))"
    "mc_acts (drop_transactions m) = mc_acts m @ (case sk_transaction_manager (mc_stack m) of None \<Rightarrow> []
     | Some tm \<Rightarrow> [TmShutdown (map fst (w_timers (mc_world m))) (mc_txn_armed (drop_transactions m))])"
    by (auto simp: drop_transactions_def manager_opt_timers_def s split: option.splits prod.splits)
qed

definition drop_api :: "machine \<Rightarrow> machine" where
  "drop_api m = (case sk_internal_api (mc_stack m) of None \<Rightarrow> m
     | Some a \<Rightarrow> m\<lparr>mc_host := snd (server_stop (a, mc_host m)),
         mc_stack := (mc_stack m)\<lparr>sk_internal_api := None\<rparr>\<rparr>)"

lemma run_stop_internal_api [run_simps]: "bindp stop_internal_api g m = g () (drop_api m)"
  by (simp add: stop_internal_api_def drop_api_def mget_def bindp_def split: option.splits prod.splits)

lemma drop_api_spec:
  "mc_world (drop_api m) = mc_world m" "mc_net (drop_api m) = mc_net m" "mc_acts (drop_api m) = mc_acts m"
  "mc_txn_armed (drop_api m) = mc_txn_armed m"
  "mc_stack (drop_api m) = (mc_stack m)\<lparr>sk_internal_api := None\<rparr>"
  "ah_exiting (mc_host (drop_api m)) = ah_exiting (mc_host m) @
     (case sk_internal_api (mc_stack m) of None \<Rightarrow> []
      | Some a \<Rightarrow> (case as_server a of None \<Rightarrow> [] | Some n \<Rightarrow> [n]))"
  by (auto simp: drop_api_def server_stop_def split: option.splits)

lemma transport_stop_spec:
  assumes "transport_stop (t, n) = (r, (t', n'))"
  shows "r = Inr ()" "transport_owned t' = {}" "set (nt_open n') = set (nt_open n) - transport_owned t"
    "transport_stop (t', n') = (Inr (), (t', n'))"
proof -
  have "r = Inr () \<and> transport_owned t' = {} \<and> set (nt_open n') = set (nt_open n) - transport_owned t
    \<and> transport_stop (t', n') = (Inr (), (t', n'))"
  proof (cases t)
    case (UdpBinding u)
    then show ?thesis using assms by auto
  next
    case (TlsBinding b)
    have idle: "close_socket None k = k" for k by (simp add: close_socket_def)
    show ?thesis
      using assms TlsBinding idle
      by (auto simp: tls_stop_def tls_owned_def close_socket_facts(2))
  qed
  then show "r = Inr ()" "transport_owned t' = {}" "set (nt_open n') = set (nt_open n) - transport_owned t"
    "transport_stop (t', n') = (Inr (), (t', n'))" by blast+
qed

definition drop_loop_timers :: "machine \<Rightarrow> machine" where
  "drop_loop_timers m = m\<lparr>
     mc_world := cancel_loop_timer (sk_reload_timer (mc_stack m))
       (cancel_loop_timer (sk_shutdown_timer (mc_stack m)) (mc_world m)),
     mc_stack := (mc_stack m)\<lparr>sk_shutdown_timer := None, sk_reload_timer := None\<rparr>\<rparr>"

definition stopping :: "machine \<Rightarrow> machine" where
  "stopping m = drop_api (drop_transactions (dispose_map (drop_loop_timers m)))"

lemma run_stack_stop:
  "stack_stop m = (case transport_stop (sk_transport (mc_stack m), mc_net m) of (r, (t, n)) \<Rightarrow>
     (Inr (), (stopping m)\<lparr>mc_stack := (mc_stack (stopping m))\<lparr>sk_transport := t\<rparr>, mc_net := n\<rparr>))"
proof -
  obtain r t n where t: "transport_stop (sk_transport (mc_stack m), mc_net m) = (r, (t, n))"
    by (metis prod.collapse)
  have keep: "sk_transport (mc_stack (stopping m)) = sk_transport (mc_stack m)" "mc_net (stopping m) = mc_net m"
    by (simp_all add: stopping_def drop_api_spec drop_transactions_spec drop_loop_timers_def)
  have "stack_stop m = bindp (transport_do transport_stop) (\<lambda>_. ret ()) (stopping m)"
    by (simp add: stack_stop_def run_simps stopping_def drop_loop_timers_def)
  then show ?thesis
    using transport_stop_spec(1) [OF t] by (simp add: transport_do_def bindp_def keep t)
qed

lemma stopping_spec:
  "sk_shutdown_timer (mc_stack (stopping m)) = None" "sk_reload_timer (mc_stack (stopping m)) = None"
  "sk_transaction_manager (mc_stack (stopping m)) = None" "sk_internal_api (mc_stack (stopping m)) = None"
  "set (map_timers (sk_call_map (mc_stack (stopping m)))) \<subseteq> {None}"
  "w_timers (mc_world (stopping m)) =
     filter (\<lambda>x. Some (fst x) \<notin> held_timers (mc_stack m)) (w_timers (mc_world m))"
  "w_sip (mc_world (stopping m)) = w_sip (mc_world m)"
  "set (mc_txn_armed (stopping m)) =
     set (mc_txn_armed m) - manager_opt_timers (sk_transaction_manager (mc_stack m))"
  "ah_exiting (mc_host (stopping m)) = ah_exiting (mc_host m) @
     (case sk_internal_api (mc_stack m) of None \<Rightarrow> []
      | Some a \<Rightarrow> (case as_server a of None \<Rightarrow> [] | Some n \<Rightarrow> [n]))"
  "mc_acts (stopping m) = mc_acts m @ (case sk_transaction_manager (mc_stack m) of None \<Rightarrow> []
     | Some tm \<Rightarrow> [TmShutdown (map fst (w_timers (mc_world (stopping m)))) (mc_txn_armed (stopping m))])"
  by (auto simp: stopping_def drop_api_spec drop_transactions_spec dispose_map_spec drop_loop_timers_def
      held_timers_map filter_filter split: option.splits intro!: filter_cong)

lemma stopping_idle:
  assumes "sk_shutdown_timer (mc_stack m) = None" "sk_reload_timer (mc_stack m) = None"
    "sk_transaction_manager (mc_stack m) = None" "sk_internal_api (mc_stack m) = None"
    "sk_call_map (mc_stack m) = sk_call_map (mc_stack (dispose_map m0))"
  shows "stopping m = m"
proof -
  have "drop_loop_timers m = m"
    using assms(1,2) by (simp add: drop_loop_timers_def cancel_loop_timer_def)
  moreover have "dispose_map m = m" using assms(5) by (rule dispose_map_spec(4))
  ultimately show ?thesis
    using assms(3,4) by (simp add: stopping_def drop_transactions_def drop_api_def)
qed

definition stack_logged :: "log_level \<Rightarrow> string \<Rightarrow> fields \<Rightarrow> machine \<Rightarrow> machine" where
  "stack_logged level event kw m = m\<lparr>mc_world := wobs (\<lambda>b. b\<lparr>ob_log :=
     snd (log_event ''main'' level event kw (ob_log b))\<rparr>) (mc_world m)\<rparr>"

lemma stack_log_clean: "fields_clean kw \<Longrightarrow> stack_log level event kw m = (Inr (), stack_logged level event kw m)"
  using log_event_clean [of kw "''main''" level event "ob_log (w_obs (mc_world m))"]
  by (auto simp: stack_log_def stack_logged_def wobs_def split: prod.splits)

lemma stack_logged_fields [simp]:
  "mc_stack (stack_logged level event kw m) = mc_stack m" "mc_net (stack_logged level event kw m) = mc_net m"
  "mc_host (stack_logged level event kw m) = mc_host m" "mc_acts (stack_logged level event kw m) = mc_acts m"
  "mc_txn_armed (stack_logged level event kw m) = mc_txn_armed m"
  "w_timers (mc_world (stack_logged level event kw m)) = w_timers (mc_world m)"
  "w_sip (mc_world (stack_logged level event kw m)) = w_sip (mc_world m)"
  "w_conf (mc_world (stack_logged level event kw m)) = w_conf (mc_world m)"
  "w_next_id (mc_world (stack_logged level event kw m)) = w_next_id (mc_world m)"
  by (simp_all add: stack_logged_def wobs_def)

lemma bound_kwargs_clean:
  "fields_clean [(''direction'', a), (''listen'', b), (''next_hop'', c), (''allowed_peers'', d)]"
  "fields_clean [(''direction'', a), (''address'', b)]"
  by (simp_all add: fields_clean_iff ctl_reserved_def reserved_attr_def RECORD_ATTRS_def)

text \<open>The stack once its identity is published and its transport has been started.\<close>

definition own_identity :: "stack \<Rightarrow> sip_conf" where
  "own_identity s = \<lparr>sc_address = fst (transport_address (sk_transport s)),
     sc_port = snd (transport_address (sk_transport s)), sc_uaname = sk_agent_name s\<rparr>"

definition published :: "transport \<Rightarrow> net \<Rightarrow> machine \<Rightarrow> machine" where
  "published t n m = m\<lparr>mc_world := (mc_world m)\<lparr>w_conf := own_identity (mc_stack m)\<rparr>,
     mc_stack := (mc_stack m)\<lparr>sk_transport := t\<rparr>, mc_net := n\<rparr>"

definition bound_kwargs :: "stack \<Rightarrow> fields" where
  "bound_kwargs s = [(''direction'', PStr INTERNAL),
     (''listen'', PStr (peer_text (transport_address (sk_transport s)))),
     (''next_hop'', PStr (peer_text (sk_peer s))), (''allowed_peers'', PStr (join_comma (sk_allowed_peers s)))]"

definition configured :: "gconf \<Rightarrow> machine \<Rightarrow> machine" where
  "configured g m = m\<lparr>mc_stack := (mc_stack m)\<lparr>sk_global_config := Some g\<rparr>\<rparr>"

definition mapped :: "call_map \<Rightarrow> machine \<Rightarrow> machine" where
  "mapped cm m = m\<lparr>mc_stack := (mc_stack m)\<lparr>sk_call_map := Some cm\<rparr>\<rparr>"

definition bound :: "gconf \<Rightarrow> machine \<Rightarrow> machine" where
  "bound g m = stack_logged INFO (sk_bound_log_message (mc_stack m)) (bound_kwargs (mc_stack m))
     (m\<lparr>mc_acts := mc_acts m @ [TmBound g], mc_stack := (mc_stack m)\<lparr>sk_transaction_manager :=
        Some \<lparr>tm_tclient = Some [], tm_tserver = Some []\<rparr>\<rparr>\<rparr>)"

lemmas machine_steps = mget_def supd_def mworld_def act_def of_answer_def

lemma run_stack_start:
  assumes t: "transport_start (sa_os sa) (sk_transport (mc_stack m), mc_net m) = (r, (t', n'))"
  shows "stack_start sa m = (case r of Inl e \<Rightarrow> (Inl e, published t' n' m)
    | Inr _ \<Rightarrow> (case transport_sip_config t' of Inl e \<Rightarrow> (Inl e, published t' n' m)
      | Inr cfg \<Rightarrow> let g = stack_config (mc_stack m) cfg; m1 = configured g (published t' n' m) in
         (case sa_call_map sa g of Inl e \<Rightarrow> (Inl e, m1)
          | Inr cm \<Rightarrow> if sa_tm_bind_ok sa then (Inr (), bound g (mapped cm m1))
                      else (Inl OSError, mapped cm m1))))"
proof -
  have cfg: "stack_config ((mc_stack m)\<lparr>sk_transport := t'\<rparr>) c = stack_config (mc_stack m) c" for c
    by (simp add: stack_config_def)
  have pub: "published t' n' m = m\<lparr>mc_world := (mc_world m)\<lparr>w_conf :=
       \<lparr>sc_address = fst (transport_address (sk_transport (mc_stack m))),
        sc_port = snd (transport_address (sk_transport (mc_stack m))),
        sc_uaname = sk_agent_name (mc_stack m)\<rparr>\<rparr>,
     mc_stack := (mc_stack m)\<lparr>sk_transport := t'\<rparr>, mc_net := n'\<rparr>"
    by (simp add: published_def own_identity_def)
  show ?thesis
  proof (cases r)
    case (Inl e)
    then show ?thesis
      by (simp add: stack_start_def machine_steps transport_do_def bindp_def t pub)
  next
    case (Inr u)
    note r = this
    show ?thesis
    proof (cases "transport_sip_config t'")
      case (Inl e)
      then show ?thesis
        by (simp add: stack_start_def machine_steps transport_do_def bindp_def t pub r)
    next
      case (Inr c)
      show ?thesis
      proof (cases "sa_call_map sa (stack_config (mc_stack m) c)")
        case (Inl e)
        then show ?thesis
          by (simp add: stack_start_def machine_steps transport_do_def bindp_def t pub r Inr cfg
              Let_def configured_def)
      next
        case (Inr cm)
        then show ?thesis
          using \<open>transport_sip_config t' = Inr c\<close>
          by (simp add: stack_start_def machine_steps transport_do_def bindp_def t pub r cfg
              Let_def configured_def mapped_def bound_def bound_kwargs_def stack_log_clean
              bound_kwargs_clean whenp_def) (cases m, cases "mc_stack m", simp)
      qed
    qed
  qed
qed

section \<open>Properties\<close>

text \<open>
  C27: Stopping the stack is complete. Whatever was started, a stop raises nothing and leaves
  no loop timer, no no-answer timer of a known controller, no transaction manager and no
  API server held; exactly the loop timers the stack and its controllers held and the
  transaction timers of the manager are disarmed, the API server that ran is told to exit,
  the transport owns no socket and only its own sockets are closed, and no message is sent.
  The order holds as well: when the transaction manager is shut down (never, if it was not
  bound), the timers still armed are exactly those left at the end of the stop.
\<close>
theorem stack_stop_complete:
  "case stack_stop m of (r, m') \<Rightarrow> r = Inr ()
   \<and> held_timers (mc_stack m') = {None}
   \<and> sk_transaction_manager (mc_stack m') = None \<and> sk_internal_api (mc_stack m') = None
   \<and> w_timers (mc_world m') = filter (\<lambda>x. Some (fst x) \<notin> held_timers (mc_stack m)) (w_timers (mc_world m))
   \<and> set (mc_txn_armed m') =
       set (mc_txn_armed m) - manager_opt_timers (sk_transaction_manager (mc_stack m))
   \<and> ah_exiting (mc_host m') = ah_exiting (mc_host m) @
       (case sk_internal_api (mc_stack m) of None \<Rightarrow> []
        | Some a \<Rightarrow> (case as_server a of None \<Rightarrow> [] | Some n \<Rightarrow> [n]))
   \<and> transport_owned (sk_transport (mc_stack m')) = {}
   \<and> set (nt_open (mc_net m')) = set (nt_open (mc_net m)) - transport_owned (sk_transport (mc_stack m))
   \<and> w_sip (mc_world m') = w_sip (mc_world m)
   \<and> mc_acts m' = mc_acts m @ (case sk_transaction_manager (mc_stack m) of None \<Rightarrow> []
       | Some tm \<Rightarrow> [TmShutdown (map fst (w_timers (mc_world m'))) (mc_txn_armed m')])"
proof -
  obtain r t n where t: "transport_stop (sk_transport (mc_stack m), mc_net m) = (r, (t, n))"
    by (metis prod.collapse)
  have held: "held_timers (mc_stack (stopping m)) = {None}"
    using stopping_spec(1,2,5) [of m] by (auto simp: held_timers_map)
  have keep: "held_timers (s\<lparr>sk_transport := t\<rparr>) = held_timers s" for s
    by (simp add: held_timers_def)
  show ?thesis
    using transport_stop_spec [OF t] held
    by (simp add: run_stack_stop t keep) (simp add: stopping_spec(3,4,6-9) stopping_spec(10) [of m] split: option.split)
qed

text \<open>Stopping twice is stopping once: the second stop finds nothing to release.\<close>
lemma stack_stop_idempotent:
  "stack_stop (snd (stack_stop m)) = (Inr (), snd (stack_stop m))"
proof -
  obtain r t n where t: "transport_stop (sk_transport (mc_stack m), mc_net m) = (r, (t, n))"
    by (metis prod.collapse)
  let ?m = "(stopping m)\<lparr>mc_stack := (mc_stack (stopping m))\<lparr>sk_transport := t\<rparr>, mc_net := n\<rparr>"
  have "sk_call_map (mc_stack ?m) = sk_call_map (mc_stack (dispose_map (drop_loop_timers m)))"
    by (simp add: stopping_def drop_api_spec drop_transactions_spec)
  then have "stopping ?m = ?m"
    by (intro stopping_idle [of ?m "drop_loop_timers m"]) (simp_all add: stopping_spec)
  then have "stack_stop ?m = (Inr (), ?m)"
    using transport_stop_spec(4) [OF t] by (simp add: run_stack_stop)
  then show ?thesis by (simp add: run_stack_stop t)
qed


lemma start_transport:
  assumes "transport_start (sa_os sa) (sk_transport (mc_stack m), mc_net m) = (r, (t, n))"
  shows "sk_transport (mc_stack (snd (stack_start sa m))) = t" "mc_net (snd (stack_start sa m)) = n"
  by (simp_all add: run_stack_start [OF assms] Let_def published_def configured_def mapped_def bound_def
      split: sum.split)

text \<open>
  A start can always be undone. However far a start of a stack with a transport that owns
  nothing came (a certificate that cannot be read, a port that is taken, a call map that
  cannot be built), the stop after it leaves exactly the sockets that were open before.
\<close>
lemma start_stop_releases:
  assumes "net_ok (mc_net m)" "transport_owned (sk_transport (mc_stack m)) = {}"
  shows "set (nt_open (mc_net (snd (stack_stop (snd (stack_start sa m)))))) = set (nt_open (mc_net m))"
proof -
  let ?m = "snd (stack_start sa m)"
  obtain r t n where t: "transport_start (sa_os sa) (sk_transport (mc_stack m), mc_net m) = (r, (t, n))"
    by (metis prod.collapse)
  obtain r' t' n' where u: "transport_stop (t, n) = (r', (t', n'))" by (metis prod.collapse)
  have "set (nt_open (snd (trunk.cycle ([Some (sa_os sa)] @ [None])
      (sk_transport (mc_stack m), mc_net m)))) = set (nt_open (mc_net m))"
    by (rule trunk.stop_releases) (use assms in \<open>simp_all add: net_fine_def\<close>)
  then have "set (nt_open n') = set (nt_open (mc_net m))" by (simp add: t u)
  then show ?thesis by (simp add: run_stack_stop start_transport [OF t] u)
qed

section \<open>Sample\<close>

definition sample_os :: os_answers where
  "sample_os = \<lparr>oa_cert_ok = True, oa_ca_ok = True, oa_tls_bind_ok = True, oa_udp_probe_ok = True,
     oa_udp_port = 40000, oa_udp_bind_ok = False\<rparr>"

definition sample_stack :: "transport \<Rightarrow> stack" where
  "sample_stack t = mk_stack t (''sbc'', 5060) [''10.0.0.2''] (''127.0.0.1'', 8080) ''as'' ''bound'' False NoLogger"

definition sample_machine :: "transport \<Rightarrow> machine" where
  "sample_machine t = \<lparr>mc_stack = sample_stack t, mc_world = sample_world,
     mc_net = \<lparr>nt_open = [7], nt_next = 8\<rparr>, mc_host = \<lparr>ah_running = [], ah_exiting = [], ah_next = 0\<rparr>,
     mc_txn_armed = [], mc_acts = []\<rparr>"

definition sample_tls :: transport where
  "sample_tls = TlsBinding (mk_tls_transport ''192.0.2.9'' 5061 ''c'' ''k'' None)"

lemma sample_machine_facts [simp]:
  "mc_world (sample_machine t) = sample_world" "sk_transport (mc_stack (sample_machine t)) = t"
  "mc_net (sample_machine t) = \<lparr>nt_open = [7], nt_next = 8\<rparr>" "transport_owned sample_tls = {}"
  "sk_agent_name (mc_stack (sample_machine t)) = ''as''" "sk_call_map (mc_stack (sample_machine t)) = None"
  "sk_shutdown_timer (mc_stack (sample_machine t)) = None" "sk_reload_timer (mc_stack (sample_machine t)) = None"
  by (simp_all add: sample_machine_def sample_stack_def mk_stack_def sample_tls_def mk_tls_transport_def tls_owned_def)

text \<open>
  C28: A TLS stack announces the loopback. After a successful start over TLS the call map
  works under a configuration taken from the bridge's local port, so the user agent of an
  accepted call is created and answered under 127.0.0.1 and that port, not under the
  address and the port the operator configured and the process published.
\<close>
theorem tls_calls_announce_loopback:
  assumes "sk_transport (mc_stack m) = TlsBinding t" "obs_ok (w_obs (mc_world m))"
    and "sa_call_map sa = (\<lambda>g. Inr (mk_call_map g allowed))" "stack_start sa m = (Inr (), m')"
    and "source_address rq \<in> set allowed" "rq_to_tag rq = None" "rq_method rq = ''INVITE''" "inbound_ok hk rq"
  shows "\<exists>cm w' u. sk_call_map (mc_stack m') = Some cm
    \<and> snd (snd (map_recv_request (\<lambda>nh. Inr (mk_controller (cm_conf cm) nh)) hk rq (cm, mc_world m'))) = w'
    \<and> last (w_sip w') = UaRecvRequest u rq \<lparr>sc_address = ''127.0.0.1'', sc_port = oa_udp_port (sa_os sa),
         sc_uaname = sk_agent_name (mc_stack m)\<rparr>
    \<and> w_conf w' = \<lparr>sc_address = tt_address t, sc_port = tt_port t, sc_uaname = sk_agent_name (mc_stack m)\<rparr>"
proof -
  obtain r t1 n1 where st: "tls_start (sa_os sa) (t, mc_net m) = (r, (t1, n1))" by (metis prod.collapse)
  then have tr: "transport_start (sa_os sa) (sk_transport (mc_stack m), mc_net m) = (r, (TlsBinding t1, n1))"
    by (simp add: assms(1))
  have r: "r = Inr ()" using assms(4) by (cases r) (simp_all add: run_stack_start [OF tr])
  have cfg: "tls_sip_config t1 = Inr (''127.0.0.1'', oa_udp_port (sa_os sa))"
    using start_config_some st by (simp add: r)
  let ?g = "stack_config (mc_stack m) (''127.0.0.1'', oa_udp_port (sa_os sa))"
  let ?cm = "mk_call_map ?g allowed"
  have m': "m' = bound ?g (mapped ?cm (configured ?g (published (TlsBinding t1) n1 m)))"
    using assms(3,4) by (simp add: run_stack_start [OF tr] r cfg Let_def split: if_splits)
  have cm: "sk_call_map (mc_stack m') = Some ?cm" "w_conf (mc_world m') = own_identity (mc_stack m)"
    by (simp_all add: m' bound_def mapped_def configured_def published_def)
  have ok: "obs_ok (w_obs (mc_world m'))"
    using assms(2) by (simp add: m' bound_def mapped_def configured_def published_def stack_logged_def obs_ok_def wobs_def)
  obtain f where f: "hk_inbound_fields hk rq = Inr f" "fields_clean (relay_kwargs [] [] f)"
    using assms(8) by (auto simp: inbound_ok_def split: sum.splits)
  let ?c = "mk_controller ?g (gc_nh_addr ?g)"
  have "map_recv_request (\<lambda>nh. Inr (mk_controller (cm_conf ?cm) nh)) hk rq (?cm, mc_world m') =
    (Inr FromAgent, (?cm\<lparr>cm_controllers := cm_controllers ?cm @
        [answered rq (mc_world m') (?c\<lparr>bc_trunk_request := Some rq\<rparr>)]\<rparr>,
       answered_world rq (answered rq (mc_world m') (?c\<lparr>bc_trunk_request := Some rq\<rparr>)) f (mc_world m')))"
    by (rule run_admission [OF _ assms(6,7) _ ok f]) (use assms(5) in \<open>simp_all add: mk_call_map_def\<close>)
  then show ?thesis
    using cm assms(1)
    by (simp add: answered_world_def answered_def pinned_identity_def mk_controller_def own_identity_def)
       (simp add: stack_config_def)
qed

theorem tls_calls_announce_loopback_witness:
  "\<exists>cm w' u m'. stack_start \<lparr>sa_os = sample_os\<lparr>oa_udp_bind_ok := True\<rparr>,
      sa_call_map = (\<lambda>g. Inr (mk_call_map g [''10.0.0.2''])), sa_tm_bind_ok = True\<rparr> (sample_machine sample_tls) = (Inr (), m')
    \<and> sk_call_map (mc_stack m') = Some cm
    \<and> snd (snd (map_recv_request (\<lambda>nh. Inr (mk_controller (cm_conf cm) nh)) base_hooks sample_request
         (cm, mc_world m'))) = w'
    \<and> last (w_sip w') = UaRecvRequest u sample_request
         \<lparr>sc_address = ''127.0.0.1'', sc_port = 40000, sc_uaname = ''as''\<rparr>"
proof -
  let ?sa = "\<lparr>sa_os = sample_os\<lparr>oa_udp_bind_ok := True\<rparr>,
      sa_call_map = (\<lambda>g. Inr (mk_call_map g [''10.0.0.2''])), sa_tm_bind_ok = True\<rparr>"
  obtain r t n where t: "transport_start (sa_os ?sa) (sk_transport (mc_stack (sample_machine sample_tls)),
      mc_net (sample_machine sample_tls)) = (r, (t, n))" by (metis prod.collapse)
  then have "r = Inr ()" "transport_sip_config t = Inr (''127.0.0.1'', 40000)"
    by (auto simp: sample_tls_def mk_tls_transport_def sample_os_def tls_start_def bindp_def on_fst_def whenp_def
        open_tls_listener_def open_socket_def allocate_udp_port_def open_udp_sockets_def tls_sip_config_def)
  then obtain m' where m': "stack_start ?sa (sample_machine sample_tls) = (Inr (), m')"
    by (simp add: run_stack_start [OF t] Let_def)
  have "sk_transport (mc_stack (sample_machine sample_tls)) =
      TlsBinding (mk_tls_transport ''192.0.2.9'' 5061 ''c'' ''k'' None)"
    by (simp add: sample_tls_def)
  moreover have "source_address sample_request \<in> set [''10.0.0.2'']" "rq_to_tag sample_request = None"
    "rq_method sample_request = ''INVITE''"
    by (simp_all add: source_address_def sample_request_def)
  moreover have "inbound_ok base_hooks sample_request"
    by (simp add: inbound_ok_def base_hooks_def fields_clean_iff relay_kwargs_def)
  moreover have "obs_ok (w_obs (mc_world (sample_machine sample_tls)))" by (simp add: sample_tracing(4))
  moreover have "sa_call_map ?sa = (\<lambda>g. Inr (mk_call_map g [''10.0.0.2'']))" "oa_udp_port (sa_os ?sa) = 40000"
    by (simp_all add: sample_os_def)
  ultimately show ?thesis
    using tls_calls_announce_loopback [of "sample_machine sample_tls" _ ?sa "[''10.0.0.2'']" m' sample_request base_hooks]
      m' by fastforce
qed

definition run_kwargs :: "fields \<Rightarrow> fields" where
  "run_kwargs reload_fields =
     [(''direction'', PStr INTERNAL)] @ reload_fields @ [(''reload_poll_seconds'', PStr ''1.0'')]"

text \<open>
  The loop owns two timers, and the stop gives them back. Running the stack arms exactly
  the shutdown poller (every 100 ms) and the reload poller (every 1000 ms) before the loop
  is entered; after a run and a stop the armed timers are those armed before the run, less
  those of the call map's controllers.
\<close>
lemma run_then_stop_timers:
  assumes "\<forall>x\<in>set (w_timers (mc_world m)). fst x < w_next_id (mc_world m)"
    and "fields_clean (run_kwargs reload_fields)"
  shows "fst (stack_run reload_fields m) = Inr ()
    \<and> w_timers (mc_world (snd (stack_run reload_fields m))) = w_timers (mc_world m) @
        [(w_next_id (mc_world m), ob_clock (w_obs (mc_world m)) + 100),
         (w_next_id (mc_world m) + 1, ob_clock (w_obs (mc_world m)) + 1000)]
    \<and> mc_acts (snd (stack_run reload_fields m)) = mc_acts m @ [LoopEntered]
    \<and> w_timers (mc_world (snd (stack_stop (snd (stack_run reload_fields m))))) =
        filter (\<lambda>x. Some (fst x) \<notin> set (map_timers (sk_call_map (mc_stack m)))) (w_timers (mc_world m))"
proof -
  let ?n = "w_next_id (mc_world m)" and ?c = "ob_clock (w_obs (mc_world m))"
  let ?t = "w_timers (mc_world m) @ [(?n, ?c + 100), (?n + 1, ?c + 1000)]"
  obtain m1 where run: "stack_run reload_fields m = (Inr (), m1)" and m1: "w_timers (mc_world m1) = ?t"
    "mc_acts m1 = mc_acts m @ [LoopEntered]" "sk_shutdown_timer (mc_stack m1) = Some ?n"
    "sk_reload_timer (mc_stack m1) = Some (?n + 1)" "sk_call_map (mc_stack m1) = sk_call_map (mc_stack m)"
    using assms(2)
    by (simp add: stack_run_def arm_loop_timer_def machine_steps bindp_def stack_log_clean run_kwargs_def)
  obtain r t n where u: "transport_stop (sk_transport (mc_stack m1), mc_net m1) = (r, (t, n))"
    by (metis prod.collapse)
  have "w_timers (mc_world (snd (stack_stop m1))) =
      filter (\<lambda>x. Some (fst x) \<notin> {Some ?n, Some (?n + 1)} \<union> set (map_timers (sk_call_map (mc_stack m)))) ?t"
    by (simp only: run_stack_stop u) (simp add: stopping_spec(6) held_timers_map m1)
  also have "\<dots> = filter (\<lambda>x. Some (fst x) \<notin> set (map_timers (sk_call_map (mc_stack m)))) (w_timers (mc_world m))"
    using assms(1) by (auto intro!: filter_cong)
  finally show ?thesis using run m1 by simp
qed

text \<open>
  One timer escapes the stop. After a failover caused by a failure event, no controller
  holds the timer that was armed for the failed hop: the stop does not disarm it, and it is
  among the timers still armed when the transaction manager is shut down.
\<close>
lemma stop_misses_replaced_timer:
  assumes "call_inv g conf a cid (c, mc_world m)" "bc_uaO c = Some u"
    and "is_fail_or_disconnect ev" "\<not> is_connected (mc_world m) (Some a)" "bc_failover_hops c = hop # rest"
    and "(t, dl) \<in> set (w_timers (mc_world m))"
    and "sk_shutdown_timer (mc_stack m) \<noteq> Some t" "sk_reload_timer (mc_stack m) \<noteq> Some t"
    and "sk_transaction_manager (mc_stack m) = Some tm"
    and "recv_event hk ev u (c, mc_world m) = (r, (c', w'))"
    and "m' = m\<lparr>mc_world := w', mc_stack := (mc_stack m)\<lparr>sk_call_map := Some (cm\<lparr>cm_controllers := [c']\<rparr>)\<rparr>\<rparr>"
  shows "(t, dl) \<in> set (w_timers (mc_world (snd (stack_stop m'))))
    \<and> (\<exists>armed txn. last (mc_acts (snd (stack_stop m'))) = TmShutdown armed txn \<and> t \<in> set armed)"
proof -
  have f: "bc_no_answer_timer c' = None" "w_timers w' = w_timers (mc_world m)"
    using failover_effect [OF assms(1-5), of hk] assms(10) by auto
  have h: "Some t \<notin> held_timers (mc_stack m')" using f assms(7,8) by (simp add: held_timers_def assms(11))
  obtain r1 t1 n1 where u: "transport_stop (sk_transport (mc_stack m'), mc_net m') = (r1, (t1, n1))"
    by (metis prod.collapse)
  have in_timers: "(t, dl) \<in> set (w_timers (mc_world (stopping m')))"
    using h assms(6,11) f by (simp add: stopping_spec(6))
  have tm: "sk_transaction_manager (mc_stack m') = Some tm" using assms(9,11) by simp
  have "t \<in> set (map fst (w_timers (mc_world (stopping m'))))" using in_timers by force
  then show ?thesis using in_timers tm by (simp add: run_stack_stop u stopping_spec(10))
qed

end
