(* ===== verification/CallWalk.thy ===== *)
theory CallWalk
  imports CallProperties
begin

text \<open>
  A call that fails on every hop, from the decision to the answer the caller gets: the exact
  sequence of calls into sippy over the whole walk.
\<close>

text \<open>Each event is raised by the leg that serves the call at that moment.\<close>

fun fail_legs :: "hooks \<Rightarrow> ccevent list \<Rightarrow> cst \<Rightarrow> cst" where
  "fail_legs hk [] s = s"
| "fail_legs hk (ev # evs) s = (case bc_uaO (fst s) of None \<Rightarrow> s
     | Some u \<Rightarrow> fail_legs hk evs (snd (recv_event hk ev u s)))"

text \<open>What is asked of sippy for attempts at the given hops, the first on user agent \<open>n\<close>.\<close>

fun attempt_calls :: "gconf \<Rightarrow> sip_conf \<Rightarrow> ccevent \<Rightarrow> nat \<Rightarrow> next_hop list \<Rightarrow> sip_call list" where
  "attempt_calls g conf ev n [] = []"
| "attempt_calls g conf ev n (hop # hops) =
     [UaCreated n (Some (hop_addr hop)) (opt_get (gc_sip_uaname g) []) (local_contact g conf),
      UaRecvEvent n ev (pinned_identity g conf)] @ attempt_calls g conf ev (n + 2) hops"

section \<open>The walk\<close>

text \<open>A call on its way along the hops, the current one being \<open>hop\<close>.\<close>

definition trying :: "nat \<Rightarrow> try_data \<Rightarrow> next_hop \<Rightarrow> cst \<Rightarrow> bool" where
  "trying a td hop s \<longleftrightarrow> (case s of (c, w) \<Rightarrow> obs_ok (w_obs w) \<and> can_originate c
     \<and> bc_pending_event c = Some (CCEventTry td) \<and> bc_uaA c = Some a \<and> a < w_next_id w
     \<and> a \<notin> set (w_connected w) \<and> bc_serving_hop c = Some hop
     \<and> (\<exists>u. bc_uaO c = Some u \<and> u \<noteq> a))"

definition status_of :: "hooks \<Rightarrow> next_hop \<Rightarrow> world \<Rightarrow> peer_status option" where
  "status_of hk hop w = map_of (mr_peer_status (ob_metrics (w_obs w))) (hk_peer_status_key hk hop)"

lemma trying_step:
  assumes t: "trying a td hop (c, w)" and ev: "is_fail_or_disconnect ev"
    and hops: "bc_failover_hops c = hop' # rest" and u: "bc_uaO c = Some u"
  obtains c' w' where "recv_event hk ev u (c, w) = (Inr (), (c', w'))" "trying a td hop' (c', w')"
    "bc_failover_hops c' = rest" "bc_conf c' = bc_conf c" "w_conf w' = w_conf w"
    "w_sip w' = w_sip w @ attempt_calls (bc_conf c) (w_conf w) (CCEventTry td) (w_next_id w) [hop']"
    "w_next_id w' = w_next_id w + 2" "w_connected w' = w_connected w"
    "mr_calls_by_disposition (ob_metrics (w_obs w')) = mr_calls_by_disposition (ob_metrics (w_obs w))"
    "status_of hk hop' w' = Some REACHABLE"
proof -
  let ?c = "(attempt_ctl hop' w (switching rest c))\<lparr>bc_no_answer_timer := None\<rparr>"
  obtain p where p: "bc_policy c = Some p" "fields_clean (relay_kwargs [] [] (pd_relay_log_fields p))"
    using t by (auto simp: trying_def can_originate_def)
  have i: "obs_ok (w_obs w)" "bc_uaA c = Some a" "bc_pending_event c = Some (CCEventTry td)"
    "\<not> is_connected w (bc_uaA c)" "bc_uaA c \<noteq> Some u" "a < w_next_id w" "a \<notin> set (w_connected w)"
    using t u by (auto simp: trying_def is_connected_def)
  define w' where "w' = wobs (switched_obs (attempt_ctl hop' w (switching rest c)) ev)
       (disarm (w_next_id w + 1)
         (attempt_world hk (switching rest c) p hop' (CCEventTry td) (td_called td)
            (wobs (failover_obs hk c hop') w)))"
  have run: "recv_event hk ev u (c, w) = (Inr (), (?c, w'))"
    unfolding event_next_hop [OF i(5) u] w'_def
    by (rule next_hop_failover [OF i(1) ev i(4) hops p(1) i(3) p(2)])
  have w: "w_sip w' = w_sip w @ attempt_calls (bc_conf c) (w_conf w) (CCEventTry td) (w_next_id w) [hop']"
    "w_next_id w' = w_next_id w + 2" "w_connected w' = w_connected w" "w_conf w' = w_conf w" "obs_ok (w_obs w')"
    "mr_calls_by_disposition (ob_metrics (w_obs w')) = mr_calls_by_disposition (ob_metrics (w_obs w))"
    "status_of hk hop' w' = Some REACHABLE"
    using i(1) by (simp_all add: w'_def attempt_world_def switching_def set_peer_status_def status_of_def update_conv')
  have c: "bc_failover_hops ?c = rest" "bc_conf ?c = bc_conf c"
    by (simp_all add: attempt_ctl_def switching_def)
  have "trying a td hop' (?c, w')"
    using w i p by (auto simp: trying_def can_originate_def attempt_ctl_def switching_def)
  then show ?thesis using that run w c by blast
qed

lemma trying_walk:
  assumes "trying a td hop (c, w)" "length evs = length (bc_failover_hops c)"
    and "\<And>ev. ev \<in> set evs \<Longrightarrow> is_fail_or_disconnect ev" "status_of hk hop w = Some REACHABLE"
  obtains c' w' where "fail_legs hk evs (c, w) = (c', w')"
    "trying a td (last (hop # bc_failover_hops c)) (c', w')"
    "bc_failover_hops c' = []" "w_conf w' = w_conf w"
    "w_sip w' = w_sip w @ attempt_calls (bc_conf c) (w_conf w) (CCEventTry td) (w_next_id w) (bc_failover_hops c)"
    "mr_calls_by_disposition (ob_metrics (w_obs w')) = mr_calls_by_disposition (ob_metrics (w_obs w))"
    "status_of hk (last (hop # bc_failover_hops c)) w' = Some REACHABLE"
  using assms
proof (induction evs arbitrary: hop c w thesis)
  case Nil
  then show ?case by (cases "bc_failover_hops c") simp_all
next
  case (Cons ev evs)
  obtain hop' rest where hops: "bc_failover_hops c = hop' # rest"
    using Cons.prems(3) by (cases "bc_failover_hops c") simp_all
  obtain u where u: "bc_uaO c = Some u" using Cons.prems(2) by (auto simp: trying_def)
  obtain c1 w1 where 1: "recv_event hk ev u (c, w) = (Inr (), (c1, w1))" "trying a td hop' (c1, w1)"
    "bc_failover_hops c1 = rest" "bc_conf c1 = bc_conf c" "w_conf w1 = w_conf w"
    "w_sip w1 = w_sip w @ attempt_calls (bc_conf c) (w_conf w) (CCEventTry td) (w_next_id w) [hop']"
    "w_next_id w1 = w_next_id w + 2"
    "mr_calls_by_disposition (ob_metrics (w_obs w1)) = mr_calls_by_disposition (ob_metrics (w_obs w))"
    "status_of hk hop' w1 = Some REACHABLE"
    by (rule trying_step [OF Cons.prems(2) _ hops u, of ev hk]) (use Cons.prems(4) in simp, blast)
  have len: "length evs = length (bc_failover_hops c1)" using Cons.prems(3) hops 1(3) by simp
  show ?case
  proof (rule Cons.IH [OF _ 1(2) len])
    show "\<And>ev. ev \<in> set evs \<Longrightarrow> is_fail_or_disconnect ev" using Cons.prems(4) by simp
    show "status_of hk hop' w1 = Some REACHABLE" by (rule 1(9))
  next
    fix c' w'
    assume "fail_legs hk evs (c1, w1) = (c', w')" "trying a td (last (hop' # bc_failover_hops c1)) (c', w')"
      "bc_failover_hops c' = []" "w_conf w' = w_conf w1"
      "w_sip w' = w_sip w1 @ attempt_calls (bc_conf c1) (w_conf w1) (CCEventTry td) (w_next_id w1) (bc_failover_hops c1)"
      "mr_calls_by_disposition (ob_metrics (w_obs w')) = mr_calls_by_disposition (ob_metrics (w_obs w1))"
      "status_of hk (last (hop' # bc_failover_hops c1)) w' = Some REACHABLE"
    then show thesis using Cons.prems(1) 1 u hops by simp
  qed
qed

lemma fail_legs_append: "fail_legs hk (xs @ [ev]) s = fail_legs hk [ev] (fail_legs hk xs s)"
proof (induction xs arbitrary: s)
  case Nil
  then show ?case by simp
next
  case (Cons x xs)
  then show ?case by (cases "bc_uaO (fst s)") simp_all
qed

text \<open>
  C5: The walk to its end. The application relays a call to a list of hops and each leg in
  turn fails or is torn down before the caller's leg is connected. Then what is asked of
  sippy over the whole call is exactly this: one leg and one INVITE per hop, in the order of
  the decision, all with the decided event under the pinned identity, and at the very end
  the last failure, passed once to the caller. No hop is left, the outcome is counted once.
  The hop that failed last keeps the status reachable, since only a switch to another hop
  marks one unreachable.
\<close>
theorem failing_hops_exhausted:
  assumes "bc_uaA c = Some a" "bc_uaO c = None" "is_try ev" "a < w_next_id w" "a \<notin> set (w_connected w)"
    and "hk_decide hk c ev (w_obs w) = (Inr d, b)" "obs_ok b" "relay_ok d" "pd_outbound_event d = Some (CCEventTry td)"
    and "length fails = length (pd_next_hops d)" "\<forall>e\<in>set fails. is_fail_or_disconnect e"
  shows "\<exists>c' w'. fail_legs hk fails (snd (recv_event hk ev a (c, w))) = (c', w')
    \<and> w_sip w' = w_sip w
        @ attempt_calls (bc_conf c) (w_conf w) (CCEventTry td) (w_next_id w) (pd_next_hops d)
        @ [UaRecvEvent a (last fails) (w_conf w)]
    \<and> bc_failover_hops c' = [] \<and> bc_no_answer_timer c' = None \<and> w_conf w' = w_conf w
    \<and> mr_calls_by_disposition (ob_metrics (w_obs w')) =
        counter_add (disposition_value (case last fails of CCEventFail _ \<Rightarrow> FAILED | _ \<Rightarrow> ABANDONED)) 1
          (mr_calls_by_disposition (ob_metrics b))
    \<and> map_of (mr_peer_status (ob_metrics (w_obs w'))) (hk_peer_status_key hk (last (pd_next_hops d))) = Some REACHABLE"
proof -
  obtain hop rest where hops: "pd_next_hops d = hop # rest" and rel: "pd_action d = RELAY"
    and clean: "fields_clean (relay_kwargs [] [] (pd_relay_log_fields d))"
    using assms(8) by (metis relay_okE)
  define c1 w1 where s1: "c1 = attempt_ctl hop w (routed d c)"
    "w1 = attempt_world hk (routed d c) d hop (CCEventTry td) (td_called td) (w\<lparr>w_obs := b\<rparr>)"
  have run: "recv_event hk ev a (c, w) = (Inr (), (c1, w1))"
    unfolding event_try [OF assms(1-3)] s1
    by (rule run_outbound_relay [OF assms(6,7) rel hops assms(9) clean])
  have c1: "bc_failover_hops c1 = rest" "bc_conf c1 = bc_conf c"
    by (simp_all add: s1 attempt_ctl_def routed_def hops)
  have w1: "w_sip w1 = w_sip w @ attempt_calls (bc_conf c) (w_conf w) (CCEventTry td) (w_next_id w) [hop]"
    "w_next_id w1 = w_next_id w + 2" "w_conf w1 = w_conf w"
    "mr_calls_by_disposition (ob_metrics (w_obs w1)) = mr_calls_by_disposition (ob_metrics b)"
    "status_of hk hop w1 = Some REACHABLE"
    by (simp_all add: s1 attempt_world_def routed_def set_peer_status_def status_of_def update_conv')
  have t: "trying a td hop (c1, w1)"
    using assms(1,4,5,7,9) clean
    by (simp add: trying_def can_originate_def s1 attempt_ctl_def attempt_world_def routed_def)
  obtain init where fails: "fails = init @ [last fails]" "length init = length (bc_failover_hops c1)"
    using assms(10) hops c1(1) by (metis append_butlast_last_id length_0_conv length_butlast length_Cons diff_Suc_1 nat.distinct(1))
  have all: "e \<in> set init \<Longrightarrow> is_fail_or_disconnect e" for e using assms(11) fails(1) by (metis UnI1 set_append)
  obtain c2 w2 where 2: "fail_legs hk init (c1, w1) = (c2, w2)" "trying a td (last (hop # rest)) (c2, w2)"
    "bc_failover_hops c2 = []" "w_conf w2 = w_conf w"
    "w_sip w2 = w_sip w1 @ attempt_calls (bc_conf c) (w_conf w) (CCEventTry td) (w_next_id w + 2) rest"
    "mr_calls_by_disposition (ob_metrics (w_obs w2)) = mr_calls_by_disposition (ob_metrics b)"
    "status_of hk (last (hop # rest)) w2 = Some REACHABLE"
    by (rule trying_walk [OF t fails(2) all w1(5), unfolded c1 w1(2-4)])
  obtain u where u: "bc_uaA c2 = Some a" "bc_uaO c2 = Some u" "u \<noteq> a" "obs_ok (w_obs w2)" "a \<notin> set (w_connected w2)"
    using 2(2) by (auto simp: trying_def)
  have "is_fail_or_disconnect (last fails)" using assms(10,11) hops by (cases fails) simp_all
  then obtain w' where "recv_event hk (last fails) u (c2, w2) = (Inr (), (c2\<lparr>bc_no_answer_timer := None\<rparr>, w'))"
    "w_sip w' = w_sip w2 @ [UaRecvEvent a (last fails) (w_conf w2)]" "w_conf w' = w_conf w2"
    "ob_metrics (w_obs w') = record_call_disposition
        (case last fails of CCEventFail _ \<Rightarrow> FAILED | _ \<Rightarrow> if a \<in> set (w_connected w2) then COMPLETED else ABANDONED)
        (ob_metrics (w_obs w2))"
    using final_event_spec [OF u(1-4)] 2(3) by blast
  moreover have "fail_legs hk fails (c1, w1) = fail_legs hk [last fails] (c2, w2)"
    by (subst fails(1)) (simp only: fail_legs_append 2(1))
  ultimately show ?thesis
    using run w1(1) 2(3-7) u(2,5) hops
    by (simp add: record_call_disposition_def status_of_def)
qed

theorem failing_hops_exhausted_witness:
  "\<exists>c' w'. fail_legs (sample_hooks sample_relay) [CCEventFail None, CCEventDisconnect]
       (snd (recv_event (sample_hooks sample_relay) (CCEventTry sample_try) 1 (sample_call, sample_world))) = (c', w')
     \<and> map snd (created (w_sip w')) = [(''a.net'', 5060), (''b.net'', 5060)] \<and> length (w_sip w') = 5
     \<and> last (w_sip w') = UaRecvEvent 1 CCEventDisconnect (w_conf sample_world)"
proof -
  have c: "bc_uaA sample_call = Some 1" "bc_uaO sample_call = None" "bc_conf sample_call = sample_conf"
    by (simp_all add: sample_call_def mk_controller_def)
  have w: "w_next_id sample_world = 2" "w_sip sample_world = []" "w_connected sample_world = []"
    by (simp_all add: sample_world_def)
  have d: "pd_outbound_event sample_relay = Some (CCEventTry sample_try)"
    "pd_next_hops sample_relay = [sample_hop ''a'', sample_hop ''b'']"
    by (simp_all add: sample_relay_def)
  have a: "1 < w_next_id sample_world" "1 \<notin> set (w_connected sample_world)"
    "length [CCEventFail None, CCEventDisconnect] = length (pd_next_hops sample_relay)"
    "\<forall>e\<in>set [CCEventFail None, CCEventDisconnect]. is_fail_or_disconnect e"
    by (simp_all add: w d)
  show ?thesis
    using failing_hops_exhausted [OF c(1,2) is_try.simps(1) [THEN eqTrueE] a(1,2) sample_decides
        sample_tracing(4) sample_relay_ok d(1) a(3,4), of sample_try]
    by (fastforce simp: w d hop_addr_def sample_hop_def)
qed

end
