(* ===== verification/CallSpec.thy ===== *)
theory CallSpec
  imports CallProperties
begin

text \<open>
  What a call promises to its two sides, as a machine that knows nothing of counters, traces,
  logs, timers or stored decisions: it is either not routed or served by one leg, with the
  hops it may still dial. The controller refines it.
\<close>

section \<open>The specification\<close>

datatype call_phase =
    Unrouted
  | Serving nat "next_hop list" ccevent

text \<open>What the environment answers at an input: is the caller's leg connected, the next fresh
  number, what the application decides, is the timer due.\<close>

record answers =
  an_connected :: bool
  an_fresh :: nat
  an_decision :: "policy_decision option"
  an_due :: bool

text \<open>The fixed part of a call: its configuration, the process identity, the caller's leg.\<close>

record call_site =
  si_conf :: gconf
  si_identity :: sip_conf
  si_caller :: nat

definition dial :: "call_site \<Rightarrow> nat \<Rightarrow> next_hop \<Rightarrow> ccevent \<Rightarrow> sip_call list" where
  "dial si n hop ev =
     [UaCreated n (Some (hop_addr hop)) (opt_get (gc_sip_uaname (si_conf si)) [])
        (local_contact (si_conf si) (si_identity si)),
      UaRecvEvent n ev (pinned_identity (si_conf si) (si_identity si))]"

definition pass_on :: "call_site \<Rightarrow> nat \<Rightarrow> ccevent \<Rightarrow> sip_call list" where
  "pass_on si n ev = [UaRecvEvent n ev (si_identity si)]"

text \<open>An event of the caller's leg, of the serving leg, of any other leg.\<close>

fun spec_caller :: "call_site \<Rightarrow> answers \<Rightarrow> ccevent \<Rightarrow> call_phase \<Rightarrow> call_phase \<times> sip_call list" where
  "spec_caller si an ev (Serving n hops invite) = (Serving n hops invite, pass_on si n ev)"
| "spec_caller si an ev Unrouted =
     (if \<not> is_try ev then (Unrouted, pass_on si (si_caller si) CCEventDisconnect)
      else case an_decision an of
        None \<Rightarrow> (Unrouted, [])
      | Some d \<Rightarrow>
          (case (pd_action d, pd_next_hops d, pd_outbound_event d, pd_error d) of
             (RELAY, hop # hops, Some invite, _) \<Rightarrow> (Serving (an_fresh an) hops invite, dial si (an_fresh an) hop invite)
           | (REJECT, _, _, Some err) \<Rightarrow> (Unrouted, pass_on si (si_caller si) (reject_event err))
           | _ \<Rightarrow> (Unrouted, [])))"

fun spec_hop :: "call_site \<Rightarrow> answers \<Rightarrow> ccevent \<Rightarrow> call_phase \<Rightarrow> call_phase \<times> sip_call list" where
  "spec_hop si an ev (Serving n (hop # hops) invite) =
     (if is_fail_or_disconnect ev \<and> \<not> an_connected an
      then (Serving (an_fresh an) hops invite, dial si (an_fresh an) hop invite)
      else (Serving n (hop # hops) invite, pass_on si (si_caller si) ev))"
| "spec_hop si an ev (Serving n [] invite) = (Serving n [] invite, pass_on si (si_caller si) ev)"
| "spec_hop si an ev Unrouted = (Unrouted, [])"

definition serving_leg :: "call_phase \<Rightarrow> nat option" where
  "serving_leg ph = (case ph of Unrouted \<Rightarrow> None | Serving n _ _ \<Rightarrow> Some n)"

fun spec_step :: "call_site \<Rightarrow> answers \<Rightarrow> call_input \<Rightarrow> call_phase \<Rightarrow> call_phase \<times> sip_call list" where
  "spec_step si an (Event ev u) ph =
     (if u = si_caller si then spec_caller si an ev ph
      else if serving_leg ph = Some u then spec_hop si an ev ph
      else (ph, []))"
| "spec_step si an (Fire t) ph = (ph, case serving_leg ph of None \<Rightarrow> []
     | Some n \<Rightarrow> if an_due an \<and> \<not> an_connected an then [UaDisconnect n] else [])"
| "spec_step si an _ ph = (ph, [])"

section \<open>The controller seen as the specification\<close>

definition phase_of :: "controller \<Rightarrow> call_phase" where
  "phase_of c = (case (bc_uaO c, bc_pending_event c) of
     (Some n, Some invite) \<Rightarrow> Serving n (bc_failover_hops c) invite | _ \<Rightarrow> Unrouted)"

lemma phase_of_timer [simp]: "phase_of (c\<lparr>bc_no_answer_timer := t\<rparr>) = phase_of c"
  by (cases "bc_uaO c"; cases "bc_pending_event c"; simp add: phase_of_def)

definition answers_at :: "hooks \<Rightarrow> call_input \<Rightarrow> cst \<Rightarrow> answers" where
  "answers_at hk i s = (case s of (c, w) \<Rightarrow>
     \<lparr>an_connected = is_connected w (bc_uaA c), an_fresh = w_next_id w,
      an_decision = (case i of Event ev u \<Rightarrow> (case fst (hk_decide hk c ev (w_obs w)) of Inl _ \<Rightarrow> None | Inr d \<Rightarrow> Some d)
                     | _ \<Rightarrow> None),
      an_due = (case i of Fire t \<Rightarrow> due t w | _ \<Rightarrow> False)\<rparr>)"

text \<open>\<open>refined\<close>: the outcome of an input is the one of the specification.\<close>

definition refined :: "call_phase \<times> sip_call list \<Rightarrow> sip_call list \<Rightarrow> (pyexc + unit) \<times> cst \<Rightarrow> bool" where
  "refined spec sip out \<longleftrightarrow> fst out = Inr () \<and> phase_of (fst (snd out)) = fst spec
     \<and> w_sip (snd (snd out)) = sip @ snd spec"

lemma refined_try:
  assumes hk: "decide_ok hk" and inv: "call_inv g conf a cid (c, w)" and n: "bc_uaO c = None" "is_try ev"
  shows "refined (spec_caller \<lparr>si_conf = g, si_identity = conf, si_caller = a\<rparr>
      (answers_at hk (Event ev a) (c, w)) ev Unrouted) (w_sip w) (recv_event hk ev a (c, w))"
proof -
  have i: "obs_ok (w_obs w)" "bc_uaA c = Some a" "bc_conf c = g" "w_conf w = conf"
    using inv by (simp_all add: call_inv_def)
  obtain d b where d: "hk_decide hk c ev (w_obs w) = (Inr d, b)" "obs_ok b" "relay_ok d \<or> reject_ok d"
    using decide_okE [OF hk i(1)] by metis
  show ?thesis
  proof (cases "relay_ok d")
    case True
    then obtain hop rest td where r: "pd_action d = RELAY" "pd_next_hops d = hop # rest"
      "pd_outbound_event d = Some (CCEventTry td)" "fields_clean (relay_kwargs [] [] (pd_relay_log_fields d))"
      by (rule relay_okE)
    show ?thesis
      using n(2) i(3,4) r(1-3)
      by (simp add: event_try [OF i(2) n] run_outbound_relay [OF d(1,2) r] refined_def answers_at_def d(1)
          attempt_world_def dial_def) (simp add: phase_of_def attempt_ctl_def routed_def)
  next
    case False
    with d(3) have "reject_ok d" by blast
    then obtain err where r: "pd_action d = REJECT" "pd_error d = Some err"
      "fields_clean (reject_kwargs [] [] err (pd_reject_log_fields d))" by (rule reject_okE)
    show ?thesis
      using n i(4) r(1,2)
      by (simp add: event_try [OF i(2) n] run_outbound_reject [OF d(1,2) r i(2)] refined_def answers_at_def d(1)
          pass_on_def phase_of_def decided_def split: list.split option.split)
  qed
qed

lemma refined_to_trunk:
  assumes "obs_ok (w_obs w)" "bc_uaA c = Some a" "w_conf w = conf"
  shows "refined (phase_of c, pass_on \<lparr>si_conf = g, si_identity = conf, si_caller = a\<rparr> a ev) (w_sip w)
    (relay_to_trunk ev (c, w))"
proof -
  consider "is_fail_or_disconnect ev" | "is_ring_or_connect ev"
    | "\<not> is_ring_or_connect ev" "\<not> is_fail_or_disconnect ev" by blast
  then show ?thesis
  proof cases
    case 1
    then show ?thesis
      using run_relay_final [OF assms(1) 1 assms(2)] assms(3) by (simp add: refined_def pass_on_def)
  next
    case 2
    then show ?thesis
      using run_relay_progress [OF assms(1) 2 assms(2)] assms(3) by (simp add: refined_def pass_on_def)
  next
    case 3
    then show ?thesis
      using run_relay_other [OF assms(1) 3 assms(2)] assms(3) by (simp add: refined_def pass_on_def)
  qed
qed

lemma refined_next_hop:
  assumes inv: "call_inv g conf a cid (c, w)" and u: "bc_uaO c = Some u"
  shows "refined (spec_hop \<lparr>si_conf = g, si_identity = conf, si_caller = a\<rparr>
      (answers_at hk (Event ev u) (c, w)) ev (phase_of c)) (w_sip w) (recv_event hk ev u (c, w))"
proof -
  obtain p td where p: "bc_policy c = Some p" "bc_pending_event c = Some (CCEventTry td)"
    "fields_clean (relay_kwargs [] [] (pd_relay_log_fields p))" "bc_uaA c \<noteq> Some u"
    by (rule inv_legE [OF inv u])
  have i: "obs_ok (w_obs w)" "bc_uaA c = Some a" "bc_conf c = g" "w_conf w = conf"
    using inv by (simp_all add: call_inv_def)
  have ph: "phase_of c = Serving u (bc_failover_hops c) (CCEventTry td)" by (simp add: phase_of_def u p(2))
  let ?si = "\<lparr>si_conf = g, si_identity = conf, si_caller = a\<rparr>"
  have stay: "spec_hop ?si (answers_at hk (Event ev u) (c, w)) ev (phase_of c) = (phase_of c, pass_on ?si a ev)"
    if "\<not> (is_fail_or_disconnect ev \<and> \<not> is_connected w (bc_uaA c) \<and> bc_failover_hops c \<noteq> [])"
    using that unfolding ph by (cases "bc_failover_hops c") (auto simp: answers_at_def)
  consider hop rest where "is_fail_or_disconnect ev" "\<not> is_connected w (bc_uaA c)" "bc_failover_hops c = hop # rest"
    | "is_fail_or_disconnect ev" "is_connected w (bc_uaA c) \<or> bc_failover_hops c = []"
    | "is_ring_or_connect ev" | "\<not> is_ring_or_connect ev" "\<not> is_fail_or_disconnect ev"
    by (cases "bc_failover_hops c") auto
  then show ?thesis
  proof cases
    case 1
    then show ?thesis
      using i(3,4) unfolding ph
      by (simp add: event_next_hop [OF p(4) u] next_hop_failover [OF i(1) 1 p(1-3)] refined_def answers_at_def
          dial_def attempt_world_def switching_def) (simp add: phase_of_def attempt_ctl_def p(2))
  next
    case 2
    then show ?thesis
      using refined_to_trunk [OF i(1,2,4)] stay
      by (auto simp: event_next_hop [OF p(4) u] next_hop_no_failover [OF i(1) 2])
  next
    case 3
    have "refined (phase_of (c\<lparr>bc_no_answer_timer := None\<rparr>), pass_on ?si a ev) (w_sip (timer_dropped c w))
        (relay_to_trunk ev (c\<lparr>bc_no_answer_timer := None\<rparr>, timer_dropped c w))"
      by (rule refined_to_trunk) (use i in simp_all)
    moreover have "\<not> is_fail_or_disconnect ev" using 3 final_not_progress by blast
    ultimately show ?thesis using stay by (simp add: event_next_hop [OF p(4) u] next_hop_progress [OF 3])
  next
    case 4
    then show ?thesis
      using refined_to_trunk [OF i(1,2,4)] stay by (auto simp: event_next_hop [OF p(4) u] next_hop_other [OF 4])
  qed
qed

lemma refined_event:
  assumes hk: "decide_ok hk" and inv: "call_inv g conf a cid (c, w)"
  shows "refined (spec_step \<lparr>si_conf = g, si_identity = conf, si_caller = a\<rparr>
      (answers_at hk (Event ev u) (c, w)) (Event ev u) (phase_of c)) (w_sip w) (recv_event hk ev u (c, w))"
proof -
  have i: "obs_ok (w_obs w)" "bc_uaA c = Some a" "w_conf w = conf" using inv by (simp_all add: call_inv_def)
  have unrouted: "phase_of c = Unrouted" if "bc_uaO c = None" using that by (simp add: phase_of_def)
  have serving: "\<exists>ev. phase_of c = Serving v (bc_failover_hops c) ev \<and> v \<noteq> a" if "bc_uaO c = Some v" for v
    using inv_legE [OF inv that] i(2) that unfolding phase_of_def by (metis option.case(2) prod.case)
  consider "u = a" "bc_uaO c = None" "is_try ev" | "u = a" "bc_uaO c = None" "\<not> is_try ev"
    | v where "u = a" "bc_uaO c = Some v" | "bc_uaO c = Some u" "u \<noteq> a"
    | "u \<noteq> a" "bc_uaO c \<noteq> Some u"
    by (cases "bc_uaO c") blast+
  then show ?thesis
  proof cases
    case 1
    then show ?thesis using refined_try [OF hk inv] unrouted by simp
  next
    case 2
    then show ?thesis
      using i(3) unrouted by (simp add: event_trunk_early [OF i(2) 2(2,3)] refined_def pass_on_def)
  next
    case 3
    obtain inv' where "phase_of c = Serving v (bc_failover_hops c) inv'" using serving [OF 3(2)] by blast
    then show ?thesis
      using 3(1) i(3) by (simp add: event_trunk [OF i(2) 3(2) i(1)] refined_def pass_on_def)
  next
    case 4
    obtain inv' where "phase_of c = Serving u (bc_failover_hops c) inv'" using serving [OF 4(1)] by blast
    then show ?thesis using refined_next_hop [OF inv 4(1), of hk ev] 4(2) by (simp add: serving_leg_def)
  next
    case 5
    then have "recv_event hk ev u (c, w) = (Inr (), (c, w))" using i(2) by (intro event_stale) auto
    moreover have "serving_leg (phase_of c) \<noteq> Some u" 
      using 5(2) by (auto simp: serving_leg_def phase_of_def split: option.splits)
    ultimately show ?thesis using 5(1) by (simp add: refined_def)
  qed
qed

lemma refined_fire:
  assumes inv: "call_inv g conf a cid (c, w)"
  shows "refined (spec_step si (answers_at hk (Fire t) (c, w)) (Fire t) (phase_of c)) (w_sip w)
    (call_do hk (Fire t) (c, w))"
proof (cases "bc_uaO c")
  case None
  then show ?thesis
    by (simp add: refined_def phase_of_def serving_leg_def on_next_hop_no_answer_def)
next
  case (Some u)
  obtain p td where "bc_pending_event c = Some (CCEventTry td)" by (rule inv_legE [OF inv Some])
  then show ?thesis
    using Some
    by (auto simp: refined_def phase_of_def serving_leg_def answers_at_def on_next_hop_no_answer_def run_simps
        fields_clean_iff split: option.split)
qed

lemma refined_input:
  assumes hk: "decide_ok hk" and inv: "call_inv g conf a cid s"
  shows "refined (spec_step \<lparr>si_conf = g, si_identity = conf, si_caller = a\<rparr> (answers_at hk i s) i (phase_of (fst s)))
    (w_sip (snd s)) (call_do hk i s)"
proof -
  obtain c w where s: "s = (c, w)" by (cases s)
  show ?thesis
  proof (cases i)
    case (Event ev u)
    then show ?thesis using refined_event [OF hk inv [unfolded s]] by (simp add: s)
  next
    case (Fire t)
    then show ?thesis using refined_fire [OF inv [unfolded s]] by (simp add: s del: call_do.simps spec_step.simps)
  next
    case Dispose
    then show ?thesis by (simp add: s refined_def dispose_def run_simps)
  qed (simp_all add: s refined_def)
qed

section \<open>Runs\<close>

fun spec_run :: "call_site \<Rightarrow> (answers \<times> call_input) list \<Rightarrow> call_phase \<Rightarrow> call_phase \<times> sip_call list" where
  "spec_run si [] ph = (ph, [])"
| "spec_run si ((an, i) # xs) ph = (case spec_step si an i ph of (ph', out) \<Rightarrow>
     (case spec_run si xs ph' of (ph'', out') \<Rightarrow> (ph'', out @ out')))"

end
