(* ===== verification/CallFrame.thy ===== *)
theory CallFrame
  imports CallProperties
begin

text \<open>
  What the handlers of one call leave alone in a world they share with other calls: they only
  append to the calls made into sippy, without looking at what is there, and what they
  append concerns the call's own user agents or ones they have just created.
\<close>

named_theorems append_intro "rules that build the appending of a program to the calls into sippy"

section \<open>Appending\<close>

definition appends :: "(pyexc, cst, 'a) prog \<Rightarrow> bool" where
  "appends m \<longleftrightarrow> (\<forall>c w xs. m (c, w\<lparr>w_sip := xs\<rparr>) =
     (case m (c, w\<lparr>w_sip := []\<rparr>) of (r, (c', w')) \<Rightarrow> (r, (c', w'\<lparr>w_sip := xs @ w_sip w'\<rparr>))))"

lemma appendsI:
  "(\<And>c w xs. m (c, w\<lparr>w_sip := xs\<rparr>) =
     (case m (c, w\<lparr>w_sip := []\<rparr>) of (r, (c', w')) \<Rightarrow> (r, (c', w'\<lparr>w_sip := xs @ w_sip w'\<rparr>)))) \<Longrightarrow> appends m"
  unfolding appends_def by blast

lemma appends_eq:
  "appends m \<Longrightarrow> m (c, w\<lparr>w_sip := xs\<rparr>) =
     (case m (c, w\<lparr>w_sip := []\<rparr>) of (r, (c', w')) \<Rightarrow> (r, (c', w'\<lparr>w_sip := xs @ w_sip w'\<rparr>)))"
  unfolding appends_def by blast

lemma appendsD:
  "appends m \<Longrightarrow> m (c, w\<lparr>w_sip := []\<rparr>) = (r, (c', w')) \<Longrightarrow>
   m (c, w\<lparr>w_sip := xs\<rparr>) = (r, (c', w'\<lparr>w_sip := xs @ w_sip w'\<rparr>))"
  by (subst appends_eq) simp_all

lemma appends_ret [append_intro]: "appends (ret a)"
  by (simp add: appends_def)

lemma appends_raise [append_intro]: "appends (raise e)"
  by (simp add: appends_def)

lemma appends_bindp [append_intro]:
  assumes "appends m" "\<And>a. appends (f a)"
  shows "appends (bindp m f)"
proof (rule appendsI)
  fix c w xs
  obtain r c1 w1 where m: "m (c, w\<lparr>w_sip := []\<rparr>) = (r, (c1, w1))" by (metis prod.collapse)
  note mx = appendsD [OF assms(1) m]
  show "bindp m f (c, w\<lparr>w_sip := xs\<rparr>) =
     (case bindp m f (c, w\<lparr>w_sip := []\<rparr>) of (r, (c', w')) \<Rightarrow> (r, (c', w'\<lparr>w_sip := xs @ w_sip w'\<rparr>)))"
  proof (cases r)
    case (Inl e)
    then show ?thesis using m mx [of xs] by (simp add: bindp_def)
  next
    case (Inr a)
    obtain r2 c2 w2 where f: "f a (c1, w1\<lparr>w_sip := []\<rparr>) = (r2, (c2, w2))" by (metis prod.collapse)
    have "f a (c1, w1) = (r2, (c2, w2\<lparr>w_sip := w_sip w1 @ w_sip w2\<rparr>))"
      using appendsD [OF assms(2) f, of "w_sip w1"] by simp
    then show ?thesis
      using Inr m mx [of xs] appendsD [OF assms(2) f, of "xs @ w_sip w1"] by (simp add: bindp_def)
  qed
qed

lemma appends_cget [append_intro]:
  assumes "\<And>c w. appends (f c w)" "\<And>c w xs. f c (w\<lparr>w_sip := xs\<rparr>) = f c (w\<lparr>w_sip := []\<rparr>)"
  shows "appends (cget f)"
proof (rule appendsI)
  fix c w xs
  show "cget f (c, w\<lparr>w_sip := xs\<rparr>) =
     (case cget f (c, w\<lparr>w_sip := []\<rparr>) of (r, (c', w')) \<Rightarrow> (r, (c', w'\<lparr>w_sip := xs @ w_sip w'\<rparr>)))"
    unfolding cget_run assms(2) [where c = c and w = w and xs = xs] by (rule appends_eq [OF assms(1)])
qed

lemma appends_cupd [append_intro]: "appends (cupd f)"
  by (simp add: appends_def)

lemma appends_wupd [append_intro]:
  assumes "\<And>w xs. f (w\<lparr>w_sip := xs\<rparr>) = (f (w\<lparr>w_sip := []\<rparr>))\<lparr>w_sip := xs @ w_sip (f (w\<lparr>w_sip := []\<rparr>))\<rparr>"
  shows "appends (wupd f)"
proof (rule appendsI)
  fix c w xs
  show "wupd f (c, w\<lparr>w_sip := xs\<rparr>) =
     (case wupd f (c, w\<lparr>w_sip := []\<rparr>) of (r, (c', w')) \<Rightarrow> (r, (c', w'\<lparr>w_sip := xs @ w_sip w'\<rparr>)))"
    unfolding wupd_run assms [where w = w and xs = xs] by simp
qed

lemma appends_obs [append_intro]: "appends (obs_do m)"
  by (auto simp: appends_def obs_do_def split: prod.splits)

lemma appends_whenp [append_intro]: "appends m \<Longrightarrow> appends (whenp b m)"
  by (cases b) (simp_all add: appends_ret)

lemma appends_if [append_intro]: "appends m \<Longrightarrow> appends n \<Longrightarrow> appends (if b then m else n)"
  by simp

lemma appends_case_option [append_intro]:
  "appends m \<Longrightarrow> (\<And>a. appends (f a)) \<Longrightarrow> appends (case x of None \<Rightarrow> m | Some a \<Rightarrow> f a)"
  by (cases x) simp_all

lemma appends_case_list [append_intro]:
  "appends m \<Longrightarrow> (\<And>y ys. appends (f y ys)) \<Longrightarrow> appends (case xs of [] \<Rightarrow> m | y # ys \<Rightarrow> f y ys)"
  by (cases xs) simp_all

lemma appends_case_prod [append_intro]: "(\<And>a b. appends (f a b)) \<Longrightarrow> appends (case x of (a, b) \<Rightarrow> f a b)"
  by (cases x) simp

lemma appends_of_result [append_intro]: "appends (of_result x)"
  by (cases x) (simp_all add: of_result_def appends_ret appends_raise)

lemma appends_block_Nil [append_intro]: "appends (block [])"
  by (simp add: appends_ret)

lemma appends_block_Cons [append_intro]: "appends m \<Longrightarrow> appends (block stms) \<Longrightarrow> appends (block (m # stms))"
  by (simp add: appends_bindp)

lemma appends_log_sip [append_intro]: "appends (wupd (log_sip x))"
  by (rule appends_wupd) (simp add: log_sip_def)

lemma appends_disarm [append_intro]: "appends (wupd (disarm t))"
  by (rule appends_wupd) (simp add: disarm_def)

lemma appends_new_ua [append_intro]: "appends (new_ua nh)"
  unfolding new_ua_def by (intro append_intro) (simp_all add: log_sip_def)

lemma appends_arm_timer [append_intro]: "appends (arm_timer d)"
  unfolding arm_timer_def by (intro append_intro) (simp_all split: option.split)

lemma appends_ua_recv_event [append_intro]: "appends (ua_recv_event ua ev)"
  unfolding ua_recv_event_def by (intro append_intro) (simp add: log_sip_def)

lemma appends_ua_recv_request [append_intro]: "appends (ua_recv_request u rq)"
  unfolding ua_recv_request_def by (intro append_intro) (simp add: log_sip_def)

lemma appends_finally_conf: "appends m \<Longrightarrow> appends (finallyp m (\<lambda>(c, w). (c, w\<lparr>w_conf := k\<rparr>)))"
proof (rule appendsI)
  fix c w xs
  assume m: "appends m"
  obtain r c1 w1 where 1: "m (c, w\<lparr>w_sip := []\<rparr>) = (r, (c1, w1))" by (metis prod.collapse)
  show "finallyp m (\<lambda>(c, w). (c, w\<lparr>w_conf := k\<rparr>)) (c, w\<lparr>w_sip := xs\<rparr>) =
    (case finallyp m (\<lambda>(c, w). (c, w\<lparr>w_conf := k\<rparr>)) (c, w\<lparr>w_sip := []\<rparr>) of
       (r, (c', w')) \<Rightarrow> (r, (c', w'\<lparr>w_sip := xs @ w_sip w'\<rparr>)))"
    using appendsD [OF m 1, of xs] 1 by (simp add: finallyp_def)
qed

lemma appends_sip_identity [append_intro]: "appends body \<Longrightarrow> appends (sip_identity g body)"
  unfolding sip_identity_def by (intro append_intro appends_finally_conf) simp_all

lemma is_connected_sip [simp]: "is_connected (w\<lparr>w_sip := xs\<rparr>) ua = is_connected w ua"
  by (simp add: is_connected_def split: option.split)

lemma final_disposition_sip [simp]: "final_disposition c (w\<lparr>w_sip := xs\<rparr>) ev = final_disposition c w ev"
  by (cases ev) (simp_all add: final_disposition_def)

lemma appends_record_event [append_intro]: "appends (record_event dir leg meth summ peer attrs)"
  unfolding record_event_def by (intro append_intro) (simp_all split: option.split)

lemma appends_record_disposition [append_intro]: "appends (record_disposition ev)"
  unfolding record_disposition_def by (intro append_intro) (simp_all split: option.split)

lemma appends_cancel [append_intro]: "appends cancel_no_answer_timer"
  unfolding cancel_no_answer_timer_def by (intro append_intro) (simp_all split: option.split)

lemma appends_dispose [append_intro]: "appends dispose"
  unfolding dispose_def by (rule appends_cancel)

lemma appends_no_answer [append_intro]: "appends (on_next_hop_no_answer hk)"
  unfolding on_next_hop_no_answer_def by (intro append_intro) (simp_all split: option.split)

lemma appends_originate_report [append_intro]: "appends (originate_report hk hop num)"
  unfolding originate_report_def by (intro append_intro) (simp_all split: option.split)

lemma appends_originate [append_intro]: "appends (originate_towards hk hop)"
  unfolding originate_towards_def by (intro append_intro) (simp_all split: option.split)

lemma appends_failover [append_intro]: "appends (try_failover hk)"
  unfolding try_failover_def by (intro append_intro) (simp_all split: option.split)

lemma appends_policy [append_intro]: "appends (apply_call_policy hk ev)"
proof -
  have "appends (obs_do (hk_decide hk c ev))" for c by (rule appends_obs)
  then show ?thesis unfolding apply_call_policy_def by (intro append_intro) (simp_all split: option.split)
qed

lemma appends_reject [append_intro]: "appends (reject_on_trunk d)"
  unfolding reject_on_trunk_def by (intro append_intro) (simp_all split: option.split)

lemma appends_outbound [append_intro]: "appends (originate_outbound_leg hk ev)"
  unfolding originate_outbound_leg_def by (intro append_intro) (simp_all split: option.split)

lemma appends_from_trunk [append_intro]: "appends (relay_from_trunk hk ev)"
  unfolding relay_from_trunk_def by (intro append_intro) (simp_all split: option.split)

lemma appends_to_trunk [append_intro]: "appends (relay_to_trunk ev)"
  unfolding relay_to_trunk_def by (intro append_intro) (simp_all split: option.split)

lemma appends_failover_record [append_intro]: "appends (failover_record ev)"
  unfolding failover_record_def by (intro append_intro) (simp_all split: option.split)

lemma appends_from_next_hop [append_intro]: "appends (relay_from_next_hop hk ev)"
  unfolding relay_from_next_hop_def by (intro append_intro) (simp_all split: option.split)

lemma appends_recv_event [append_intro]: "appends (recv_event hk ev u)"
  unfolding recv_event_def by (intro append_intro) (simp_all split: option.split)

lemma appends_recv_request [append_intro]: "appends (recv_request hk rq)"
  unfolding recv_request_def by (intro append_intro) (simp_all split: option.split)

section \<open>Own user agents\<close>

fun ua_no :: "sip_call \<Rightarrow> nat" where
  "ua_no (UaCreated n nh l k) = n"
| "ua_no (UaRecvRequest n rq k) = n"
| "ua_no (UaRecvEvent n ev k) = n"
| "ua_no (UaDisconnect n) = n"

text \<open>
  \<open>own_legs A N\<close>: the legs of the call and the user agents it has called are numbers in use and
  in \<open>A\<close>, a set that contains every number from \<open>N\<close> on; the next number is not below \<open>N\<close>.
\<close>

definition own_legs :: "nat set \<Rightarrow> nat \<Rightarrow> cst \<Rightarrow> bool" where
  "own_legs A N s \<longleftrightarrow> (case s of (c, w) \<Rightarrow> N \<le> w_next_id w \<and> {N..} \<subseteq> A
     \<and> set_option (bc_uaA c) \<union> set_option (bc_uaO c) \<union> ua_no ` set (w_sip w) \<subseteq> A \<inter> {..<w_next_id w})"

text \<open>A statement that reads the state may rely on the numbers in use at that moment.\<close>

lemma own_cget [preserve_intro]:
  assumes "\<And>c w. own_legs A N (c, w) \<Longrightarrow> preserves (own_legs A (w_next_id w)) (f c w)"
  shows "preserves (own_legs A N) (cget f)"
proof (rule preservesI)
  fix s
  assume i: "own_legs A N s"
  obtain c w where s: "s = (c, w)" by (cases s)
  have "own_legs A (w_next_id w) (c, w)" using i by (auto simp: s own_legs_def)
  then have "own_legs A (w_next_id w) (snd (f c w (c, w)))"
    using assms i by (simp add: s preserves_def)
  then show "own_legs A N (snd (cget f s))"
    using i by (auto simp: s own_legs_def split: prod.splits)
qed

lemma preserves_obs_do: "(\<And>c w b. I (c, w) \<Longrightarrow> I (c, w\<lparr>w_obs := b\<rparr>)) \<Longrightarrow> preserves I (obs_do m)"
  by (auto simp: preserves_def obs_do_def split: prod.splits)

lemma preserves_of_result [preserve_intro]: "preserves I (of_result x)"
  by (cases x) (simp_all add: of_result_def preserves_ret preserves_raise)

lemma preserves_cupd: "(\<And>c w. I (c, w) \<Longrightarrow> I (f c, w)) \<Longrightarrow> preserves I (cupd f)"
  by (auto simp: preserves_def)

lemma preserves_wupd: "(\<And>c w. I (c, w) \<Longrightarrow> I (c, f w)) \<Longrightarrow> preserves I (wupd f)"
  by (auto simp: preserves_def)

lemma preserves_case_list [preserve_intro]:
  "preserves I m \<Longrightarrow> (\<And>y ys. preserves I (f y ys)) \<Longrightarrow> preserves I (case xs of [] \<Rightarrow> m | y # ys \<Rightarrow> f y ys)"
  by (cases xs) simp_all

lemma own_obs [preserve_intro]: "preserves (own_legs A N) (obs_do m)"
  by (rule preserves_obs_do) (simp add: own_legs_def)

lemma own_disarm [preserve_intro]: "preserves (own_legs A N) (wupd (disarm t))"
  by (rule preserves_wupd) (simp add: own_legs_def)

lemma own_log_sip [preserve_intro]:
  "ua_no x \<in> A \<Longrightarrow> ua_no x < N \<Longrightarrow> preserves (own_legs A N) (wupd (log_sip x))"
  by (rule preserves_wupd) (simp add: own_legs_def)

lemma own_ua_recv_event [preserve_intro]:
  "set_option ua \<subseteq> A \<inter> {..<N} \<Longrightarrow> preserves (own_legs A N) (ua_recv_event ua ev)"
  by (cases ua) (auto simp: ua_recv_event_def preserves_def own_legs_def)

lemma own_new_leg [preserve_intro]:
  "preserves (own_legs A N) (bindp (new_ua nh) (\<lambda>u. cupd (\<lambda>c. c\<lparr>bc_uaO := Some u\<rparr>)))"
  by (auto simp: preserves_def own_legs_def run_simps)

lemma own_arm_timer [preserve_intro]: "preserves (own_legs A N) (arm_timer d)"
  by (auto simp: preserves_def own_legs_def run_simps arm_timer_def)

lemma own_cupd_leg [preserve_intro]:
  "(\<And>c. bc_uaA (f c) = bc_uaA c) \<Longrightarrow> (\<And>c. bc_uaO (f c) \<in> {None, bc_uaO c}) \<Longrightarrow>
   preserves (own_legs A N) (cupd f)"
proof (rule preserves_cupd)
  fix c w
  assume f: "\<And>c. bc_uaA (f c) = bc_uaA c" "\<And>c. bc_uaO (f c) \<in> {None, bc_uaO c}" and i: "own_legs A N (c, w)"
  consider "bc_uaO (f c) = None" | "bc_uaO (f c) = bc_uaO c" using f(2) [of c] by auto
  then show "own_legs A N (f c, w)" using i f(1) [of c] by cases (simp_all add: own_legs_def)
qed

lemma own_sip_identity [preserve_intro]:
  assumes "preserves (own_legs A N) body"
  shows "preserves (own_legs A N) (sip_identity g body)"
proof (rule preservesI)
  fix s
  assume i: "own_legs A N s"
  obtain c w where s: "s = (c, w)" by (cases s)
  let ?s = "(c, w\<lparr>w_conf := pinned_identity g (w_conf w)\<rparr>)"
  obtain r c1 w1 where b: "body ?s = (r, (c1, w1))" by (metis prod.collapse)
  have "own_legs A N ?s" using i by (simp add: s own_legs_def)
  then have "own_legs A N (c1, w1)" using preservesD [OF assms, of ?s] b by simp
  then show "own_legs A N (snd (sip_identity g body s))"
    by (simp add: s sip_identity_def finallyp_def b own_legs_def)
qed

lemma own_record_event [preserve_intro]: "preserves (own_legs A N) (record_event dir leg meth summ peer attrs)"
  unfolding record_event_def by (intro preserve_intro)

lemma own_record_disposition [preserve_intro]: "preserves (own_legs A N) (record_disposition ev)"
  unfolding record_disposition_def by (intro preserve_intro)

lemma own_cancel [preserve_intro]: "preserves (own_legs A N) cancel_no_answer_timer"
  unfolding cancel_no_answer_timer_def by (intro preserve_intro) simp_all

lemma own_dispose [preserve_intro]: "preserves (own_legs A N) dispose"
  unfolding dispose_def by (rule own_cancel)

lemma own_legsD:
  "own_legs A N (c, w) \<Longrightarrow> set_option (bc_uaA c) \<subseteq> A \<and> set_option (bc_uaA c) \<subseteq> {..<w_next_id w}"
  "own_legs A N (c, w) \<Longrightarrow> set_option (bc_uaO c) \<subseteq> A \<and> set_option (bc_uaO c) \<subseteq> {..<w_next_id w}"
  "own_legs A N (c, w) \<Longrightarrow> bc_uaA c = Some u \<Longrightarrow> u \<in> A \<and> u < w_next_id w"
  "own_legs A N (c, w) \<Longrightarrow> bc_uaO c = Some u \<Longrightarrow> u \<in> A \<and> u < w_next_id w"
  by (auto simp: own_legs_def)

lemma own_no_answer [preserve_intro]: "preserves (own_legs A N) (on_next_hop_no_answer hk)"
  unfolding on_next_hop_no_answer_def by (intro preserve_intro) (simp_all add: own_legsD)

lemma own_originate_report [preserve_intro]: "preserves (own_legs A N) (originate_report hk hop num)"
  unfolding originate_report_def by (intro preserve_intro) (simp_all add: own_legsD)

lemma own_originate [preserve_intro]: "preserves (own_legs A N) (originate_towards hk hop)"
  unfolding originate_towards_def by (intro preserve_intro) simp_all

lemma own_failover [preserve_intro]: "preserves (own_legs A N) (try_failover hk)"
  unfolding try_failover_def by (intro preserve_intro) simp_all

lemma own_policy [preserve_intro]: "preserves (own_legs A N) (apply_call_policy hk ev)"
  unfolding apply_call_policy_def by (intro preserve_intro) simp_all

lemma own_reject [preserve_intro]: "preserves (own_legs A N) (reject_on_trunk d)"
  unfolding reject_on_trunk_def by (intro preserve_intro) (simp_all add: own_legsD)

lemma own_outbound [preserve_intro]: "preserves (own_legs A N) (originate_outbound_leg hk ev)"
  unfolding originate_outbound_leg_def by (intro preserve_intro) simp_all

lemma own_from_trunk [preserve_intro]: "preserves (own_legs A N) (relay_from_trunk hk ev)"
  unfolding relay_from_trunk_def by (intro preserve_intro) (simp_all add: own_legsD)

lemma own_to_trunk [preserve_intro]: "preserves (own_legs A N) (relay_to_trunk ev)"
  unfolding relay_to_trunk_def by (intro preserve_intro) (simp_all add: own_legsD)

lemma own_failover_record [preserve_intro]: "preserves (own_legs A N) (failover_record ev)"
  unfolding failover_record_def by (intro preserve_intro)

lemma own_from_next_hop [preserve_intro]: "preserves (own_legs A N) (relay_from_next_hop hk ev)"
  unfolding relay_from_next_hop_def by (intro preserve_intro)

lemma own_recv_event [preserve_intro]: "preserves (own_legs A N) (recv_event hk ev u)"
  unfolding recv_event_def by (intro preserve_intro)

end
