(* ===== verification/CallSystem.thy ===== *)
theory CallSystem
  imports CallMap CallFrame
begin

text \<open>
  Several calls of one map in one world. sippy hands an event to the controller its user agent
  was created for and a timer to the controller that armed it; the requests of the trunk, the
  events of all calls and the expiries of all timers interleave in any order. The system
  remembers, for the proofs only, which controller a number (of a user agent or a timer)
  belongs to.
\<close>

section \<open>The system\<close>

record system =
  sy_map :: call_map
  sy_world :: world
  sy_own :: "nat \<Rightarrow> nat option"

definition claim_ids :: "nat \<Rightarrow> world \<Rightarrow> world \<Rightarrow> (nat \<Rightarrow> nat option) \<Rightarrow> nat \<Rightarrow> nat option" where
  "claim_ids j w w' own = (\<lambda>n. if w_next_id w \<le> n \<and> n < w_next_id w' then Some j else own n)"

lemma claim_ids_same: "w_next_id w' = w_next_id w \<Longrightarrow> claim_ids j w w' own = own"
  by (rule ext) (auto simp: claim_ids_def)

definition on_call :: "nat \<Rightarrow> cstmt \<Rightarrow> (pyexc, system) stmt" where
  "on_call j p s =
     (case p (cm_controllers (sy_map s) ! j, sy_world s) of (r, (c', w')) \<Rightarrow>
        (r, s\<lparr>sy_map := (sy_map s)\<lparr>cm_controllers := (cm_controllers (sy_map s))[j := c']\<rparr>, sy_world := w',
              sy_own := claim_ids j (sy_world s) w' (sy_own s)\<rparr>))"

datatype sys_input =
    Trunk sip_request
  | UaEvent nat ccevent
  | TimerDue nat
  | Passes nat
  | ConnectedAre "nat list"
  | DisposeAll

fun sys_do :: "hooks \<Rightarrow> ((string \<times> int) option \<Rightarrow> pyexc + controller) \<Rightarrow> sys_input \<Rightarrow> (pyexc, system) stmt" where
  "sys_do hk build (Trunk rq) s =
     (case map_recv_request build hk rq (sy_map s, sy_world s) of (r, (m', w')) \<Rightarrow>
        (case r of Inl e \<Rightarrow> Inl e | Inr _ \<Rightarrow> Inr (),
         s\<lparr>sy_map := m', sy_world := w',
           sy_own := claim_ids (length (cm_controllers (sy_map s))) (sy_world s) w' (sy_own s)\<rparr>))"
| "sys_do hk build (UaEvent u ev) s =
     (case sy_own s u of None \<Rightarrow> (Inr (), s) | Some j \<Rightarrow> on_call j (recv_event hk ev u) s)"
| "sys_do hk build (TimerDue t) s =
     (case sy_own s t of None \<Rightarrow> (Inr (), s) | Some j \<Rightarrow> on_call j (call_do hk (Fire t)) s)"
| "sys_do hk build (Passes d) s =
     (Inr (), s\<lparr>sy_world := wobs (\<lambda>b. b\<lparr>ob_clock := ob_clock b + int d\<rparr>) (sy_world s)\<rparr>)"
| "sys_do hk build (ConnectedAre us) s = (Inr (), s\<lparr>sy_world := (sy_world s)\<lparr>w_connected := us\<rparr>\<rparr>)"
| "sys_do hk build DisposeAll s =
     (case map_dispose (sy_map s, sy_world s) of (m', w') \<Rightarrow> (Inr (), s\<lparr>sy_map := m', sy_world := w'\<rparr>))"

inductive sys_reach ::
    "hooks \<Rightarrow> ((string \<times> int) option \<Rightarrow> pyexc + controller) \<Rightarrow> system \<Rightarrow> system \<Rightarrow> bool"
  for hk build s0 where
  sys_start: "sys_reach hk build s0 s0"
| sys_step: "sys_reach hk build s0 s \<Longrightarrow> sys_do hk build i s = (r, s') \<Longrightarrow> sys_reach hk build s0 s'"

definition new_system :: "gconf \<Rightarrow> string list \<Rightarrow> world \<Rightarrow> system" where
  "new_system g allowed w = \<lparr>sy_map = mk_call_map g allowed, sy_world = w, sy_own = (\<lambda>_. None)\<rparr>"

definition calls_of :: "system \<Rightarrow> nat \<Rightarrow> sip_call list" where
  "calls_of s j = filter (\<lambda>x. sy_own s (ua_no x) = Some j) (w_sip (sy_world s))"

definition view :: "system \<Rightarrow> nat \<Rightarrow> cst" where
  "view s j = (cm_controllers (sy_map s) ! j, (sy_world s)\<lparr>w_sip := calls_of s j\<rparr>)"

section \<open>The invariant\<close>

definition world_ok :: "sip_conf \<Rightarrow> world \<Rightarrow> bool" where
  "world_ok conf w \<longleftrightarrow> w_conf w = conf \<and> obs_ok (w_obs w) \<and> (\<forall>x\<in>set (w_timers w). fst x < w_next_id w)"

definition owners_ok :: "system \<Rightarrow> bool" where
  "owners_ok s \<longleftrightarrow> (\<forall>n j. sy_own s n = Some j \<longrightarrow> n < w_next_id (sy_world s) \<and> j < length (cm_controllers (sy_map s)))
     \<and> (\<forall>x\<in>set (w_sip (sy_world s)). sy_own s (ua_no x) \<noteq> None)"

definition call_ok :: "sip_conf \<Rightarrow> system \<Rightarrow> nat \<Rightarrow> bool" where
  "call_ok conf s j \<longleftrightarrow> (\<exists>g a cid. call_inv g conf a cid (view s j) \<and> sy_own s a = Some j)"

definition sys_inv :: "sip_conf \<Rightarrow> system \<Rightarrow> bool" where
  "sys_inv conf s \<longleftrightarrow> world_ok conf (sy_world s) \<and> owners_ok s
     \<and> (\<forall>j<length (cm_controllers (sy_map s)). call_ok conf s j)"

lemma owners_okD:
  assumes "owners_ok s"
  shows "sy_own s n = Some k \<Longrightarrow> n < w_next_id (sy_world s) \<and> k < length (cm_controllers (sy_map s))"
    "x \<in> set (w_sip (sy_world s)) \<Longrightarrow> \<exists>i. sy_own s (ua_no x) = Some i"
  using assms by (auto simp: owners_ok_def)

text \<open>A call does not notice what other calls do to the shared world.\<close>

lemma call_inv_world:
  assumes "call_inv g conf a cid (c, w)" "world_ok conf w'" "w_next_id w \<le> w_next_id w'" "w_sip w' = w_sip w"
  shows "call_inv g conf a cid (c, w')"
proof -
  have w: "walked g conf c w p \<Longrightarrow> walked g conf c w' p" for p
    using assms(3,4) by (fastforce simp: walked_def)
  have "timers_ok c w'"
    using assms(1-3) by (auto simp: call_inv_def timers_ok_def world_ok_def)
  then show ?thesis
    using assms w by (auto simp: call_inv_def world_ok_def split: option.splits)
qed

lemma created_member: "(n, nh) \<in> set (created xs) \<Longrightarrow> \<exists>x\<in>set xs. ua_no x = n"
  by (force simp: created_def split: sip_call.splits option.splits)

text \<open>The legs of a call are its own numbers.\<close>

lemma call_own_legs:
  assumes "call_inv g conf a cid (view s j)" "sy_own s a = Some j" "owners_ok s" "N \<le> w_next_id (sy_world s)"
  shows "own_legs ({n. sy_own s n = Some j} \<union> {N..}) N (view s j)"
proof -
  obtain c w where v: "view s j = (c, w)" by (cases "view s j")
  have w: "w = (sy_world s)\<lparr>w_sip := calls_of s j\<rparr>" using v by (simp add: view_def)
  have own: "sy_own s (ua_no x) = Some j" if "x \<in> set (w_sip w)" for x
    using that by (simp add: w calls_of_def)
  have "sy_own s u = Some j" if u: "bc_uaO c = Some u" for u
  proof -
    obtain p where p: "walked g conf c w p" using assms(1) u by (auto simp: v call_inv_def)
    obtain n nh where l: "last (created (w_sip w)) = (n, nh)" by (cases "last (created (w_sip w))")
    have "(n, nh) \<in> set (created (w_sip w))" using p l by (metis last_in_set walked_def)
    moreover have "u = n" using p u l by (simp add: walked_def)
    ultimately show ?thesis using created_member own by blast
  qed
  then have "set_option (bc_uaA c) \<union> set_option (bc_uaO c) \<union> ua_no ` set (w_sip w) \<subseteq> {n. sy_own s n = Some j}"
    using own assms(1,2) by (auto simp: v call_inv_def)
  moreover have "{n. sy_own s n = Some j} \<subseteq> {..<w_next_id w}" using owners_okD(1) [OF assms(3)] by (auto simp: w)
  ultimately show ?thesis using assms(4) by (auto simp: v own_legs_def w)
qed

section \<open>A step of one call\<close>

text \<open>
  \<open>grown\<close>: the step made only calls on user agents of controller \<open>j\<close>, whose numbers are its own
  or new, and it touched no other controller.
\<close>

definition grown :: "nat \<Rightarrow> system \<Rightarrow> sip_call list \<Rightarrow> system \<Rightarrow> bool" where
  "grown j s d s' \<longleftrightarrow> sy_own s' = claim_ids j (sy_world s) (sy_world s') (sy_own s)
   \<and> w_next_id (sy_world s) \<le> w_next_id (sy_world s') \<and> w_sip (sy_world s') = w_sip (sy_world s) @ d
   \<and> (\<forall>x\<in>set d. sy_own s' (ua_no x) = Some j) \<and> j < length (cm_controllers (sy_map s'))
   \<and> length (cm_controllers (sy_map s)) \<le> length (cm_controllers (sy_map s'))
   \<and> (\<forall>k<length (cm_controllers (sy_map s')). k \<noteq> j \<longrightarrow> k < length (cm_controllers (sy_map s))
        \<and> cm_controllers (sy_map s') ! k = cm_controllers (sy_map s) ! k)"

lemma grownD:
  assumes "grown j s d s'"
  shows "sy_own s' = claim_ids j (sy_world s) (sy_world s') (sy_own s)"
    "w_next_id (sy_world s) \<le> w_next_id (sy_world s')" "w_sip (sy_world s') = w_sip (sy_world s) @ d"
    "x \<in> set d \<Longrightarrow> sy_own s' (ua_no x) = Some j" "j < length (cm_controllers (sy_map s'))"
    "k < length (cm_controllers (sy_map s)) \<Longrightarrow> k < length (cm_controllers (sy_map s'))"
    "k < length (cm_controllers (sy_map s')) \<Longrightarrow> k \<noteq> j \<Longrightarrow> k < length (cm_controllers (sy_map s))
        \<and> cm_controllers (sy_map s') ! k = cm_controllers (sy_map s) ! k"
  using assms unfolding grown_def by auto

lemma grown_own_old: "owners_ok s \<Longrightarrow> grown j s d s' \<Longrightarrow> sy_own s n = Some k \<Longrightarrow> sy_own s' n = Some k"
  using owners_okD(1) [of s n k] by (simp add: grownD(1) claim_ids_def)

lemma grown_calls:
  assumes own: "owners_ok s" and g: "grown j s d s'"
  shows "calls_of s' k = calls_of s k @ (if k = j then d else [])"
proof -
  have "sy_own s' (ua_no x) = sy_own s (ua_no x)" if x: "x \<in> set (w_sip (sy_world s))" for x
  proof -
    obtain i where "sy_own s (ua_no x) = Some i" using owners_okD(2) [OF own x] by blast
    then show ?thesis using grown_own_old [OF own g] by simp
  qed
  then have "filter (\<lambda>x. sy_own s' (ua_no x) = Some k) (w_sip (sy_world s)) = calls_of s k"
    unfolding calls_of_def by (intro filter_cong) simp_all
  moreover have "filter (\<lambda>x. sy_own s' (ua_no x) = Some k) d = (if k = j then d else [])"
    using grownD(4) [OF g] by (auto simp: filter_id_conv filter_empty_conv)
  ultimately show ?thesis by (simp add: grownD(3) [OF g] calls_of_def)
qed

lemma grown_owners:
  assumes own: "owners_ok s" and g: "grown j s d s'"
  shows "owners_ok s'"
proof -
  have "sy_own s' (ua_no x) \<noteq> None" if "x \<in> set (w_sip (sy_world s'))" for x
  proof (cases "x \<in> set d")
    case True
    then show ?thesis using grownD(4) [OF g] by simp
  next
    case False
    then have "x \<in> set (w_sip (sy_world s))" using that by (simp add: grownD(3) [OF g])
    then obtain i where "sy_own s (ua_no x) = Some i" using owners_okD(2) [OF own] by blast
    then show ?thesis using grown_own_old [OF own g] by simp
  qed
  moreover have "n < w_next_id (sy_world s') \<and> i < length (cm_controllers (sy_map s'))" if "sy_own s' n = Some i" for n i
    using owners_okD(1) [OF own, of n i] that grownD(2,5,6) [OF g]
    by (fastforce simp: grownD(1) [OF g] claim_ids_def split: if_splits)
  ultimately show ?thesis by (simp add: owners_ok_def)
qed

lemma grown_others:
  assumes own: "owners_ok s" and g: "grown j s d s'" and w: "world_ok conf (sy_world s')"
    and k: "k < length (cm_controllers (sy_map s'))" "k \<noteq> j" and ok: "call_ok conf s k"
  shows "call_ok conf s' k"
proof -
  obtain h a cid where v: "call_inv h conf a cid (view s k)" "sy_own s a = Some k"
    using ok by (auto simp: call_ok_def)
  have "cm_controllers (sy_map s') ! k = cm_controllers (sy_map s) ! k" "calls_of s' k = calls_of s k"
    using grownD(7) [OF g k] k grown_calls [OF own g, of k] by simp_all
  moreover have "call_inv h conf a cid (cm_controllers (sy_map s) ! k, (sy_world s')\<lparr>w_sip := calls_of s k\<rparr>)"
    by (rule call_inv_world [OF v(1) [unfolded view_def]]) (use w grownD(2) [OF g] in \<open>simp_all add: world_ok_def\<close>)
  ultimately have "call_inv h conf a cid (view s' k)" by (simp add: view_def)
  then show ?thesis using grown_own_old [OF own g v(2)] by (auto simp: call_ok_def)
qed

lemma grown_inv:
  assumes inv: "sys_inv conf s" and w: "world_ok conf (sy_world s')" and g: "grown j s d s'"
    and j: "call_ok conf s' j"
  shows "sys_inv conf s'"
proof -
  have own: "owners_ok s" using inv by (simp add: sys_inv_def)
  have "call_ok conf s' k" if "k < length (cm_controllers (sy_map s'))" for k
  proof (cases "k = j")
    case True
    then show ?thesis using j by simp
  next
    case False
    then have "k < length (cm_controllers (sy_map s))" using grownD(7) [OF g that] by blast
    then show ?thesis using grown_others [OF own g w that False] inv by (simp add: sys_inv_def)
  qed
  then show ?thesis using w grown_owners [OF own g] by (simp add: sys_inv_def)
qed

section \<open>What a handler must keep to\<close>


text \<open>
  What the system needs of a handler: it appends, stays on its own user agents, and keeps the
  invariant of its call without raising.
\<close>

definition well_behaved :: "cstmt \<Rightarrow> bool" where
  "well_behaved p \<longleftrightarrow> appends p \<and> (\<forall>A N. preserves (own_legs A N) p)
     \<and> (\<forall>g conf a cid s. call_inv g conf a cid s \<longrightarrow> (\<exists>s'. p s = (Inr (), s') \<and> call_inv g conf a cid s'))"

lemma fire_as_statement:
  "call_do hk (Fire t) = cget (\<lambda>c w. if due t w then bindp (wupd (disarm t)) (\<lambda>_. on_next_hop_no_answer hk) else ret ())"
  by (rule ext) (auto simp: cget_def)

lemma due_sip [simp]: "due t (w\<lparr>w_sip := xs\<rparr>) = due t w"
  by (simp add: due_def)

lemma well_behaved_event: "decide_ok hk \<Longrightarrow> well_behaved (recv_event hk ev u)"
  using inv_input [of hk _ _ _ _ _ "Event ev u"]
  by (simp add: well_behaved_def appends_recv_event own_recv_event)

lemma well_behaved_fire: "decide_ok hk \<Longrightarrow> well_behaved (call_do hk (Fire t))"
proof -
  assume hk: "decide_ok hk"
  have "appends (call_do hk (Fire t))"
    unfolding fire_as_statement by (intro append_intro) simp_all
  moreover have "preserves (own_legs A N) (call_do hk (Fire t))" for A N
    unfolding fire_as_statement by (intro preserve_intro)
  ultimately show ?thesis
    using inv_input [OF hk, of _ _ _ _ _ "Fire t"] by (simp add: well_behaved_def)
qed

lemma on_call_run:
  assumes inv: "sys_inv conf s" and j: "j < length (cm_controllers (sy_map s))" and p: "well_behaved p"
  obtains g a cid c' w1 where "sy_own s a = Some j"
    "on_call j p s = (Inr (), s\<lparr>sy_map := (sy_map s)\<lparr>cm_controllers := (cm_controllers (sy_map s))[j := c']\<rparr>,
       sy_world := w1\<lparr>w_sip := w_sip (sy_world s) @ w_sip w1\<rparr>,
       sy_own := claim_ids j (sy_world s) w1 (sy_own s)\<rparr>)"
    "call_inv g conf a cid (c', w1\<lparr>w_sip := calls_of s j @ w_sip w1\<rparr>)"
    "own_legs ({n. sy_own s n = Some j} \<union> {w_next_id (sy_world s)..}) (w_next_id (sy_world s))
       (c', w1\<lparr>w_sip := calls_of s j @ w_sip w1\<rparr>)"
proof -
  let ?w = "sy_world s" and ?c = "cm_controllers (sy_map s) ! j"
  obtain g a cid where v: "call_inv g conf a cid (view s j)" "sy_own s a = Some j"
    using inv j by (auto simp: sys_inv_def call_ok_def)
  have own: "owners_ok s" using inv by (simp add: sys_inv_def)
  obtain r c' w1 where r: "p (?c, ?w\<lparr>w_sip := []\<rparr>) = (r, (c', w1))" by (metis prod.collapse)
  have ap: "appends p" and legs: "preserves (own_legs A N) p" for A N
    using p by (simp_all add: well_behaved_def)
  note run = appendsD [OF ap r]
  have vrun: "p (view s j) = (r, (c', w1\<lparr>w_sip := calls_of s j @ w_sip w1\<rparr>))"
    unfolding view_def by (rule run)
  obtain s' where s': "p (view s j) = (Inr (), s')" "call_inv g conf a cid s'"
    using p v(1) unfolding well_behaved_def by blast
  have ok: "r = Inr ()" "call_inv g conf a cid (c', w1\<lparr>w_sip := calls_of s j @ w_sip w1\<rparr>)"
    using s' vrun by simp_all
  have "p (?c, ?w) = (Inr (), (c', w1\<lparr>w_sip := w_sip ?w @ w_sip w1\<rparr>))"
    using run [of "w_sip ?w"] ok(1) by simp
  then have "on_call j p s = (Inr (), s\<lparr>sy_map := (sy_map s)\<lparr>cm_controllers := (cm_controllers (sy_map s))[j := c']\<rparr>,
       sy_world := w1\<lparr>w_sip := w_sip (sy_world s) @ w_sip w1\<rparr>,
       sy_own := claim_ids j (sy_world s) w1 (sy_own s)\<rparr>)"
    by (simp add: on_call_def claim_ids_def)
  moreover have "own_legs ({n. sy_own s n = Some j} \<union> {w_next_id ?w..}) (w_next_id ?w)
       (c', w1\<lparr>w_sip := calls_of s j @ w_sip w1\<rparr>)"
    using preservesD [OF legs call_own_legs [OF v own order_refl]] vrun by simp
  ultimately show ?thesis using that v(2) ok(2) by blast
qed

lemma on_call_step:
  assumes inv: "sys_inv conf s" and j: "j < length (cm_controllers (sy_map s))" and p: "well_behaved p"
  shows "\<exists>s' d. on_call j p s = (Inr (), s') \<and> sys_inv conf s' \<and> grown j s d s'"
proof -
  obtain g a cid c' w1 where a: "sy_own s a = Some j"
    and run: "on_call j p s = (Inr (), s\<lparr>sy_map := (sy_map s)\<lparr>cm_controllers := (cm_controllers (sy_map s))[j := c']\<rparr>,
       sy_world := w1\<lparr>w_sip := w_sip (sy_world s) @ w_sip w1\<rparr>,
       sy_own := claim_ids j (sy_world s) w1 (sy_own s)\<rparr>)" (is "_ = (_, ?s)")
    and c: "call_inv g conf a cid (c', w1\<lparr>w_sip := calls_of s j @ w_sip w1\<rparr>)"
    and legs: "own_legs ({n. sy_own s n = Some j} \<union> {w_next_id (sy_world s)..}) (w_next_id (sy_world s))
       (c', w1\<lparr>w_sip := calls_of s j @ w_sip w1\<rparr>)"
    by (rule on_call_run [OF assms])
  have own: "owners_ok s" using inv by (simp add: sys_inv_def)
  have "sy_own ?s n = Some j" if "n \<in> ua_no ` set (w_sip w1)" for n
  proof -
    have "n \<in> ({n. sy_own s n = Some j} \<union> {w_next_id (sy_world s)..}) \<inter> {..<w_next_id w1}"
      using legs that unfolding own_legs_def by auto
    then show ?thesis using owners_okD(1) [OF own, of n j] by (auto simp: claim_ids_def)
  qed
  moreover have "w_next_id (sy_world s) \<le> w_next_id w1" using legs by (simp add: own_legs_def)
  ultimately have g: "grown j s (w_sip w1) ?s"
    using j by (simp add: grown_def claim_ids_def)
  have w: "world_ok conf (sy_world ?s)"
    using c by (simp add: call_inv_def world_ok_def timers_ok_def)
  have "call_inv g conf a cid (view ?s j)"
    unfolding view_def grown_calls [OF own g] using j c call_inv_world [OF c, of "w1\<lparr>w_sip := calls_of s j @ w_sip w1\<rparr>"]
    by simp
  moreover have "sy_own ?s a = Some j" using grown_own_old [OF own g a] .
  ultimately have "call_ok conf ?s j" by (auto simp: call_ok_def)
  then show ?thesis using run g grown_inv [OF inv w g] by blast
qed

text \<open>The same step seen by the call itself.\<close>

lemma on_call_view:
  assumes inv: "sys_inv conf s" and j: "j < length (cm_controllers (sy_map s))" and p: "well_behaved p"
  obtains d c' w' where "p (view s j) = (Inr (), (c', w'))" "grown j s d (snd (on_call j p s))"
    "cm_controllers (sy_map (snd (on_call j p s))) ! j = c'" "w_obs (sy_world (snd (on_call j p s))) = w_obs w'"
    "w_sip w' = calls_of s j @ d" "calls_of (snd (on_call j p s)) j = calls_of s j @ d"
proof -
  let ?w = "sy_world s" and ?c = "cm_controllers (sy_map s) ! j" and ?s = "snd (on_call j p s)"
  have own: "owners_ok s" using inv by (simp add: sys_inv_def)
  obtain d where g: "grown j s d ?s" using on_call_step [OF inv j p] by auto
  obtain g a cid where v: "call_inv g conf a cid (view s j)"
    using inv j by (auto simp: sys_inv_def call_ok_def)
  obtain r c' w1 where r: "p (?c, ?w\<lparr>w_sip := []\<rparr>) = (r, (c', w1))" by (metis prod.collapse)
  have run: "p (?c, ?w\<lparr>w_sip := xs\<rparr>) = (r, (c', w1\<lparr>w_sip := xs @ w_sip w1\<rparr>))" for xs
    using p appendsD [where m = p and c = ?c and w = ?w, OF _ r] by (simp add: well_behaved_def)
  have "p (?c, ?w) = (r, (c', w1\<lparr>w_sip := w_sip ?w @ w_sip w1\<rparr>))" using run [of "w_sip ?w"] by simp
  then have s': "cm_controllers (sy_map ?s) ! j = c'" "w_obs (sy_world ?s) = w_obs w1"
      "w_sip (sy_world ?s) = w_sip ?w @ w_sip w1"
    using j by (simp_all add: on_call_def)
  then have d: "d = w_sip w1" using grownD(3) [OF g] by simp
  have vrun: "p (view s j) = (r, (c', w1\<lparr>w_sip := calls_of s j @ d\<rparr>))" unfolding view_def d by (rule run)
  moreover have "r = Inr ()" using p v vrun unfolding well_behaved_def by fastforce
  moreover have "calls_of ?s j = calls_of s j @ d" using grown_calls [OF own g, of j] by simp
  ultimately show ?thesis using that [of c' "w1\<lparr>w_sip := calls_of s j @ d\<rparr>" d] g s' by simp
qed

lemma on_call_site:
  assumes inv: "sys_inv conf s" and j: "j < length (cm_controllers (sy_map s))" and p: "well_behaved p"
  shows "bc_uaA (cm_controllers (sy_map (snd (on_call j p s))) ! j) = bc_uaA (cm_controllers (sy_map s) ! j)"
    "bc_conf (cm_controllers (sy_map (snd (on_call j p s))) ! j) = bc_conf (cm_controllers (sy_map s) ! j)"
proof -
  obtain g a cid where v: "call_inv g conf a cid (view s j)"
    using inv j by (auto simp: sys_inv_def call_ok_def)
  obtain d c' w' where r: "p (view s j) = (Inr (), (c', w'))" "cm_controllers (sy_map (snd (on_call j p s))) ! j = c'"
    by (rule on_call_view [OF inv j p])
  obtain s1 where "p (view s j) = (Inr (), s1)" "call_inv g conf a cid s1"
    using p v unfolding well_behaved_def by blast
  then have "call_inv g conf a cid (c', w')" using r(1) by simp
  then show "bc_uaA (cm_controllers (sy_map (snd (on_call j p s))) ! j) = bc_uaA (cm_controllers (sy_map s) ! j)"
    "bc_conf (cm_controllers (sy_map (snd (on_call j p s))) ! j) = bc_conf (cm_controllers (sy_map s) ! j)"
    using v r(2) by (simp_all add: view_def call_inv_def)
qed

section \<open>The other steps\<close>

lemma quiet_inv:
  assumes inv: "sys_inv conf s" and w: "world_ok conf (sy_world s')"
    and same: "sy_own s' = sy_own s" "w_sip (sy_world s') = w_sip (sy_world s)"
      "w_next_id (sy_world s') = w_next_id (sy_world s)"
      "length (cm_controllers (sy_map s')) = length (cm_controllers (sy_map s))"
    and cs: "\<And>k. k < length (cm_controllers (sy_map s)) \<Longrightarrow> cm_controllers (sy_map s') ! k
      \<in> {cm_controllers (sy_map s) ! k, (cm_controllers (sy_map s) ! k)\<lparr>bc_no_answer_timer := None\<rparr>}"
  shows "sys_inv conf s'"
proof -
  have "call_ok conf s' k" if k: "k < length (cm_controllers (sy_map s))" for k
  proof -
    obtain g a cid where v: "call_inv g conf a cid (view s k)" "sy_own s a = Some k"
      using inv k by (auto simp: sys_inv_def call_ok_def)
    let ?c = "cm_controllers (sy_map s) ! k" and ?w = "(sy_world s')\<lparr>w_sip := calls_of s k\<rparr>"
    have c: "call_inv g conf a cid (?c, ?w)"
      by (rule call_inv_world [OF v(1) [unfolded view_def]]) (use w same in \<open>simp_all add: world_ok_def\<close>)
    then have "call_inv g conf a cid (?c\<lparr>bc_no_answer_timer := None\<rparr>, ?w)"
      by (auto simp: call_inv_def timers_ok_def walked_def split: option.splits)
    moreover have "calls_of s' k = calls_of s k" by (simp add: calls_of_def same)
    ultimately have "call_inv g conf a cid (view s' k)" using c cs [OF k] by (auto simp: view_def)
    then show ?thesis using v(2) same(1) by (auto simp: call_ok_def)
  qed
  then show ?thesis using inv w same by (simp add: sys_inv_def owners_ok_def)
qed

lemma dispose_all_frame:
  "fst (dispose_all cs w) = map (\<lambda>c. c\<lparr>bc_no_answer_timer := None\<rparr>) cs
   \<and> w_next_id (snd (dispose_all cs w)) = w_next_id w \<and> w_conf (snd (dispose_all cs w)) = w_conf w
   \<and> w_obs (snd (dispose_all cs w)) = w_obs w"
proof (induction cs arbitrary: w)
  case Nil
  then show ?case by simp
next
  case (Cons c cs)
  obtain cs' w' where r: "dispose_all cs (timer_dropped c w) = (cs', w')"
    by (cases "dispose_all cs (timer_dropped c w)")
  show ?case using Cons.IH [of "timer_dropped c w"] r by (simp add: dispose_def run_simps)
qed

lemma dispose_step:
  assumes "sys_inv conf s"
  shows "sys_inv conf (snd (sys_do hk build DisposeAll s))" "fst (sys_do hk build DisposeAll s) = Inr ()"
proof -
  let ?m = "sy_map s" and ?w = "sy_world s"
  obtain cs w' where d: "dispose_all (cm_controllers ?m) ?w = (cs, w')"
    by (cases "dispose_all (cm_controllers ?m) ?w")
  have run: "sys_do hk build DisposeAll s = (Inr (), s\<lparr>sy_map := ?m\<lparr>cm_controllers := cs\<rparr>, sy_world := w'\<rparr>)"
    by (simp add: map_dispose_def d)
  note f = dispose_all_frame [of "cm_controllers ?m" ?w, unfolded d]
    and t = dispose_all_spec [of "cm_controllers ?m" ?w, unfolded d]
  show "sys_inv conf (snd (sys_do hk build DisposeAll s))"
    unfolding run by (rule quiet_inv [OF assms]) (use assms f t in \<open>auto simp: sys_inv_def world_ok_def\<close>)
  show "fst (sys_do hk build DisposeAll s) = Inr ()" unfolding run by simp
qed

definition builds_fresh :: "((string \<times> int) option \<Rightarrow> pyexc + controller) \<Rightarrow> bool" where
  "builds_fresh build \<longleftrightarrow> (\<forall>nh. \<exists>c. build nh = Inr c \<and> bc_uaO c = None \<and> bc_no_answer_timer c = None)"

lemma admitted_step:
  assumes inv: "sys_inv conf s" and c: "bc_uaO c = None" "bc_no_answer_timer c = None"
    and rq: "sy_own s' = claim_ids (length (cm_controllers (sy_map s))) (sy_world s) (sy_world s') (sy_own s)"
      "cm_controllers (sy_map s') = cm_controllers (sy_map s) @ [answered rq (sy_world s) c]"
      "sy_world s' = answered_world rq (answered rq (sy_world s) c) f (sy_world s)"
  shows "sys_inv conf s'" "\<exists>d. grown (length (cm_controllers (sy_map s))) s d s'"
proof -
  let ?w = "sy_world s" and ?j = "length (cm_controllers (sy_map s))" and ?c = "answered rq (sy_world s) c"
  have own: "owners_ok s" and w: "world_ok conf ?w" using inv by (simp_all add: sys_inv_def)
  define d where "d = [UaCreated (w_next_id ?w) None (opt_get (gc_sip_uaname (bc_conf ?c)) [])
          (local_contact (bc_conf ?c) (w_conf ?w)),
        UaRecvRequest (w_next_id ?w) rq (pinned_identity (bc_conf ?c) (w_conf ?w))]"
  have d: "w_sip (sy_world s') = w_sip ?w @ d" "w_next_id (sy_world s') = Suc (w_next_id ?w)" "created d = []"
    by (simp_all add: rq(3) answered_world_def d_def)
  have "sy_own s' (w_next_id ?w) = Some ?j" by (simp add: rq(1) claim_ids_def d(2))
  moreover have "\<forall>x\<in>set d. ua_no x = w_next_id ?w" by (simp add: d_def)
  ultimately have g: "grown ?j s d s'"
    by (auto simp: grown_def rq(1,2) d(1,2) nth_append claim_ids_def)
  have w': "world_ok conf (sy_world s')"
    using w by (auto simp: world_ok_def rq(3) answered_world_def inbound_obs_def)
  have "calls_of s ?j = []"
    using owners_okD(1) [OF own] by (fastforce simp: calls_of_def filter_empty_conv)
  then have "view s' ?j = (?c, (sy_world s')\<lparr>w_sip := d\<rparr>)"
    using grown_calls [OF own g, of ?j] by (simp add: view_def rq(2))
  moreover have "call_inv (bc_conf c) conf (w_next_id ?w) (rq_call_id rq) (?c, (sy_world s')\<lparr>w_sip := d\<rparr>)"
    using w' c d(2,3) by (auto simp: call_inv_def world_ok_def timers_ok_def answered_def)
  ultimately have "call_ok conf s' ?j"
    using \<open>sy_own s' (w_next_id ?w) = Some ?j\<close> unfolding call_ok_def by metis
  then show "sys_inv conf s'" using grown_inv [OF inv w' g] by blast
  show "\<exists>d. grown ?j s d s'" using g by blast
qed

text \<open>The trunk's requests: refused ones change the observability side only.\<close>

lemma trunk_cases:
  assumes "builds_fresh build" "inbound_ok hk rq" "obs_ok (w_obs w)"
  obtains (refused) x b where "map_recv_request build hk rq (m, w) = (Inr x, (m, w\<lparr>w_obs := b\<rparr>))" "obs_ok b"
      "ob_metrics b \<in> {ob_metrics (w_obs w), record_error ''AS-PEER-001'' (ob_metrics (w_obs w))}"
  | (admitted) c f where "bc_uaO c = None" "bc_no_answer_timer c = None"
      "map_recv_request build hk rq (m, w) = (Inr FromAgent,
         (m\<lparr>cm_controllers := cm_controllers m @ [answered rq w c]\<rparr>, answered_world rq (answered rq w c) f w))"
proof (cases "source_address rq \<in> set (cm_allowed_peers m) \<and> rq_to_tag rq = None \<and> rq_method rq = ''INVITE''")
  case True
  obtain c where c: "build (gc_nh_addr (cm_conf m)) = Inr c" "bc_uaO c = None" "bc_no_answer_timer c = None"
    using assms(1) unfolding builds_fresh_def by blast
  obtain f where f: "hk_inbound_fields hk rq = Inr f" "fields_clean (relay_kwargs [] [] f)"
    using assms(2) by (auto simp: inbound_ok_def split: sum.splits)
  show ?thesis
    by (rule admitted [of "c\<lparr>bc_trunk_request := Some rq\<rparr>" f])
       (use c run_admission [of rq m build c w hk f] True assms(3) f in simp_all)
next
  case False
  show ?thesis
  proof (cases "source_address rq \<in> set (cm_allowed_peers m)")
    case True
    then have "(\<exists>x. map_recv_request build hk rq (m, w) = (Inr x, (m, w)))"
      using trunk_refusals [OF True, where build = build and hk = hk and w = w] False True
      by (cases "rq_to_tag rq = None") auto
    then show ?thesis using refused [of _ "w_obs w"] assms(3) by auto
  next
    case out: False
    then have "map_recv_request build hk rq (m, w) = reject_peer rq (source_address rq) (source_peer rq) (m, w)"
      by (simp add: map_recv_request_def is_allowed_peer_def)
    then show ?thesis
      using run_reject_peer [OF assms(3), of rq m] assms(3) by (auto simp: wobs_def intro!: refused)
  qed
qed

lemma trunk_step:
  assumes inv: "sys_inv conf s" and b: "builds_fresh build" and rq: "inbound_ok hk rq"
  shows "\<exists>s'. sys_do hk build (Trunk rq) s = (Inr (), s') \<and> sys_inv conf s'
    \<and> (\<forall>k<length (cm_controllers (sy_map s)).
         cm_controllers (sy_map s') ! k = cm_controllers (sy_map s) ! k \<and> calls_of s' k = calls_of s k)"
proof -
  have o: "obs_ok (w_obs (sy_world s))" and own: "owners_ok s"
    using inv by (simp_all add: sys_inv_def world_ok_def)
  let ?do = "sys_do hk build (Trunk rq) s" and ?j = "length (cm_controllers (sy_map s))"
  show ?thesis
    using b rq o
  proof (cases rule: trunk_cases [where m = "sy_map s"])
    case (refused x b)
    then have run: "?do = (Inr (), s\<lparr>sy_map := sy_map s, sy_world := (sy_world s)\<lparr>w_obs := b\<rparr>, sy_own := sy_own s\<rparr>)"
      by (simp add: claim_ids_same)
    have "sys_inv conf (snd ?do)"
      unfolding run by (rule quiet_inv [OF inv]) (use inv refused(2) in \<open>auto simp: sys_inv_def world_ok_def\<close>)
    then show ?thesis unfolding run by (simp add: calls_of_def)
  next
    case (admitted c f)
    then have run: "?do = (Inr (), snd ?do)" by simp
    have i: "sys_inv conf (snd ?do)" and "\<exists>d. grown ?j s d (snd ?do)"
      by (rule admitted_step [OF inv admitted(1,2)]; simp add: admitted(3))+
    then obtain d where g: "grown ?j s d (snd ?do)" by blast
    have "cm_controllers (sy_map (snd ?do)) ! k = cm_controllers (sy_map s) ! k \<and> calls_of (snd ?do) k = calls_of s k"
      if "k < ?j" for k
      using grownD(7) [OF g grownD(6) [OF g that]] grown_calls [OF own g, of k] that
      by (simp only: less_not_refl3 if_False append_Nil2 simp_thms)
    then show ?thesis using run i by (intro exI [of _ "snd ?do"]) blast
  qed
qed

fun input_owner :: "system \<Rightarrow> sys_input \<Rightarrow> nat option" where
  "input_owner s (UaEvent u ev) = sy_own s u"
| "input_owner s (TimerDue t) = sy_own s t"
| "input_owner s _ = None"

lemma system_step:
  assumes inv: "sys_inv conf s" and hk: "decide_ok hk" "\<And>rq. inbound_ok hk rq" "builds_fresh build"
  shows "\<exists>s'. sys_do hk build i s = (Inr (), s') \<and> sys_inv conf s'
    \<and> (i \<noteq> DisposeAll \<longrightarrow> (\<forall>k<length (cm_controllers (sy_map s)). input_owner s i \<noteq> Some k \<longrightarrow>
         cm_controllers (sy_map s') ! k = cm_controllers (sy_map s) ! k \<and> calls_of s' k = calls_of s k))"
proof -
  have own: "owners_ok s" and w: "world_ok conf (sy_world s)" using inv by (simp_all add: sys_inv_def)
  have one: ?thesis if p: "well_behaved p" "sys_do hk build i s = on_call j p s" "input_owner s i = Some j" for p j
  proof -
    have "j < length (cm_controllers (sy_map s))"
      using that(3) owners_okD(1) [OF own] by (cases i) auto
    then obtain s' d where s': "on_call j p s = (Inr (), s')" "sys_inv conf s'" and g: "grown j s d s'"
      using on_call_step [OF inv _ p(1)] by blast
    then show ?thesis using p(2,3) grownD(6,7) [OF g] grown_calls [OF own g] by auto
  qed
  show ?thesis
  proof (cases i)
    case (Trunk rq)
    then show ?thesis using trunk_step [OF inv hk(3,2), of rq] by auto
  next
    case (UaEvent u ev)
    then show ?thesis
      using one [OF well_behaved_event [OF hk(1), of ev u]] inv by (cases "sy_own s u") simp_all
  next
    case (TimerDue t)
    then show ?thesis
      using one [OF well_behaved_fire [OF hk(1), of t]] inv by (cases "sy_own s t") simp_all
  next
    case (Passes d)
    have "sys_inv conf (s\<lparr>sy_world := wobs (\<lambda>b. b\<lparr>ob_clock := ob_clock b + int d\<rparr>) (sy_world s)\<rparr>)"
      by (rule quiet_inv [OF inv]) (use w in \<open>auto simp: world_ok_def obs_ok_def\<close>)
    then show ?thesis using Passes by (simp add: calls_of_def)
  next
    case (ConnectedAre us)
    have "sys_inv conf (s\<lparr>sy_world := (sy_world s)\<lparr>w_connected := us\<rparr>\<rparr>)"
      by (rule quiet_inv [OF inv]) (use w in \<open>auto simp: world_ok_def\<close>)
    then show ?thesis using ConnectedAre by (simp add: calls_of_def)
  next
    case DisposeAll
    then show ?thesis using dispose_step [OF inv] by (metis prod.collapse)
  qed
qed

lemma system_inv:
  assumes "sys_reach hk build (new_system g allowed w) s" "decide_ok hk" "\<And>rq. inbound_ok hk rq" "builds_fresh build"
    "fresh_world w"
  shows "sys_inv (w_conf w) s"
  using assms(1)
proof (induction rule: sys_reach.induct)
  case sys_start
  then show ?case
    using assms(5) by (simp add: sys_inv_def new_system_def mk_call_map_def world_ok_def owners_ok_def fresh_world_def)
next
  case (sys_step s i r s')
  then show ?case using system_step [OF sys_step.IH assms(2-4), of i] by auto
qed

section \<open>Calls side by side\<close>

definition sample_build :: "(string \<times> int) option \<Rightarrow> pyexc + controller" where
  "sample_build nh = Inr (mk_controller sample_conf nh)"

text \<open>Two calls admitted one after the other.\<close>

definition sample_system :: system where
  "sample_system = snd (sys_do (sample_hooks sample_relay) sample_build (Trunk sample_request)
     (snd (sys_do (sample_hooks sample_relay) sample_build (Trunk sample_request)
        (new_system sample_conf [''10.0.0.2''] sample_world))))"

lemma sample_system_reached:
  "sys_reach (sample_hooks sample_relay) sample_build (new_system sample_conf [''10.0.0.2''] sample_world) sample_system"
  unfolding sample_system_def by (rule sys_step [OF sys_step [OF sys_start surjective_pairing] surjective_pairing])

lemma sample_builds: "builds_fresh sample_build"
  by (simp add: builds_fresh_def sample_build_def mk_controller_def)

text \<open>
  C3: Calls do not interfere. Start with an empty call map and let the trunk's requests, the
  events of every leg, the expiries of every timer, the passing of time and a shutdown come
  in any order. No input raises, the identity sippy reads is the configured one again after
  every step, and every call ever made into sippy is on a user agent of exactly one known
  controller. Each controller's own history (its user agents, whatever the others did in
  between) is a walk along the hops of its own decision: the addresses dialled so far
  followed by the hops left are the hops decided, the current leg is the last one dialled,
  and every leg was announced under the controller's own pinned identity. An input for one
  call leaves the state and the history of every other call as they were.
\<close>
theorem calls_run_side_by_side:
  assumes "decide_ok hk" "\<forall>rq. inbound_ok hk rq" "builds_fresh build" "fresh_world w"
    and "sys_reach hk build (new_system g allowed w) s"
  shows "w_conf (sy_world s) = w_conf w
    \<and> (\<forall>x\<in>set (w_sip (sy_world s)). \<exists>j<length (cm_controllers (sy_map s)). sy_own s (ua_no x) = Some j)
    \<and> (\<forall>j<length (cm_controllers (sy_map s)). let c = cm_controllers (sy_map s) ! j; own = calls_of s j in
         case bc_uaO c of None \<Rightarrow> created own = []
         | Some u \<Rightarrow> \<exists>p. bc_policy c = Some p \<and> relay_ok p \<and> created own \<noteq> []
             \<and> map snd (created own) @ map hop_addr (bc_failover_hops c) = map hop_addr (pd_next_hops p)
             \<and> u = fst (last (created own))
             \<and> (\<forall>(n, nh)\<in>set (created own). \<exists>ev. pd_outbound_event p = Some ev
                  \<and> UaRecvEvent n ev (pinned_identity (bc_conf c) (w_conf w)) \<in> set own))
    \<and> (\<forall>i. \<exists>s'. sys_do hk build i s = (Inr (), s')
         \<and> (i \<noteq> DisposeAll \<longrightarrow> (\<forall>k<length (cm_controllers (sy_map s)). input_owner s i \<noteq> Some k \<longrightarrow>
              cm_controllers (sy_map s') ! k = cm_controllers (sy_map s) ! k \<and> calls_of s' k = calls_of s k)))"
proof -
  have inv: "sys_inv (w_conf w) s" using assms system_inv by blast
  then have own: "owners_ok s" by (simp add: sys_inv_def)
  have "\<exists>j<length (cm_controllers (sy_map s)). sy_own s (ua_no x) = Some j" if "x \<in> set (w_sip (sy_world s))" for x
    using owners_okD [OF own] that by blast
  moreover have "case bc_uaO c of None \<Rightarrow> created (calls_of s j) = []
         | Some u \<Rightarrow> \<exists>p. bc_policy c = Some p \<and> relay_ok p \<and> created (calls_of s j) \<noteq> []
             \<and> map snd (created (calls_of s j)) @ map hop_addr (bc_failover_hops c) = map hop_addr (pd_next_hops p)
             \<and> u = fst (last (created (calls_of s j)))
             \<and> (\<forall>(n, nh)\<in>set (created (calls_of s j)). \<exists>ev. pd_outbound_event p = Some ev
                  \<and> UaRecvEvent n ev (pinned_identity (bc_conf c) (w_conf w)) \<in> set (calls_of s j))"
    if j: "j < length (cm_controllers (sy_map s))" and c: "c = cm_controllers (sy_map s) ! j" for j c
  proof -
    obtain g a cid where v: "call_inv g (w_conf w) a cid (view s j)"
      using inv j by (auto simp: sys_inv_def call_ok_def)
    have g: "g = bc_conf c" using v by (simp add: view_def call_inv_def c)
    show ?thesis
    proof (cases "bc_uaO c")
      case None
      then show ?thesis using v by (simp add: view_def call_inv_def c)
    next
      case (Some u)
      then obtain p where "walked g (w_conf w) c ((sy_world s)\<lparr>w_sip := calls_of s j\<rparr>) p"
        using v by (auto simp: view_def call_inv_def c)
      then show ?thesis using Some g by (auto simp: walked_def split: prod.splits)
    qed
  qed
  moreover have "w_conf (sy_world s) = w_conf w" using inv by (simp add: sys_inv_def world_ok_def)
  moreover note system_step [OF inv assms(1) assms(2) [rule_format] assms(3)]
  ultimately show ?thesis unfolding Let_def by (intro conjI; blast)
qed

theorem calls_run_side_by_side_witness:
  "w_conf (sy_world sample_system) = w_conf sample_world
   \<and> (\<forall>i. \<exists>s'. sys_do (sample_hooks sample_relay) sample_build i sample_system = (Inr (), s'))"
  using calls_run_side_by_side [OF sample_decide_ok(1) _ sample_builds sample_fresh sample_system_reached]
    sample_inbound by blast

end
