(* ===== verification/CallAccounting.thy ===== *)
theory CallAccounting
  imports CallSystem
begin

text \<open>
  The books of a call map: what the counters and the list of controllers say after any run of
  the system, in terms of the requests the trunk sent.
\<close>

section \<open>What the handlers of a call never count\<close>

definition peer_errors :: "metrics_registry \<Rightarrow> int" where
  "peer_errors m = counter_get (mr_errors_by_code m) ''AS-PEER-001''"

text \<open>\<open>booked\<close>: the calls started, the refusals counted and the Call-ID of the controller.\<close>

definition booked :: "int \<Rightarrow> int \<Rightarrow> string \<Rightarrow> cst \<Rightarrow> bool" where
  "booked n e cid s \<longleftrightarrow> (case s of (c, w) \<Rightarrow> mr_calls_total (ob_metrics (w_obs w)) = n
     \<and> peer_errors (ob_metrics (w_obs w)) = e \<and> bc_call_id c = cid)"

lemma booked_metrics:
  "(\<And>m. mr_calls_total (f m) = mr_calls_total m) \<Longrightarrow> (\<And>m. mr_errors_by_code (f m) = mr_errors_by_code m) \<Longrightarrow>
   preserves (booked n e cid) (obs_do (metrics_do f))"
  by (auto simp: preserves_def booked_def obs_do_def metrics_do_def peer_errors_def)

lemma booked_peer_status [preserve_intro]:
  "preserves (booked n e cid) (obs_do (metrics_do (set_peer_status p st)))"
  by (rule booked_metrics) (simp_all add: set_peer_status_def)

lemma booked_disposition [preserve_intro]:
  "preserves (booked n e cid) (obs_do (metrics_do (record_call_disposition d)))"
  by (rule booked_metrics) (simp_all add: record_call_disposition_def)

lemma booked_obs_do:
  "(\<And>b. ob_metrics (snd (m b)) = ob_metrics b) \<Longrightarrow> preserves (booked n e cid) (obs_do m)"
  by (auto simp: preserves_def booked_def obs_do_def split: prod.splits) (metis snd_conv)+

lemma booked_trace [preserve_intro]:
  "preserves (booked n e cid) (obs_do (obs_trace ci dir meth summ peer rid attrs))"
  by (rule booked_obs_do) (simp add: obs_trace_def split: prod.split sum.split)

lemma booked_log [preserve_intro]: "preserves (booked n e cid) (obs_do (obs_log lev ev kw))"
  by (rule booked_obs_do) (simp add: obs_log_def split: prod.split)

lemma booked_cupd [preserve_intro]:
  "(\<And>c. bc_call_id (f c) = bc_call_id c) \<Longrightarrow> preserves (booked n e cid) (cupd f)"
  by (rule preserves_cupd) (simp add: booked_def)

lemma booked_wupd [preserve_intro]:
  "(\<And>w. w_obs (f w) = w_obs w) \<Longrightarrow> preserves (booked n e cid) (wupd f)"
  by (rule preserves_wupd) (simp add: booked_def)

lemma booked_cget [preserve_intro]:
  "(\<And>c w. preserves (booked n e cid) (f c w)) \<Longrightarrow> preserves (booked n e cid) (cget f)"
  by (auto simp: preserves_def)

lemma booked_new_ua [preserve_intro]: "preserves (booked n e cid) (new_ua nh)"
  unfolding new_ua_def by (intro preserve_intro) simp

lemma booked_arm_timer [preserve_intro]: "preserves (booked n e cid) (arm_timer d)"
  unfolding arm_timer_def by (intro preserve_intro) simp

lemma booked_ua_recv_event [preserve_intro]: "preserves (booked n e cid) (ua_recv_event ua ev)"
  unfolding ua_recv_event_def by (intro preserve_intro) simp

lemma booked_sip_identity [preserve_intro]:
  "preserves (booked n e cid) body \<Longrightarrow> preserves (booked n e cid) (sip_identity g body)"
  unfolding sip_identity_def by (intro preserve_intro) (auto simp: booked_def)

text \<open>The documented part of the application in this: it does not count calls or refusals.\<close>

definition decide_books :: "hooks \<Rightarrow> bool" where
  "decide_books hk \<longleftrightarrow> (\<forall>c ev b. mr_calls_total (ob_metrics (snd (hk_decide hk c ev b))) = mr_calls_total (ob_metrics b)
     \<and> peer_errors (ob_metrics (snd (hk_decide hk c ev b))) = peer_errors (ob_metrics b))"

lemma booked_decide: "decide_books hk \<Longrightarrow> preserves (booked n e cid) (obs_do (hk_decide hk c ev))"
proof (rule preservesI)
  fix s
  assume d: "decide_books hk" and b: "booked n e cid s"
  obtain c1 w1 where s: "s = (c1, w1)" by (cases s)
  obtain r b1 where r: "hk_decide hk c ev (w_obs w1) = (r, b1)" by (cases "hk_decide hk c ev (w_obs w1)")
  have "mr_calls_total (ob_metrics b1) = mr_calls_total (ob_metrics (w_obs w1))
      \<and> peer_errors (ob_metrics b1) = peer_errors (ob_metrics (w_obs w1))"
    using d r unfolding decide_books_def by (metis snd_conv)
  then show "booked n e cid (snd (obs_do (hk_decide hk c ev) s))"
    using b by (simp add: s obs_do_def r booked_def)
qed

lemma booked_recv_event:
  assumes "decide_books hk"
  shows "preserves (booked n e cid) (recv_event hk ev u)"
  unfolding recv_event_def relay_from_trunk_def relay_from_next_hop_def relay_to_trunk_def failover_record_def
    originate_outbound_leg_def reject_on_trunk_def apply_call_policy_def try_failover_def originate_towards_def
    originate_report_def record_event_def record_disposition_def cancel_no_answer_timer_def
  by (intro preserve_intro booked_decide [OF assms]; simp add: log_sip_def disarm_def)

lemma booked_fire: "preserves (booked n e cid) (call_do hk (Fire t))"
  unfolding fire_as_statement on_next_hop_no_answer_def
  by (intro preserve_intro) (simp_all add: log_sip_def disarm_def)

section \<open>The books\<close>

text \<open>What a run did so far: the requests admitted, in order, and the number refused.\<close>

definition admits :: "string list \<Rightarrow> sip_request \<Rightarrow> bool" where
  "admits allowed rq \<longleftrightarrow> source_address rq \<in> set allowed \<and> rq_to_tag rq = None \<and> rq_method rq = ''INVITE''"

fun trunk_requests :: "sys_input list \<Rightarrow> sip_request list" where
  "trunk_requests [] = []"
| "trunk_requests (Trunk rq # is) = rq # trunk_requests is"
| "trunk_requests (_ # is) = trunk_requests is"

lemma trunk_requests_append: "trunk_requests (xs @ ys) = trunk_requests xs @ trunk_requests ys"
proof (induction xs)
  case Nil
  then show ?case by simp
next
  case (Cons i xs)
  then show ?case by (cases i) simp_all
qed

fun sys_run :: "hooks \<Rightarrow> ((string \<times> int) option \<Rightarrow> pyexc + controller) \<Rightarrow> sys_input list \<Rightarrow> system \<Rightarrow> system" where
  "sys_run hk build [] s = s"
| "sys_run hk build (i # is) s = sys_run hk build is (snd (sys_do hk build i s))"

lemma sys_run_append: "sys_run hk build (xs @ ys) s = sys_run hk build ys (sys_run hk build xs s)"
  by (induction xs arbitrary: s) simp_all

lemma sys_inv_run:
  assumes "sys_inv conf s" "decide_ok hk" "\<And>rq. inbound_ok hk rq" "builds_fresh build"
  shows "sys_inv conf (sys_run hk build is s)"
  using assms(1)
proof (induction "is" arbitrary: s)
  case Nil
  then show ?case by simp
next
  case (Cons i "is")
  then show ?case using system_step [OF Cons.prems assms(2-4), of i] by (auto simp del: sys_do.simps)
qed

text \<open>Runs reach exactly the reachable states.\<close>

lemma sys_reach_iff_run: "sys_reach hk build s0 s \<longleftrightarrow> (\<exists>is. s = sys_run hk build is s0)"
proof
  show "sys_reach hk build s0 s \<Longrightarrow> \<exists>is. s = sys_run hk build is s0"
  proof (induction rule: sys_reach.induct)
    case sys_start
    show ?case by (intro exI [of _ "[]"]) simp
  next
    case (sys_step s i r s')
    then obtain "is" where "s = sys_run hk build is s0" by blast
    then show ?case using sys_step.hyps(2) by (intro exI [of _ "is @ [i]"]) (simp add: sys_run_append)
  qed
next
  have "sys_reach hk build s0 s' \<Longrightarrow> sys_reach hk build s0 (sys_run hk build is s')" for "is" s'
  proof (induction "is" arbitrary: s')
    case Nil
    then show ?case by simp
  next
    case (Cons i "is")
    then show ?case using Cons.IH [OF sys_step [OF Cons.prems surjective_pairing, of i]] by (simp del: sys_do.simps)
  qed
  then show "\<exists>is. s = sys_run hk build is s0 \<Longrightarrow> sys_reach hk build s0 s" using sys_start by blast
qed

definition books :: "string list \<Rightarrow> int \<Rightarrow> int \<Rightarrow> string list \<Rightarrow> system \<Rightarrow> bool" where
  "books allowed n e ids s \<longleftrightarrow> cm_allowed_peers (sy_map s) = allowed
     \<and> mr_calls_total (ob_metrics (w_obs (sy_world s))) = n \<and> peer_errors (ob_metrics (w_obs (sy_world s))) = e
     \<and> map bc_call_id (cm_controllers (sy_map s)) = ids"

lemma books_on_call:
  assumes "books allowed n e ids s" "\<And>n e cid. preserves (booked n e cid) p" "j < length (cm_controllers (sy_map s))"
  shows "books allowed n e ids (snd (on_call j p s))"
proof -
  let ?c = "cm_controllers (sy_map s) ! j"
  obtain r c' w' where r: "p (?c, sy_world s) = (r, (c', w'))" by (metis prod.collapse)
  have "booked n e (bc_call_id ?c) (?c, sy_world s)" using assms(1) by (simp add: books_def booked_def)
  then have "booked n e (bc_call_id ?c) (c', w')" using preservesD [OF assms(2)] r by fastforce
  then show ?thesis
    using assms(1,3) by (auto simp: on_call_def r books_def booked_def map_update list_update_same_conv)
qed

lemma books_trunk:
  assumes b: "books allowed n e ids s" and o: "obs_ok (w_obs (sy_world s))" and hk: "inbound_ok hk rq" "builds_fresh build"
  shows "books allowed (n + (if admits allowed rq then 1 else 0))
    (e + (if source_address rq \<in> set allowed then 0 else 1))
    (ids @ (if admits allowed rq then [rq_call_id rq] else [])) (snd (sys_do hk build (Trunk rq) s))"
proof -
  let ?m = "sy_map s" and ?w = "sy_world s"
  have al: "cm_allowed_peers ?m = allowed" using b by (simp add: books_def)
  consider "source_address rq \<notin> set allowed" | "source_address rq \<in> set allowed" "\<not> admits allowed rq" | "admits allowed rq"
    by blast
  then show ?thesis
  proof cases
    case 1
    then have "map_recv_request build hk rq (?m, ?w) = reject_peer rq (source_address rq) (source_peer rq) (?m, ?w)"
      by (simp add: map_recv_request_def is_allowed_peer_def al)
    then show ?thesis
      using 1 b run_reject_peer [OF o, of rq ?m]
      by (simp add: books_def admits_def peer_errors_def record_error_def)
  next
    case 2
    then have "\<exists>x. map_recv_request build hk rq (?m, ?w) = (Inr x, (?m, ?w))"
      using trunk_refusals [of rq ?m build hk ?w] by (cases "rq_to_tag rq = None") (auto simp: admits_def al)
    then show ?thesis using 2 b by (auto simp: books_def)
  next
    case 3
    obtain c where c: "build (gc_nh_addr (cm_conf ?m)) = Inr c" using hk(2) unfolding builds_fresh_def by blast
    obtain f where f: "hk_inbound_fields hk rq = Inr f" "fields_clean (relay_kwargs [] [] f)"
      using hk(1) by (auto simp: inbound_ok_def split: sum.splits)
    have "map_recv_request build hk rq (?m, ?w) = (Inr FromAgent,
        (?m\<lparr>cm_controllers := cm_controllers ?m @ [answered rq ?w (c\<lparr>bc_trunk_request := Some rq\<rparr>)]\<rparr>,
         answered_world rq (answered rq ?w (c\<lparr>bc_trunk_request := Some rq\<rparr>)) f ?w))"
      by (rule run_admission) (use 3 c f o in \<open>simp_all add: admits_def al\<close>)
    then show ?thesis
      using 3 b by (simp add: books_def admits_def answered_world_def inbound_obs_def set_peer_status_def
          record_call_started_def peer_errors_def) (simp add: answered_def)
  qed
qed

lemma books_other:
  assumes b: "books allowed n e ids s" and own: "owners_ok s" and hk: "decide_books hk"
    and i: "\<And>rq. i \<noteq> Trunk rq"
  shows "books allowed n e ids (snd (sys_do hk build i s))"
proof (cases i)
  case (UaEvent u ev)
  then show ?thesis
    using books_on_call [OF b booked_recv_event [OF hk]] owners_okD(1) [OF own, of u] b
    by (auto split: option.split)
next
  case (TimerDue t)
  then show ?thesis
    using books_on_call [OF b booked_fire] owners_okD(1) [OF own, of t] b by (auto split: option.split)
next
  case DisposeAll
  obtain cs w' where d: "dispose_all (cm_controllers (sy_map s)) (sy_world s) = (cs, w')"
    by (cases "dispose_all (cm_controllers (sy_map s)) (sy_world s)")
  show ?thesis
    using b dispose_all_frame [of "cm_controllers (sy_map s)" "sy_world s", unfolded d]
    by (simp add: DisposeAll map_dispose_def d books_def comp_def)
qed (use b i in \<open>simp_all add: books_def\<close>)

lemma books_run:
  assumes "books allowed n e ids s" "sys_inv conf s"
    and hk: "decide_ok hk" "\<And>rq. inbound_ok hk rq" "builds_fresh build" "decide_books hk"
  shows "books allowed (n + int (length (filter (admits allowed) (trunk_requests is))))
    (e + int (length (filter (\<lambda>rq. source_address rq \<notin> set allowed) (trunk_requests is))))
    (ids @ map rq_call_id (filter (admits allowed) (trunk_requests is))) (sys_run hk build is s)"
  using assms(1,2)
proof (induction "is" arbitrary: n e ids s)
  case Nil
  then show ?case by simp
next
  case (Cons i "is")
  let ?s = "snd (sys_do hk build i s)"
  have inv: "sys_inv conf ?s" using system_step [OF Cons.prems(2) hk(1-3), of i] by auto
  have own: "owners_ok s" "obs_ok (w_obs (sy_world s))" using Cons.prems(2) by (simp_all add: sys_inv_def world_ok_def)
  show ?case
  proof (cases "\<exists>rq. i = Trunk rq")
    case True
    then obtain rq where i: "i = Trunk rq" by blast
    show ?thesis
      using Cons.IH [OF books_trunk [OF Cons.prems(1) own(2) hk(2,3), of rq]] inv
      by (simp add: i ac_simps del: sys_do.simps split: if_splits)
  next
    case False
    then have "trunk_requests (i # is) = trunk_requests is" by (cases i) simp_all
    moreover have "books allowed n e ids ?s" by (rule books_other [OF Cons.prems(1) own(1) hk(4)]) (use False in blast)
    ultimately show ?thesis using Cons.IH [of n e ids ?s] inv by (simp del: sys_do.simps)
  qed
qed

text \<open>
  C6: The books of the trunk. After any run of the system from its start (requests, events of
  all legs, expiries, time, disposals, in any order), the counter of calls has grown by the
  number of INVITEs admitted, the counter of AS-PEER-001 by the number of requests from
  outside the allowlist, and the map knows one controller per admitted INVITE in the order
  of admission, under that INVITE's Call-ID: nothing a call does or undergoes later counts
  a call twice, takes one back, renames a controller or removes it.
\<close>
theorem trunk_books_balance:
  assumes "decide_ok hk" "\<forall>rq. inbound_ok hk rq" "builds_fresh build" "decide_books hk" "fresh_world w"
  shows "let s = sys_run hk build inputs (new_system g allowed w);
             admitted = filter (admits allowed) (trunk_requests inputs) in
     mr_calls_total (ob_metrics (w_obs (sy_world s))) =
       mr_calls_total (ob_metrics (w_obs w)) + int (length admitted)
   \<and> counter_get (mr_errors_by_code (ob_metrics (w_obs (sy_world s)))) ''AS-PEER-001'' =
       counter_get (mr_errors_by_code (ob_metrics (w_obs w))) ''AS-PEER-001''
         + int (length (filter (\<lambda>rq. source_address rq \<notin> set allowed) (trunk_requests inputs)))
   \<and> map bc_call_id (cm_controllers (sy_map s)) = map rq_call_id admitted"
proof -
  let ?s0 = "new_system g allowed w"
  have "sys_inv (w_conf w) ?s0" using system_inv [OF sys_start] assms by blast
  moreover have "books allowed (mr_calls_total (ob_metrics (w_obs w))) (peer_errors (ob_metrics (w_obs w))) [] ?s0"
    by (simp add: books_def new_system_def mk_call_map_def)
  ultimately show ?thesis
    using books_run [of allowed _ _ "[]" ?s0 "w_conf w" hk build inputs] assms
    by (simp add: books_def peer_errors_def Let_def)
qed

theorem trunk_books_balance_witness:
  "let s = sys_run (sample_hooks sample_relay) sample_build
         [Trunk sample_request, UaEvent 2 (CCEventTry sample_try), Trunk (sample_request\<lparr>rq_source := None\<rparr>), DisposeAll]
         (new_system sample_conf [''10.0.0.2''] sample_world) in
     mr_calls_total (ob_metrics (w_obs (sy_world s))) = 1
   \<and> counter_get (mr_errors_by_code (ob_metrics (w_obs (sy_world s)))) ''AS-PEER-001'' = 1
   \<and> map bc_call_id (cm_controllers (sy_map s)) = [''c1'']"
proof -
  have d: "decide_books (sample_hooks sample_relay)" by (simp add: decide_books_def sample_hooks_def)
  have w: "ob_metrics (w_obs sample_world) = empty_registry" by (simp add: sample_world_def sample_obs_def)
  have a: "admits [''10.0.0.2''] sample_request" "\<not> admits [''10.0.0.2''] (sample_request\<lparr>rq_source := None\<rparr>)"
    "source_address sample_request = ''10.0.0.2''" "source_address (sample_request\<lparr>rq_source := None\<rparr>) = ''-''"
    "rq_call_id sample_request = ''c1''"
    by (simp_all add: admits_def source_address_def sample_request_def)
  show ?thesis
    using trunk_books_balance [OF sample_decide_ok(1) _ sample_builds d sample_fresh, of
        "[Trunk sample_request, UaEvent 2 (CCEventTry sample_try), Trunk (sample_request\<lparr>rq_source := None\<rparr>), DisposeAll]"
        sample_conf "[''10.0.0.2'']"] sample_inbound
    by (simp add: Let_def a w empty_registry_def counter_get_def)
qed

end
