(* ===== verification/CallImplements.thy ===== *)
theory CallImplements
  imports CallSpec CallAccounting
begin

text \<open>
  A call map with all its calls, in one world, is so many machines of the specification side by
  side: each call is fed the inputs that are for it.
\<close>

section \<open>The inputs of one call\<close>

fun input_for :: "hooks \<Rightarrow> nat \<Rightarrow> system \<Rightarrow> sys_input \<Rightarrow> (answers \<times> call_input) list" where
  "input_for hk j s (UaEvent u ev) =
     (if sy_own s u = Some j then [(answers_at hk (Event ev u) (view s j), Event ev u)] else [])"
| "input_for hk j s (TimerDue t) =
     (if sy_own s t = Some j then [(answers_at hk (Fire t) (view s j), Fire t)] else [])"
| "input_for hk j s _ = []"

fun inputs_for ::
    "hooks \<Rightarrow> ((string \<times> int) option \<Rightarrow> pyexc + controller) \<Rightarrow> nat \<Rightarrow> sys_input list \<Rightarrow> system \<Rightarrow> (answers \<times> call_input) list" where
  "inputs_for hk build j [] s = []"
| "inputs_for hk build j (i # is) s = input_for hk j s i @ inputs_for hk build j is (snd (sys_do hk build i s))"

lemma inputs_for_append:
  "inputs_for hk build j (xs @ ys) s = inputs_for hk build j xs s @ inputs_for hk build j ys (sys_run hk build xs s)"
  by (induction xs arbitrary: s) simp_all

lemma spec_run_append:
  "spec_run si (xs @ ys) ph = (case spec_run si xs ph of (ph', out) \<Rightarrow>
     (case spec_run si ys ph' of (ph'', out') \<Rightarrow> (ph'', out @ out')))"
  by (induction xs arbitrary: ph) (auto split: prod.split)

section \<open>The calls of the map\<close>

text \<open>The calls that terminate the trunk INVITE on the caller's leg.\<close>

definition answering_calls :: "call_site \<Rightarrow> sip_request \<Rightarrow> sip_call list" where
  "answering_calls si rq =
     [UaCreated (si_caller si) None (opt_get (gc_sip_uaname (si_conf si)) []) (local_contact (si_conf si) (si_identity si)),
      UaRecvRequest (si_caller si) rq (pinned_identity (si_conf si) (si_identity si))]"

definition implements :: "sip_conf \<Rightarrow> system \<Rightarrow> nat \<Rightarrow> sip_request \<Rightarrow> (answers \<times> call_input) list \<Rightarrow> bool" where
  "implements conf s j rq xs \<longleftrightarrow> (case cm_controllers (sy_map s) ! j of c \<Rightarrow>
     (\<exists>a. bc_uaA c = Some a \<and>
       (case spec_run \<lparr>si_conf = bc_conf c, si_identity = conf, si_caller = a\<rparr> xs Unrouted of (ph, out) \<Rightarrow>
          phase_of c = ph \<and> calls_of s j = answering_calls \<lparr>si_conf = bc_conf c, si_identity = conf, si_caller = a\<rparr> rq @ out)))"

text \<open>A step that leaves a call alone, up to its timer.\<close>

lemma implements_same:
  assumes "implements conf s j rq xs" "calls_of s' j = calls_of s j"
    and "cm_controllers (sy_map s') ! j \<in> {cm_controllers (sy_map s) ! j,
       (cm_controllers (sy_map s) ! j)\<lparr>bc_no_answer_timer := None\<rparr>}"
  shows "implements conf s' j rq xs"
  using assms by (auto simp: implements_def)

lemma implements_step:
  assumes inv: "sys_inv conf s" and j: "j < length (cm_controllers (sy_map s))" and hk: "decide_ok hk"
    and p: "well_behaved (call_do hk i)" and impl: "implements conf s j rq xs"
  shows "implements conf (snd (on_call j (call_do hk i) s)) j rq (xs @ [(answers_at hk i (view s j), i)])"
proof -
  let ?c = "cm_controllers (sy_map s) ! j" and ?s = "snd (on_call j (call_do hk i) s)"
  obtain g a cid where v: "call_inv g conf a cid (view s j)"
    using inv j by (auto simp: sys_inv_def call_ok_def)
  obtain d c' w' where r: "call_do hk i (view s j) = (Inr (), (c', w'))"
    "cm_controllers (sy_map ?s) ! j = c'" "w_sip w' = calls_of s j @ d" "calls_of ?s j = calls_of s j @ d"
    by (rule on_call_view [OF inv j p])
  have c: "bc_uaA ?c = Some a" "bc_conf ?c = g" using v by (simp_all add: view_def call_inv_def)
  let ?si = "\<lparr>si_conf = g, si_identity = conf, si_caller = a\<rparr>"
  have "phase_of c' = fst (spec_step ?si (answers_at hk i (view s j)) i (phase_of ?c))"
    "d = snd (spec_step ?si (answers_at hk i (view s j)) i (phase_of ?c))"
    using refined_input [OF hk v, of i] r(1,3) by (simp_all add: refined_def view_def del: call_do.simps spec_step.simps)
  then show ?thesis
    using impl r(2,4) c on_call_site [OF inv j p]
    by (auto simp: implements_def spec_run_append simp del: call_do.simps spec_step.simps split: prod.splits)
qed

lemma implements_on_call:
  assumes inv: "sys_inv conf s" and hk: "decide_ok hk" and j: "j < length (cm_controllers (sy_map s))"
    and impl: "implements conf s j rq xs" and k: "k < length (cm_controllers (sy_map s))" and p: "well_behaved (call_do hk i)"
  shows "implements conf (snd (on_call k (call_do hk i) s)) j rq
    (xs @ (if k = j then [(answers_at hk i (view s j), i)] else []))"
proof (cases "k = j")
  case True
  then show ?thesis using implements_step [OF inv j hk _ impl] p by simp
next
  case False
  have own: "owners_ok s" using inv by (simp add: sys_inv_def)
  obtain d where g: "grown k s d (snd (on_call k (call_do hk i) s))" using on_call_step [OF inv k p] by auto
  have "cm_controllers (sy_map (snd (on_call k (call_do hk i) s))) ! j = cm_controllers (sy_map s) ! j"
    using grownD(7) [OF g grownD(6) [OF g j]] False by simp
  then show ?thesis
    using implements_same [OF impl, of "snd (on_call k (call_do hk i) s)"] grown_calls [OF own g, of j] False by simp
qed

lemma implements_event:
  assumes inv: "sys_inv conf s" and hk: "decide_ok hk" and i: "\<And>rq. i \<noteq> Trunk rq"
    and j: "j < length (cm_controllers (sy_map s))" and impl: "implements conf s j rq xs"
  shows "implements conf (snd (sys_do hk build i s)) j rq (xs @ input_for hk j s i)"
proof -
  have own: "owners_ok s" using inv by (simp add: sys_inv_def)
  note one = implements_on_call [OF inv hk j impl]
  show ?thesis
  proof (cases i)
    case (UaEvent u ev)
    have "call_do hk (Event ev u) = recv_event hk ev u" by (rule ext) simp
    then show ?thesis
      using UaEvent one [of _ "Event ev u"] well_behaved_event [OF hk, of ev u] owners_okD(1) [OF own, of u] impl
      by (cases "sy_own s u") auto
  next
    case (TimerDue t)
    then show ?thesis
      using one [of _ "Fire t"] well_behaved_fire [OF hk, of t] owners_okD(1) [OF own, of t] impl
      by (cases "sy_own s t") (auto simp del: call_do.simps)
  next
    case DisposeAll
    obtain cs w' where d: "dispose_all (cm_controllers (sy_map s)) (sy_world s) = (cs, w')"
      by (cases "dispose_all (cm_controllers (sy_map s)) (sy_world s)")
    note f = dispose_all_frame [of "cm_controllers (sy_map s)" "sy_world s", unfolded d]
      and t = dispose_all_spec [of "cm_controllers (sy_map s)" "sy_world s", unfolded d]
    have "implements conf (snd (sys_do hk build DisposeAll s)) j rq xs"
      by (rule implements_same [OF impl]) (use f t j in \<open>auto simp: map_dispose_def d calls_of_def\<close>)
    then show ?thesis using DisposeAll by (simp del: sys_do.simps)
  next
    case (Passes d)
    have "implements conf (snd (sys_do hk build (Passes d) s)) j rq xs"
      by (rule implements_same [OF impl]) (simp_all add: calls_of_def)
    then show ?thesis using Passes by (simp del: sys_do.simps)
  next
    case (ConnectedAre us)
    have "implements conf (snd (sys_do hk build (ConnectedAre us) s)) j rq xs"
      by (rule implements_same [OF impl]) (simp_all add: calls_of_def)
    then show ?thesis using ConnectedAre by (simp del: sys_do.simps)
  qed (use i in blast)
qed

text \<open>An admitted INVITE starts a machine.\<close>

lemma implements_admitted:
  assumes inv: "sys_inv conf s" and hk: "inbound_ok hk rq" "builds_fresh build"
    and al: "admits (cm_allowed_peers (sy_map s)) rq"
  shows "implements conf (snd (sys_do hk build (Trunk rq) s)) (length (cm_controllers (sy_map s))) rq []"
proof -
  let ?m = "sy_map s" and ?w = "sy_world s" and ?do = "sys_do hk build (Trunk rq) s"
  let ?j = "length (cm_controllers (sy_map s))"
  have o: "obs_ok (w_obs ?w)" "w_conf ?w = conf" and own: "owners_ok s"
    using inv by (simp_all add: sys_inv_def world_ok_def)
  obtain c where c: "build (gc_nh_addr (cm_conf ?m)) = Inr c" "bc_uaO c = None" "bc_no_answer_timer c = None"
    using hk(2) unfolding builds_fresh_def by blast
  obtain f where f: "hk_inbound_fields hk rq = Inr f" "fields_clean (relay_kwargs [] [] f)"
    using hk(1) by (auto simp: inbound_ok_def split: sum.splits)
  let ?c = "answered rq ?w (c\<lparr>bc_trunk_request := Some rq\<rparr>)"
  have run: "map_recv_request build hk rq (?m, ?w) = (Inr FromAgent,
      (?m\<lparr>cm_controllers := cm_controllers ?m @ [?c]\<rparr>, answered_world rq ?c f ?w))"
    by (rule run_admission) (use al c f o in \<open>simp_all add: admits_def\<close>)
  have "\<exists>d. grown ?j s d (snd ?do)"
    by (rule admitted_step(2) [OF inv, where c = "c\<lparr>bc_trunk_request := Some rq\<rparr>" and rq = rq and f = f])
       (use c in \<open>simp_all add: run\<close>)
  then obtain d where g: "grown ?j s d (snd ?do)" by blast
  have "calls_of s ?j = []"
    using owners_okD(1) [OF own] by (fastforce simp: calls_of_def filter_empty_conv)
  moreover have "d = answering_calls \<lparr>si_conf = bc_conf c, si_identity = conf, si_caller = w_next_id ?w\<rparr> rq"
    using grownD(3) [OF g] o(2) by (auto simp: run answered_world_def answering_calls_def answered_def)
  ultimately have "calls_of (snd ?do) ?j =
      answering_calls \<lparr>si_conf = bc_conf c, si_identity = conf, si_caller = w_next_id ?w\<rparr> rq"
    using grown_calls [OF own g, of ?j] by simp
  then show ?thesis
    using c(2) by (simp add: implements_def run del: sys_do.simps) (simp add: run answered_def phase_of_def)
qed

text \<open>A trunk request leaves the calls there are alone and starts a machine when it is admitted.\<close>

lemma implements_trunk:
  assumes inv: "sys_inv conf s" and hk: "inbound_ok hk rq" "builds_fresh build"
    and n: "length (cm_controllers (sy_map s)) = length old"
    and impl: "\<And>j. j < length old \<Longrightarrow> implements conf s j (old ! j) (xs j)" and new: "xs (length old) = []"
    and j: "j < length (old @ (if admits (cm_allowed_peers (sy_map s)) rq then [rq] else []))"
  shows "implements conf (snd (sys_do hk build (Trunk rq) s)) j
    ((old @ (if admits (cm_allowed_peers (sy_map s)) rq then [rq] else [])) ! j) (xs j)"
proof (cases "j < length old")
  case True
  have "cm_controllers (sy_map (snd (sys_do hk build (Trunk rq) s))) ! j = cm_controllers (sy_map s) ! j
      \<and> calls_of (snd (sys_do hk build (Trunk rq) s)) j = calls_of s j"
    using trunk_step [OF inv hk(2,1)] True n by (auto simp del: sys_do.simps)
  then show ?thesis using implements_same [OF impl] True by (simp add: nth_append del: sys_do.simps)
next
  case False
  then have "admits (cm_allowed_peers (sy_map s)) rq" "j = length old" using j by (auto split: if_splits)
  then show ?thesis using implements_admitted [OF inv hk] n new by (simp add: nth_append del: sys_do.simps)
qed

lemma implements_run:
  assumes hk: "decide_ok hk" "\<And>rq. inbound_ok hk rq" "builds_fresh build" "decide_books hk" and w: "fresh_world w"
    and s: "s = sys_run hk build is (new_system g allowed w)"
    and ad: "admitted = filter (admits allowed) (trunk_requests is)"
  shows "length (cm_controllers (sy_map s)) = length admitted
    \<and> (\<forall>j<length admitted. implements (w_conf w) s j (admitted ! j) (inputs_for hk build j is (new_system g allowed w)))
    \<and> (\<forall>j\<ge>length admitted. inputs_for hk build j is (new_system g allowed w) = [])"
  using s ad
proof (induction "is" arbitrary: s admitted rule: rev_induct)
  case Nil
  then show ?case by (simp add: new_system_def mk_call_map_def)
next
  case (snoc i "is")
  let ?s0 = "new_system g allowed w"
  define t where "t = sys_run hk build is ?s0"
  define old where "old = filter (admits allowed) (trunk_requests is)"
  note IH = snoc.IH [OF t_def old_def]
  have inv0: "sys_inv (w_conf w) ?s0" using system_inv [OF sys_start] hk(1-3) w by blast
  have inv: "sys_inv (w_conf w) t" unfolding t_def by (rule sys_inv_run [OF inv0 hk(1-3)])
  have b0: "books allowed (mr_calls_total (ob_metrics (w_obs w))) (peer_errors (ob_metrics (w_obs w))) [] ?s0"
    by (simp add: books_def new_system_def mk_call_map_def)
  have books: "cm_allowed_peers (sy_map t) = allowed" "length (cm_controllers (sy_map s)) = length admitted"
    using books_run [OF b0 inv0 hk, of "is"] books_run [OF b0 inv0 hk, of "is @ [i]"] snoc.prems
    by (auto simp: books_def t_def dest: arg_cong [of _ _ length])
  have s: "s = snd (sys_do hk build i t)" using snoc.prems(1) by (simp add: sys_run_append t_def del: sys_do.simps)
  have feed: "inputs_for hk build j (is @ [i]) ?s0 = inputs_for hk build j is ?s0 @ input_for hk j t i" for j
    by (simp add: inputs_for_append t_def)
  have none: "input_for hk j t i = []" if "length old \<le> j" for j
    using owners_okD(1) [of t] inv IH that by (cases i) (fastforce simp: sys_inv_def)+
  show ?case
  proof (cases "\<exists>rq. i = Trunk rq")
    case True
    then obtain rq where i: "i = Trunk rq" by blast
    have ad: "admitted = old @ (if admits allowed rq then [rq] else [])"
      using snoc.prems(2) by (simp add: i old_def trunk_requests_append)
    then show ?thesis
      using implements_trunk [OF inv hk(2,3), where old = old and rq = rq and xs = "\<lambda>j. inputs_for hk build j is ?s0", unfolded books(1)]
        IH books(2) none [unfolded i]
      by (auto simp: feed [unfolded i] i s simp del: sys_do.simps)
  next
    case False
    then have i: "i \<noteq> Trunk rq" for rq by blast
    have ad: "admitted = old" using snoc.prems(2) i by (cases i) (auto simp: old_def trunk_requests_append)
    then show ?thesis
      using implements_event [OF inv hk(1) i] none IH books(2) by (auto simp: feed s simp del: sys_do.simps input_for.simps)
  qed
qed

text \<open>
  C4: The call map implements so many B2BUAs. A machine that only knows the serving leg, the
  hops left and the event to originate says what a call does with an event of the caller's leg,
  of the serving leg or of any other leg and with an expired timer, given what the
  environment answers (is the caller connected, what is decided, which number is fresh). Let
  the trunk's requests, the events of all legs, the expiries, the passing of time and a
  shutdown come in any order. The controllers of the map are the admitted INVITEs, in order;
  and each of them has made, in order, the calls into sippy that answer its INVITE followed
  by those its machine makes on the inputs for its own legs, and is in its machine's phase.
  Counters, traces, logs, timers, disposal and the other calls have no influence on them.
\<close>
theorem system_implements_spec:
  assumes "decide_ok hk" "\<forall>rq. inbound_ok hk rq" "builds_fresh build" "decide_books hk" "fresh_world w"
  shows "let s0 = new_system g allowed w; s = sys_run hk build inputs s0;
             admitted = filter (admits allowed) (trunk_requests inputs) in
     length (cm_controllers (sy_map s)) = length admitted
   \<and> (\<forall>j<length admitted. \<exists>a. let c = cm_controllers (sy_map s) ! j;
        si = \<lparr>si_conf = bc_conf c, si_identity = w_conf w, si_caller = a\<rparr>;
        spec = spec_run si (inputs_for hk build j inputs s0) Unrouted in
          bc_uaA c = Some a \<and> phase_of c = fst spec
        \<and> calls_of s j = answering_calls si (admitted ! j) @ snd spec)"
  using implements_run [OF assms(1) assms(2) [rule_format] assms(3-5) refl refl, of inputs g allowed]
  by (auto simp: implements_def Let_def case_prod_beta)

text \<open>The sample call: relayed on leg 3, then given up by the caller.\<close>

definition sample_given_up :: "sys_input list" where
  "sample_given_up = [Trunk sample_request, UaEvent 2 (CCEventTry sample_try), UaEvent 2 CCEventDisconnect]"

lemma sample_admitted:
  fixes t :: system
  defines "t \<equiv> snd (sys_do (sample_hooks sample_relay) sample_build (Trunk sample_request)
    (new_system sample_conf [''10.0.0.2''] sample_world))"
  shows "sys_inv (w_conf sample_world) t" "length (cm_controllers (sy_map t)) = 1" "sy_own t 2 = Some 0"
    "w_next_id (sy_world t) = 3" "bc_uaA (cm_controllers (sy_map t) ! 0) = Some 2"
proof -
  let ?hk = "sample_hooks sample_relay" and ?m = "mk_call_map sample_conf [''10.0.0.2'']"
  let ?s0 = "new_system sample_conf [''10.0.0.2''] sample_world"
  define c where "c = answered sample_request sample_world ((mk_controller sample_conf None)\<lparr>bc_trunk_request := Some sample_request\<rparr>)"
  obtain f where f: "hk_inbound_fields ?hk sample_request = Inr f" "fields_clean (relay_kwargs [] [] f)"
    using sample_inbound [of sample_relay sample_request] by (auto simp: inbound_ok_def split: sum.splits)
  define w where "w = answered_world sample_request c f sample_world"
  have n: "w_next_id sample_world = 2" "w_next_id w = 3" by (simp_all add: w_def answered_world_def sample_world_def)
  have "map_recv_request sample_build ?hk sample_request (?m, sample_world) =
      (Inr FromAgent, (?m\<lparr>cm_controllers := cm_controllers ?m @ [c]\<rparr>, w))"
    unfolding c_def w_def
    by (rule run_admission [OF _ _ _ _ _ f])
       (simp_all add: source_address_def sample_request_def mk_call_map_def sample_build_def sample_conf_def)
  then have t: "t = \<lparr>sy_map = ?m\<lparr>cm_controllers := [c]\<rparr>, sy_world = w, sy_own = claim_ids 0 sample_world w (\<lambda>_. None)\<rparr>"
    by (simp add: t_def new_system_def) (simp add: mk_call_map_def)
  show "length (cm_controllers (sy_map t)) = 1" "sy_own t 2 = Some 0" "w_next_id (sy_world t) = 3"
    "bc_uaA (cm_controllers (sy_map t) ! 0) = Some 2"
    by (simp_all add: t claim_ids_def n c_def answered_def)
  have ok: "decide_ok ?hk" "\<And>rq. inbound_ok ?hk rq" "builds_fresh sample_build"
    using sample_decide_ok(1) sample_inbound sample_builds by auto
  have "sys_inv (w_conf sample_world) ?s0" using system_inv [OF sys_start ok sample_fresh] by blast
  from system_step [OF this ok, of "Trunk sample_request"] show "sys_inv (w_conf sample_world) t"
    unfolding t_def by auto
qed

lemma sample_given_up_inputs:
  obtains an an' where
    "inputs_for (sample_hooks sample_relay) sample_build 0 sample_given_up (new_system sample_conf [''10.0.0.2''] sample_world) =
       [(an, Event (CCEventTry sample_try) 2), (an', Event CCEventDisconnect 2)]"
    "an_fresh an = 3" "an_decision an = Some sample_relay"
    "bc_uaA (cm_controllers (sy_map (sys_run (sample_hooks sample_relay) sample_build sample_given_up
       (new_system sample_conf [''10.0.0.2''] sample_world))) ! 0) = Some 2"
proof -
  let ?hk = "sample_hooks sample_relay"
  define t where "t = snd (sys_do ?hk sample_build (Trunk sample_request) (new_system sample_conf [''10.0.0.2''] sample_world))"
  note t = sample_admitted [folded t_def]
  have ev: "call_do ?hk (Event e 2) = recv_event ?hk e 2" for e by (rule ext) simp
  have wb: "well_behaved (call_do ?hk (Event e 2))" for e
    unfolding ev by (rule well_behaved_event [OF sample_decide_ok(1)])
  define u where "u = snd (on_call 0 (call_do ?hk (Event (CCEventTry sample_try) 2)) t)"
  have "0 < length (cm_controllers (sy_map t))" using t(2) by simp
  note one = on_call_step [OF t(1) this wb, of "CCEventTry sample_try"]
    and site = on_call_site(1) [OF t(1) this wb, of "CCEventTry sample_try", folded u_def]
  have own: "owners_ok t" using t(1) by (simp add: sys_inv_def)
  have u: "sys_inv (w_conf sample_world) u" "sy_own u 2 = Some 0" "0 < length (cm_controllers (sy_map u))"
    using one grown_own_old [OF own _ t(3)] grownD(5) unfolding u_def by fastforce+
  note site' = on_call_site(1) [OF u(1,3) wb, of CCEventDisconnect]
  have run: "sys_do ?hk sample_build (UaEvent 2 e) s = on_call 0 (call_do ?hk (Event e 2)) s" if "sy_own s 2 = Some 0" for e s
    using that by (simp add: ev)
  show ?thesis
    by (rule that [of "answers_at ?hk (Event (CCEventTry sample_try) 2) (view t 0)" "answers_at ?hk (Event CCEventDisconnect 2) (view u 0)"])
       (use t u site site' in \<open>simp_all add: sample_given_up_def t_def [symmetric] run u_def [symmetric]
          answers_at_def view_def sample_decides del: sys_do.simps\<close>)
qed

theorem system_implements_spec_witness:
  "let s = sys_run (sample_hooks sample_relay) sample_build sample_given_up (new_system sample_conf [''10.0.0.2''] sample_world) in
   length (cm_controllers (sy_map s)) = 1
   \<and> phase_of (cm_controllers (sy_map s) ! 0) = Serving 3 [sample_hop ''b''] (CCEventTry sample_try)
   \<and> last (calls_of s 0) = UaRecvEvent 3 CCEventDisconnect (w_conf sample_world)"
proof -
  obtain an an' where i: "inputs_for (sample_hooks sample_relay) sample_build 0 sample_given_up
        (new_system sample_conf [''10.0.0.2''] sample_world) =
       [(an, Event (CCEventTry sample_try) 2), (an', Event CCEventDisconnect 2)]"
    "an_fresh an = 3" "an_decision an = Some sample_relay"
    "bc_uaA (cm_controllers (sy_map (sys_run (sample_hooks sample_relay) sample_build sample_given_up
       (new_system sample_conf [''10.0.0.2''] sample_world))) ! 0) = Some 2"
    by (rule sample_given_up_inputs)
  have d: "decide_books (sample_hooks sample_relay)" by (simp add: decide_books_def sample_hooks_def)
  have r: "pd_action sample_relay = RELAY" "pd_next_hops sample_relay = [sample_hop ''a'', sample_hop ''b'']"
    "pd_outbound_event sample_relay = Some (CCEventTry sample_try)"
    by (simp_all add: sample_relay_def mk_policy_decision_def)
  have ad: "filter (admits [''10.0.0.2'']) (trunk_requests sample_given_up) = [sample_request]"
    by (simp add: sample_given_up_def admits_def source_address_def sample_request_def)
  show ?thesis
    using system_implements_spec [OF sample_decide_ok(1) _ sample_builds d sample_fresh,
        of sample_conf "[''10.0.0.2'']" sample_given_up] sample_inbound
    unfolding Let_def ad by (auto simp: i r pass_on_def serving_leg_def)
qed

end
