(* ===== verification/CallOutcomes.thy ===== *)
theory CallOutcomes
  imports CallAccounting
begin

text \<open>
  What became of the calls: the outcome counters against the final events the callers got.
\<close>

section \<open>Outcomes and final events\<close>

definition outcomes :: "metrics_registry \<Rightarrow> int" where
  "outcomes m = sum_list (map snd (mr_calls_by_disposition m))"

lemma sum_counter_add: "sum_list (map snd (counter_add k n c)) = sum_list (map snd c) + n"
proof (induction c)
  case Nil
  then show ?case by (simp add: counter_add_def counter_get_def)
next
  case (Cons x c)
  then show ?case by (cases x) (auto simp: counter_add_def counter_get_def)
qed

fun ends_leg :: "nat \<Rightarrow> sip_call \<Rightarrow> bool" where
  "ends_leg a (UaRecvEvent n ev _) = (n = a \<and> is_fail_or_disconnect ev)"
| "ends_leg a _ = False"

definition ends_at :: "nat \<Rightarrow> sip_call list \<Rightarrow> int" where
  "ends_at a xs = int (length (filter (ends_leg a) xs))"

lemma ends_at_simps [simp]:
  "ends_at a [] = 0" "ends_at a (xs @ ys) = ends_at a xs + ends_at a ys"
  "ends_at a (x # xs) = (if ends_leg a x then 1 else 0) + ends_at a xs"
  by (simp_all add: ends_at_def)

lemma outcomes_simps [simp]:
  "outcomes (record_call_disposition d m) = outcomes m + 1"
  "outcomes (set_peer_status p st m) = outcomes m"
  "outcomes (record_error code m) = outcomes m"
  "outcomes (record_call_started m) = outcomes m"
  by (simp_all add: outcomes_def record_call_disposition_def sum_counter_add set_peer_status_def record_error_def
      record_call_started_def)

text \<open>A caller's event that meets no next-hop leg and is no call attempt: it is answered by a release.\<close>

definition unrouted :: "controller \<Rightarrow> nat \<Rightarrow> ccevent \<Rightarrow> bool" where
  "unrouted c u ev \<longleftrightarrow> bc_uaA c = Some u \<and> bc_uaO c = None \<and> \<not> is_try ev"

text \<open>The application's part: deciding a call does not count an outcome.\<close>

definition decide_outcomes :: "hooks \<Rightarrow> bool" where
  "decide_outcomes hk \<longleftrightarrow>
     (\<forall>c ev b. outcomes (ob_metrics (snd (hk_decide hk c ev b))) = outcomes (ob_metrics b))"

section \<open>One event\<close>

text \<open>\<open>balanced\<close>: between the two states the outcomes grew with the final events to leg \<open>a\<close>, \<open>k\<close> apart.\<close>

definition balanced :: "nat \<Rightarrow> int \<Rightarrow> world \<Rightarrow> world \<Rightarrow> bool" where
  "balanced a k w w' \<longleftrightarrow> outcomes (ob_metrics (w_obs w')) + ends_at a (w_sip w) + k =
     outcomes (ob_metrics (w_obs w)) + ends_at a (w_sip w')"

lemma balanced_try:
  assumes hk: "decide_ok hk" "decide_outcomes hk" and inv: "call_inv g conf a cid (c, w)"
    and n: "bc_uaO c = None" "is_try ev"
  shows "balanced a 0 w (snd (snd (recv_event hk ev a (c, w))))"
proof -
  have i: "obs_ok (w_obs w)" "bc_uaA c = Some a" "a < w_next_id w" using inv by (simp_all add: call_inv_def)
  obtain d b where d: "hk_decide hk c ev (w_obs w) = (Inr d, b)" "obs_ok b" "relay_ok d \<or> reject_ok d"
    using decide_okE [OF hk(1) i(1)] by metis
  have o: "outcomes (ob_metrics b) = outcomes (ob_metrics (w_obs w))"
    using hk(2) d(1) unfolding decide_outcomes_def by (metis snd_conv)
  show ?thesis
  proof (cases "relay_ok d")
    case True
    then obtain hop rest td where r: "pd_action d = RELAY" "pd_next_hops d = hop # rest"
      "pd_outbound_event d = Some (CCEventTry td)" "fields_clean (relay_kwargs [] [] (pd_relay_log_fields d))"
      by (rule relay_okE)
    show ?thesis
      using o i(3) by (simp add: event_try [OF i(2) n] run_outbound_relay [OF d(1,2) r] balanced_def attempt_world_def)
  next
    case False
    with d(3) have "reject_ok d" by blast
    then obtain err where r: "pd_action d = REJECT" "pd_error d = Some err"
      "fields_clean (reject_kwargs [] [] err (pd_reject_log_fields d))" by (rule reject_okE)
    show ?thesis
      using o by (simp add: event_try [OF i(2) n] run_outbound_reject [OF d(1,2) r i(2)] balanced_def reject_event_def)
  qed
qed

lemma balanced_to_trunk:
  assumes "obs_ok (w_obs w)" "bc_uaA c = Some a"
  shows "balanced a 0 w (snd (snd (relay_to_trunk ev (c, w))))"
proof -
  consider "is_fail_or_disconnect ev" | "is_ring_or_connect ev" "\<not> is_fail_or_disconnect ev"
    | "\<not> is_ring_or_connect ev" "\<not> is_fail_or_disconnect ev" by blast
  then show ?thesis
  proof cases
    case 1
    then show ?thesis using run_relay_final [OF assms(1) 1 assms(2)] by (simp add: balanced_def)
  next
    case 2
    then show ?thesis using run_relay_progress [OF assms(1) 2(1) assms(2)] by (simp add: balanced_def)
  next
    case 3
    then show ?thesis using run_relay_other [OF assms(1) 3 assms(2)] by (simp add: balanced_def)
  qed
qed

lemma balanced_next_hop:
  assumes inv: "call_inv g conf a cid (c, w)" and u: "bc_uaO c = Some u"
  shows "balanced a 0 w (snd (snd (recv_event hk ev u (c, w))))"
proof -
  obtain p td where p: "bc_policy c = Some p" "bc_pending_event c = Some (CCEventTry td)"
    "fields_clean (relay_kwargs [] [] (pd_relay_log_fields p))" "bc_uaA c \<noteq> Some u"
    by (rule inv_legE [OF inv u])
  have i: "obs_ok (w_obs w)" "bc_uaA c = Some a" "a < w_next_id w" using inv by (simp_all add: call_inv_def)
  consider hop rest where "is_fail_or_disconnect ev" "\<not> is_connected w (bc_uaA c)" "bc_failover_hops c = hop # rest"
    | "is_fail_or_disconnect ev" "is_connected w (bc_uaA c) \<or> bc_failover_hops c = []"
    | "is_ring_or_connect ev" | "\<not> is_ring_or_connect ev" "\<not> is_fail_or_disconnect ev"
    by (cases "bc_failover_hops c") auto
  then show ?thesis
  proof cases
    case 1
    then show ?thesis
      using i(3) by (simp add: event_next_hop [OF p(4) u] next_hop_failover [OF i(1) 1 p(1-3)] balanced_def attempt_world_def)
  next
    case 2
    then show ?thesis
      using balanced_to_trunk [OF i(1,2)] by (simp add: event_next_hop [OF p(4) u] next_hop_no_failover [OF i(1) 2])
  next
    case 3
    have "balanced a 0 (timer_dropped c w)
        (snd (snd (relay_to_trunk ev (c\<lparr>bc_no_answer_timer := None\<rparr>, timer_dropped c w))))"
      by (rule balanced_to_trunk) (use i in simp_all)
    then show ?thesis by (simp add: event_next_hop [OF p(4) u] next_hop_progress [OF 3] balanced_def)
  next
    case 4
    then show ?thesis
      using balanced_to_trunk [OF i(1,2)] by (simp add: event_next_hop [OF p(4) u] next_hop_other [OF 4])
  qed
qed

lemma balanced_event:
  assumes hk: "decide_ok hk" "decide_outcomes hk" and inv: "call_inv g conf a cid (c, w)"
  shows "balanced a (if unrouted c u ev then 1 else 0) w (snd (snd (recv_event hk ev u (c, w))))"
proof -
  have i: "obs_ok (w_obs w)" "bc_uaA c = Some a" using inv by (simp_all add: call_inv_def)
  consider "u = a" "bc_uaO c = None" "is_try ev" | "u = a" "bc_uaO c = None" "\<not> is_try ev"
    | v where "u = a" "bc_uaO c = Some v" | "bc_uaO c = Some u" "u \<noteq> a"
    | "u \<noteq> a" "bc_uaO c \<noteq> Some u"
    by (cases "bc_uaO c") blast+
  then show ?thesis
  proof cases
    case 1
    then show ?thesis using balanced_try [OF hk inv] by (simp add: unrouted_def)
  next
    case 2
    then show ?thesis using i(2) by (simp add: event_trunk_early [OF i(2) 2(2,3)] unrouted_def balanced_def)
  next
    case 3
    have "v \<noteq> a" using inv_legE [OF inv 3(2)] i(2) by metis
    then show ?thesis using 3 by (simp add: event_trunk [OF i(2) 3(2) i(1)] unrouted_def balanced_def)
  next
    case 4
    then show ?thesis using balanced_next_hop [OF inv] i(2) by (simp add: unrouted_def)
  next
    case 5
    then have "recv_event hk ev u (c, w) = (Inr (), (c, w))" using i(2) by (intro event_stale) auto
    then show ?thesis using 5(1) i(2) by (simp add: unrouted_def balanced_def)
  qed
qed

lemma balanced_fire:
  assumes inv: "call_inv g conf a cid (c, w)"
  shows "balanced a 0 w (snd (snd (call_do hk (Fire t) (c, w))))"
  by (auto simp: on_next_hop_no_answer_def run_simps fields_clean_iff balanced_def split: option.split)

section \<open>The whole system\<close>

text \<open>The final events the caller of controller \<open>j\<close> got so far, and those of all callers.\<close>

definition ends_of :: "controller \<Rightarrow> sip_call list \<Rightarrow> int" where
  "ends_of c xs = (case bc_uaA c of None \<Rightarrow> 0 | Some a \<Rightarrow> ends_at a xs)"

definition caller_ends :: "system \<Rightarrow> nat \<Rightarrow> int" where
  "caller_ends s j = ends_of (cm_controllers (sy_map s) ! j) (calls_of s j)"

definition all_ends :: "system \<Rightarrow> int" where
  "all_ends s = sum_list (map (caller_ends s) [0..<length (cm_controllers (sy_map s))])"

definition sys_outcomes :: "system \<Rightarrow> int" where
  "sys_outcomes s = outcomes (ob_metrics (w_obs (sy_world s)))"

fun unrouted_input :: "system \<Rightarrow> sys_input \<Rightarrow> bool" where
  "unrouted_input s (UaEvent u ev) = (case sy_own s u of None \<Rightarrow> False
     | Some j \<Rightarrow> unrouted (cm_controllers (sy_map s) ! j) u ev)"
| "unrouted_input s _ = False"

definition accounted :: "int \<Rightarrow> system \<Rightarrow> system \<Rightarrow> bool" where
  "accounted k s s' \<longleftrightarrow> sys_outcomes s' + all_ends s + k = sys_outcomes s + all_ends s'"

lemma all_ends_quiet:
  assumes "length (cm_controllers (sy_map s')) = length (cm_controllers (sy_map s))"
    and "\<And>j. j < length (cm_controllers (sy_map s)) \<Longrightarrow> caller_ends s' j = caller_ends s j"
  shows "all_ends s' = all_ends s"
  unfolding all_ends_def assms(1) by (intro arg_cong [where f = sum_list] map_cong) (simp_all add: assms(2))

lemma all_ends_grown:
  assumes own: "owners_ok s" and g: "grown j s d s'"
    and j: "j < length (cm_controllers (sy_map s)) \<or> j = length (cm_controllers (sy_map s)) \<and> k = 0"
    and k: "j < length (cm_controllers (sy_map s)) \<Longrightarrow> k = caller_ends s j"
  shows "all_ends s' = all_ends s + caller_ends s' j - k"
proof -
  let ?n = "length (cm_controllers (sy_map s))" and ?n' = "length (cm_controllers (sy_map s'))"
  have all: "all_ends t = (\<Sum>i<length (cm_controllers (sy_map t)). caller_ends t i)" for t
    by (simp add: all_ends_def interv_sum_list_conv_sum_set_nat atLeast0LessThan)
  have same: "caller_ends s' i = caller_ends s i" if "i \<in> {..<?n'} - {j}" for i
    using grownD(7) [OF g, of i] grown_calls [OF own g, of i] that by (simp add: caller_ends_def)
  have idx: "{..<?n'} - {j} = {..<?n} - {j}" using grownD(6,7) [OF g] by auto
  have "all_ends s' = caller_ends s' j + (\<Sum>i\<in>{..<?n} - {j}. caller_ends s i)"
    using grownD(5) [OF g] sum.remove [of "{..<?n'}" j "caller_ends s'"] sum.cong [OF idx same [unfolded idx]]
    by (simp add: all idx)
  moreover have "all_ends s = k + (\<Sum>i\<in>{..<?n} - {j}. caller_ends s i)"
    using j k sum.remove [of "{..<?n}" j "caller_ends s"] by (auto simp: all)
  ultimately show ?thesis by simp
qed

lemma accounted_on_call:
  assumes inv: "sys_inv conf s" and j: "j < length (cm_controllers (sy_map s))" and p: "well_behaved p"
    and bal: "\<And>g a cid c w. (c, w) = view s j \<Longrightarrow> call_inv g conf a cid (c, w) \<Longrightarrow>
       balanced a k w (snd (snd (p (c, w))))"
  shows "accounted k s (snd (on_call j p s))"
proof -
  let ?w = "sy_world s" and ?c = "cm_controllers (sy_map s) ! j" and ?s = "snd (on_call j p s)"
  have own: "owners_ok s" using inv by (simp add: sys_inv_def)
  obtain g a cid where v: "call_inv g conf a cid (view s j)"
    using inv j by (auto simp: sys_inv_def call_ok_def)
  obtain d c' w' where r: "p (view s j) = (Inr (), (c', w'))" "grown j s d ?s"
    "cm_controllers (sy_map ?s) ! j = c'" "w_obs (sy_world ?s) = w_obs w'"
    "w_sip w' = calls_of s j @ d" "calls_of ?s j = calls_of s j @ d"
    by (rule on_call_view [OF inv j p])
  have "bc_uaA ?c = Some a" using v by (simp add: view_def call_inv_def)
  moreover have "balanced a k (?w\<lparr>w_sip := calls_of s j\<rparr>) w'"
    using bal [OF view_def [symmetric] v [unfolded view_def]] r(1) by (simp add: view_def)
  ultimately show ?thesis
    using all_ends_grown [OF own r(2), of "caller_ends s j"] on_call_site(1) [OF inv j p] j r
    by (simp add: accounted_def balanced_def sys_outcomes_def caller_ends_def ends_of_def)
qed

lemma accounted_trunk:
  assumes inv: "sys_inv conf s" and hk: "inbound_ok hk rq" "builds_fresh build"
  shows "accounted 0 s (snd (sys_do hk build (Trunk rq) s))"
proof -
  let ?do = "sys_do hk build (Trunk rq) s" and ?j = "length (cm_controllers (sy_map s))" and ?w = "sy_world s"
  have o: "obs_ok (w_obs ?w)" and own: "owners_ok s" using inv by (simp_all add: sys_inv_def world_ok_def)
  show ?thesis
    using hk(2,1) o
  proof (cases rule: trunk_cases [where m = "sy_map s"])
    case (refused x b)
    have "all_ends (snd ?do) = all_ends s"
      by (rule all_ends_quiet) (simp_all add: refused(1) caller_ends_def calls_of_def claim_ids_same)
    moreover have "outcomes (ob_metrics b) = outcomes (ob_metrics (w_obs ?w))" using refused(3) by auto
    ultimately show ?thesis by (simp add: accounted_def sys_outcomes_def refused(1))
  next
    case (admitted c f)
    have "\<exists>d. grown ?j s d (snd ?do)" by (rule admitted_step(2) [OF inv admitted(1,2)]; simp add: admitted(3))
    then obtain d where g: "grown ?j s d (snd ?do)" by blast
    have "calls_of s ?j = []"
      using owners_okD(1) [OF own] by (fastforce simp: calls_of_def filter_empty_conv)
    moreover have "ends_at a d = 0" for a
      using grownD(3) [OF g] by (auto simp: admitted(3) answered_world_def)
    ultimately have "caller_ends (snd ?do) ?j = 0"
      using grown_calls [OF own g, of ?j] by (simp add: caller_ends_def ends_of_def split: option.split)
    then show ?thesis
      using all_ends_grown [OF own g, of 0]
      by (simp add: accounted_def sys_outcomes_def admitted(3) answered_world_def inbound_obs_def)
  qed
qed

lemma accounted_step:
  assumes inv: "sys_inv conf s"
    and hk: "decide_ok hk" "\<And>rq. inbound_ok hk rq" "builds_fresh build" "decide_outcomes hk"
  shows "accounted (if unrouted_input s i then 1 else 0) s (snd (sys_do hk build i s))"
proof -
  have own: "owners_ok s" using inv by (simp add: sys_inv_def)
  show ?thesis
  proof (cases i)
    case (Trunk rq)
    then show ?thesis using accounted_trunk [OF inv hk(2,3)] by simp
  next
    case (UaEvent u ev)
    show ?thesis
    proof (cases "sy_own s u")
      case None
      then show ?thesis by (simp add: UaEvent accounted_def)
    next
      case (Some j)
      have "accounted (if unrouted (cm_controllers (sy_map s) ! j) u ev then 1 else 0) s
          (snd (on_call j (recv_event hk ev u) s))"
        using accounted_on_call [OF inv _ well_behaved_event [OF hk(1)]] owners_okD(1) [OF own Some]
          balanced_event [OF hk(1,4)] by (auto simp: view_def)
      then show ?thesis by (simp add: UaEvent Some)
    qed
  next
    case (TimerDue t)
    then show ?thesis
      using accounted_on_call [OF inv _ well_behaved_fire [OF hk(1)] balanced_fire] owners_okD(1) [OF own, of t]
      by (auto simp: accounted_def simp del: call_do.simps split: option.split)
  next
    case (Passes d)
    then have "all_ends (snd (sys_do hk build i s)) = all_ends s"
      by (intro all_ends_quiet) (simp_all add: caller_ends_def calls_of_def)
    then show ?thesis by (simp add: Passes accounted_def sys_outcomes_def)
  next
    case (ConnectedAre us)
    then have "all_ends (snd (sys_do hk build i s)) = all_ends s"
      by (intro all_ends_quiet) (simp_all add: caller_ends_def calls_of_def)
    then show ?thesis by (simp add: ConnectedAre accounted_def sys_outcomes_def)
  next
    case DisposeAll
    obtain cs w' where d: "dispose_all (cm_controllers (sy_map s)) (sy_world s) = (cs, w')"
      by (cases "dispose_all (cm_controllers (sy_map s)) (sy_world s)")
    note f = dispose_all_frame [of "cm_controllers (sy_map s)" "sy_world s", unfolded d]
      and t = dispose_all_spec [of "cm_controllers (sy_map s)" "sy_world s", unfolded d]
    have "all_ends (snd (sys_do hk build i s)) = all_ends s"
      by (rule all_ends_quiet) (use f t in \<open>auto simp: DisposeAll map_dispose_def d caller_ends_def ends_of_def calls_of_def\<close>)
    then show ?thesis using f by (simp add: DisposeAll map_dispose_def d accounted_def sys_outcomes_def)
  qed
qed

fun unrouted_count :: "hooks \<Rightarrow> ((string \<times> int) option \<Rightarrow> pyexc + controller) \<Rightarrow> sys_input list \<Rightarrow> system \<Rightarrow> int" where
  "unrouted_count hk build [] s = 0"
| "unrouted_count hk build (i # is) s =
     (if unrouted_input s i then 1 else 0) + unrouted_count hk build is (snd (sys_do hk build i s))"

lemma accounted_run:
  assumes "sys_inv conf s"
    and hk: "decide_ok hk" "\<And>rq. inbound_ok hk rq" "builds_fresh build" "decide_outcomes hk"
  shows "accounted (unrouted_count hk build is s) s (sys_run hk build is s)"
  using assms(1)
proof (induction "is" arbitrary: s)
  case Nil
  then show ?case by (simp add: accounted_def)
next
  case (Cons i "is")
  have "sys_inv conf (snd (sys_do hk build i s))" using system_step [OF Cons.prems hk(1-3), of i] by auto
  from Cons.IH [OF this] accounted_step [OF Cons.prems hk, of i] show ?case
    by (simp add: accounted_def del: sys_do.simps)
qed

text \<open>
  C7: Every final answer is an outcome, and every outcome a final answer. After any run of the
  system from its start (several calls interleaved, failovers, rejects, expiries, shutdown),
  the outcome counters together have grown by the number of final events (a failure or a
  release) handed to callers' legs, except the releases that answer a caller's event on a
  leg that leads nowhere yet or was rejected: those are not counted as an outcome. A failed
  hop that is replaced counts nothing.
\<close>
theorem outcomes_are_final_answers:
  assumes "decide_ok hk" "\<forall>rq. inbound_ok hk rq" "builds_fresh build" "decide_outcomes hk" "fresh_world w"
  shows "let s = sys_run hk build inputs (new_system g allowed w) in
     outcomes (ob_metrics (w_obs (sy_world s))) + unrouted_count hk build inputs (new_system g allowed w) =
     outcomes (ob_metrics (w_obs w)) + all_ends s"
proof -
  have "sys_inv (w_conf w) (new_system g allowed w)" using system_inv [OF sys_start] assms by blast
  from accounted_run [OF this assms(1) _ assms(3,4), of inputs] assms(2) show ?thesis
    by (simp add: accounted_def sys_outcomes_def Let_def)
       (simp add: new_system_def all_ends_def mk_call_map_def)
qed

text \<open>A rejected caller who hangs up afterwards.\<close>

definition sample_inputs :: "sys_input list" where
  "sample_inputs = [Trunk sample_request, UaEvent 2 (CCEventTry sample_try), UaEvent 2 CCEventDisconnect]"

lemma sample_inputs_counts:
  "let s0 = new_system sample_conf [''10.0.0.2''] sample_world; hk = sample_hooks sample_reject in
   unrouted_count hk sample_build sample_inputs s0 = 1 \<and> all_ends (sys_run hk sample_build sample_inputs s0) = 2"
proof -
  let ?hk = "sample_hooks sample_reject" and ?m = "mk_call_map sample_conf [''10.0.0.2'']"
  let ?s0 = "new_system sample_conf [''10.0.0.2''] sample_world"
  define c where "c = answered sample_request sample_world ((mk_controller sample_conf None)\<lparr>bc_trunk_request := Some sample_request\<rparr>)"
  obtain f where f: "hk_inbound_fields ?hk sample_request = Inr f" "fields_clean (relay_kwargs [] [] f)"
    using sample_inbound [of sample_reject sample_request] by (auto simp: inbound_ok_def split: sum.splits)
  define w where "w = answered_world sample_request c f sample_world"
  define own where "own = claim_ids 0 sample_world w (\<lambda>_. None)"
  have n: "w_next_id sample_world = 2" "w_sip sample_world = []" by (simp_all add: sample_world_def)
  have c: "bc_uaA c = Some 2" "bc_uaO c = None" by (simp_all add: c_def answered_def mk_controller_def n)
  have own: "own 2 = Some 0" by (simp add: own_def claim_ids_def w_def answered_world_def n)
  have ends: "ends_of c (w_sip w) = 0" "\<forall>x\<in>set (w_sip w). ua_no x = 2"
    by (simp_all add: ends_of_def c w_def answered_world_def n)
  have o: "obs_ok (w_obs w)" by (simp add: w_def answered_world_def inbound_obs_def)
  obtain err where e: "pd_action sample_reject = REJECT" "pd_error sample_reject = Some err"
    "fields_clean (reject_kwargs [] [] err (pd_reject_log_fields sample_reject))"
    using sample_reject_ok by (rule reject_okE)
  have one: "snd (sys_do ?hk sample_build (Trunk sample_request) ?s0) =
      \<lparr>sy_map = ?m\<lparr>cm_controllers := [c]\<rparr>, sy_world = w, sy_own = own\<rparr>"
  proof -
    have "map_recv_request sample_build ?hk sample_request (?m, sample_world) =
        (Inr FromAgent, (?m\<lparr>cm_controllers := cm_controllers ?m @ [c]\<rparr>, w))"
      unfolding c_def w_def
      by (rule run_admission [OF _ _ _ _ _ f])
         (simp_all add: source_address_def sample_request_def mk_call_map_def sample_build_def sample_conf_def)
    then show ?thesis by (simp add: new_system_def own_def) (simp add: mk_call_map_def)
  qed
  have two: "recv_event ?hk (CCEventTry sample_try) 2 (c, w) =
      (Inr (), ((decided sample_reject c)\<lparr>bc_no_answer_timer := None\<rparr>,
       log_sip (UaRecvEvent 2 (reject_event err) (w_conf w))
         (wobs (rejected_obs c sample_reject err) (timer_dropped c (w\<lparr>w_obs := w_obs w\<rparr>)))))"
    unfolding event_try [OF c is_try.simps(1) [THEN eqTrueE]]
    by (rule run_outbound_reject [OF sample_decides o e c(1)])
  show ?thesis
    using own ends c
    by (simp add: Let_def sample_inputs_def one on_call_def two event_trunk_early [where u = 2] unrouted_def
        decided_def reject_event_def all_ends_def caller_ends_def ends_of_def calls_of_def claim_ids_same
        del: sys_do.simps(1))
qed

theorem outcomes_are_final_answers_witness:
  "outcomes (ob_metrics (w_obs (sy_world (sys_run (sample_hooks sample_reject) sample_build sample_inputs
     (new_system sample_conf [''10.0.0.2''] sample_world))))) = 1"
proof -
  have d: "decide_outcomes (sample_hooks sample_reject)" by (simp add: decide_outcomes_def sample_hooks_def)
  have k: "decide_ok (sample_hooks sample_reject)" by (simp add: decide_ok_def sample_decides sample_reject_ok)
  have w: "outcomes (ob_metrics (w_obs sample_world)) = 0"
    by (simp add: sample_world_def sample_obs_def empty_registry_def outcomes_def counter_get_def)
  show ?thesis
    using outcomes_are_final_answers [OF k _ sample_builds d sample_fresh, of sample_inputs sample_conf "[''10.0.0.2'']"]
      sample_inbound sample_inputs_counts w by (simp add: Let_def)
qed

end
