(* ===== verification/CallConsole.thy ===== *)
theory CallConsole
  imports CallOutcomes InternalApi
begin

text \<open>
  The console while calls run: a GET of the metrics route reads the registry of the running
  system between two of its steps (the snapshot is taken under the registry's lock).
\<close>

text \<open>What a client reads from the document: the calls, and the outcomes added up.\<close>

definition shown_calls :: "json \<Rightarrow> int option" where
  "shown_calls doc = (case doc of JObj d \<Rightarrow>
     (case map_of d ''calls_total'' of Some (JInt n) \<Rightarrow> Some n | _ \<Rightarrow> None) | _ \<Rightarrow> None)"

definition json_count :: "json \<Rightarrow> int" where
  "json_count j = (case j of JInt n \<Rightarrow> n | _ \<Rightarrow> 0)"

definition shown_outcomes :: "json \<Rightarrow> int option" where
  "shown_outcomes doc = (case doc of JObj d \<Rightarrow>
     (case map_of d ''calls_by_disposition'' of Some (JObj ds) \<Rightarrow> Some (sum_list (map (\<lambda>x. json_count (snd x)) ds))
      | _ \<Rightarrow> None) | _ \<Rightarrow> None)"

definition poll_metrics :: "(int \<Rightarrow> string) \<Rightarrow> rat \<Rightarrow> api_app \<Rightarrow> provider \<Rightarrow> system \<Rightarrow> int \<times> json" where
  "poll_metrics isoformat now app p s =
     (case w_obs (sy_world s) of b \<Rightarrow> api_get isoformat now app p (ob_metrics b) (ob_tracer b) Metrics)"

lemma poll_shows:
  "fst (poll_metrics fmt now app p s) = 200"
  "shown_calls (snd (poll_metrics fmt now app p s)) = Some (mr_calls_total (ob_metrics (w_obs (sy_world s))))"
  "shown_outcomes (snd (poll_metrics fmt now app p s)) = Some (sys_outcomes s)"
proof -
  have sum: "sum_list (map (\<lambda>x. json_count (snd x)) (map (\<lambda>(k, n). (k, JInt n)) c)) = sum_list (map snd c)" for c :: counter
    by (induction c) (auto simp: json_count_def)
  show "fst (poll_metrics fmt now app p s) = 200"
    "shown_calls (snd (poll_metrics fmt now app p s)) = Some (mr_calls_total (ob_metrics (w_obs (sy_world s))))"
    by (simp_all add: poll_metrics_def api_get_def metrics_payload_def Let_def snapshot_def shown_calls_def)
  show "shown_outcomes (snd (poll_metrics fmt now app p s)) = Some (sys_outcomes s)"
    using sum by (simp add: poll_metrics_def api_get_def metrics_payload_def Let_def snapshot_def shown_outcomes_def
        json_of_counter_def sys_outcomes_def outcomes_def)
qed

text \<open>
  C30: Two looks at the console. Poll the metrics route after any run of the system and again
  after any further inputs: both answers are documents, the number of calls shown has grown
  by exactly the INVITEs admitted in between, and the outcomes shown, added up, by exactly
  the final events that callers got in between, less the releases that answer a caller whose
  call was never routed. So no call in progress, failed over or refused shows up as a call or
  an outcome it is not.
\<close>
theorem console_polls_add_up:
  assumes "decide_ok hk" "\<forall>rq. inbound_ok hk rq" "builds_fresh build" "decide_books hk" "decide_outcomes hk"
    and "fresh_world w"
  shows "let s1 = sys_run hk build before (new_system g allowed w); s2 = sys_run hk build between s1;
             doc1 = snd (poll_metrics fmt now1 app p s1); doc2 = snd (poll_metrics fmt now2 app p s2) in
     fst (poll_metrics fmt now1 app p s1) = 200 \<and> fst (poll_metrics fmt now2 app p s2) = 200
   \<and> (\<exists>n k. shown_calls doc1 = Some n \<and> shown_outcomes doc1 = Some k
       \<and> shown_calls doc2 = Some (n + int (length (filter (admits allowed) (trunk_requests between))))
       \<and> shown_outcomes doc2 = Some (k + (all_ends s2 - all_ends s1) - unrouted_count hk build between s1))"
proof -
  let ?s0 = "new_system g allowed w"
  have inv0: "sys_inv (w_conf w) ?s0" using system_inv [OF sys_start] assms by blast
  define s1 where "s1 = sys_run hk build before ?s0"
  have inv: "sys_inv (w_conf w) s1"
    unfolding s1_def by (rule sys_inv_run [OF inv0]) (use assms in blast)+
  have "books allowed (mr_calls_total (ob_metrics (w_obs w))) (peer_errors (ob_metrics (w_obs w))) [] ?s0"
    by (simp add: books_def new_system_def mk_call_map_def)
  from books_run [OF this inv0] obtain n e ids where b: "books allowed n e ids s1"
    unfolding s1_def using assms by blast
  have "mr_calls_total (ob_metrics (w_obs (sy_world (sys_run hk build between s1)))) =
      mr_calls_total (ob_metrics (w_obs (sy_world s1))) + int (length (filter (admits allowed) (trunk_requests between)))"
    using books_run [OF b inv, of hk build between] b assms by (simp add: books_def)
  moreover have "accounted (unrouted_count hk build between s1) s1 (sys_run hk build between s1)"
    by (rule accounted_run [OF inv]) (use assms in blast)+
  ultimately show ?thesis
    unfolding s1_def [symmetric] by (simp add: Let_def poll_shows accounted_def)
qed

theorem console_polls_add_up_witness:
  "let s1 = sys_run (sample_hooks sample_reject) sample_build [Trunk sample_request] (new_system sample_conf [''10.0.0.2''] sample_world);
       s2 = sys_run (sample_hooks sample_reject) sample_build [UaEvent 2 (CCEventTry sample_try), Trunk sample_request] s1;
       app = \<lparr>aa_version = ''1'', aa_started_at = 0, aa_sip_recorder = None\<rparr>;
       p = \<lparr>pr_instance = ''as'', pr_ready = True, pr_health_extra = [], pr_resource = None, pr_resource_missing = []\<rparr> in
   \<exists>n. shown_calls (snd (poll_metrics int_str 0 app p s1)) = Some n
     \<and> shown_calls (snd (poll_metrics int_str 1 app p s2)) = Some (n + 1)"
proof -
  have k: "decide_ok (sample_hooks sample_reject)" by (simp add: decide_ok_def sample_decides sample_reject_ok)
  have d: "decide_books (sample_hooks sample_reject)" "decide_outcomes (sample_hooks sample_reject)"
    by (simp_all add: decide_books_def decide_outcomes_def sample_hooks_def)
  have a: "admits [''10.0.0.2''] sample_request"
    by (simp add: admits_def source_address_def sample_request_def)
  show ?thesis
    using console_polls_add_up [OF k _ sample_builds d sample_fresh, of "[Trunk sample_request]" sample_conf "[''10.0.0.2'']"
        "[UaEvent 2 (CCEventTry sample_try), Trunk sample_request]" int_str 0 _ _ 1] sample_inbound
    by (simp add: Let_def a del: sys_run.simps sys_do.simps) blast
qed

end
