(* ===== verification/CallTraces.thy ===== *)
theory CallTraces
  imports CallConsole
begin

text \<open>
  What is traced while calls run: each input records under the Call-ID of the call it is for,
  and while the recorder has room nothing recorded is lost.
\<close>

section \<open>A recorder with room\<close>

definition traced_ids :: "trace_recorder \<Rightarrow> string set" where
  "traced_ids r = set (od_keys (tr_traces r))"

definition event_of :: "trace_call \<Rightarrow> trace_event" where
  "event_of c = the_event (tc_now c) (tc_call_id c) (tc_direction c) (tc_method c) (tc_summary c)
     (tc_peer c) (tc_rule_id c) (tc_attributes c)"

text \<open>\<open>records\<close>: \<open>r'\<close> is \<open>r\<close> after some recording calls, all under Call-IDs of \<open>S\<close>.\<close>

definition records :: "string set \<Rightarrow> trace_recorder \<Rightarrow> trace_recorder \<Rightarrow> bool" where
  "records S r r' \<longleftrightarrow> (\<exists>cs. r' = fold apply_trace_call cs r \<and> tc_call_id ` set cs \<subseteq> S)"

lemma records_refl [simp]: "records S r r"
  unfolding records_def by (intro exI [of _ "[]"]) simp

lemma records_trans: "records S r r' \<Longrightarrow> records S r' r'' \<Longrightarrow> records S r r''"
  unfolding records_def
proof (elim exE conjE)
  fix cs ds
  assume "r' = fold apply_trace_call cs r" "tc_call_id ` set cs \<subseteq> S"
    "r'' = fold apply_trace_call ds r'" "tc_call_id ` set ds \<subseteq> S"
  then show "\<exists>es. r'' = fold apply_trace_call es r \<and> tc_call_id ` set es \<subseteq> S"
    by (intro exI [of _ "cs @ ds"]) auto
qed

lemma records_one: "cid \<in> S \<Longrightarrow> records S r (snd (trace_record now cid dir meth summ peer rid attrs r))"
  unfolding records_def
  by (rule exI [of _ "[\<lparr>tc_now = now, tc_call_id = cid, tc_direction = dir, tc_method = meth, tc_summary = summ,
        tc_peer = peer, tc_rule_id = rid, tc_attributes = attrs\<rparr>]"]) (simp add: apply_trace_call_def)

lemma room_step:
  assumes ok: "tracer_ok r" and room: "int (card (insert (tc_call_id c) (traced_ids r))) \<le> tr_max_calls r"
  shows "tracer_ok (apply_trace_call c r)" "tr_max_calls (apply_trace_call c r) = tr_max_calls r"
    "traced_ids (apply_trace_call c r) = insert (tc_call_id c) (traced_ids r)"
    "ct_events (trace_for cid (apply_trace_call c r)) =
       ct_events (trace_for cid r) @ (if tc_call_id c = cid then [event_of c] else [])"
proof -
  let ?d = "od_move_to_end (tc_call_id c) (AList.update (tc_call_id c)
      (odict_get (tr_traces r) (tc_call_id c) @ [event_of c]) (tr_traces r))"
  show "tracer_ok (apply_trace_call c r)" "tr_max_calls (apply_trace_call c r) = tr_max_calls r"
    using ok by (simp_all add: apply_trace_call_def tracer_ok_record)
  have wf: "od_wf ?d" using ok by (simp add: tracer_ok_def)
  have keys: "set (od_keys ?d) = insert (tc_call_id c) (traced_ids r)"
    unfolding keys_touch by (auto simp: traced_ids_def)
  have "length ?d = card (set (od_keys ?d))"
    using wf unfolding od_wf_def by (metis distinct_card length_map)
  then have "length ?d \<le> nat (tr_max_calls r)" using room keys by simp
  then have run: "tr_traces (apply_trace_call c r) = ?d"
    using ok by (simp add: apply_trace_call_def trace_record_ok last_n_all event_of_def)
  show "traced_ids (apply_trace_call c r) = insert (tc_call_id c) (traced_ids r)"
    using keys run by (simp add: traced_ids_def)
  show "ct_events (trace_for cid (apply_trace_call c r)) =
       ct_events (trace_for cid r) @ (if tc_call_id c = cid then [event_of c] else [])"
    by (simp add: trace_for_def odict_get_def run update_conv')
qed

lemma room_run:
  assumes "tracer_ok r" "int (card (traced_ids r \<union> tc_call_id ` set cs)) \<le> tr_max_calls r"
  shows "tracer_ok (fold apply_trace_call cs r) \<and> tr_max_calls (fold apply_trace_call cs r) = tr_max_calls r
    \<and> traced_ids (fold apply_trace_call cs r) = traced_ids r \<union> tc_call_id ` set cs
    \<and> ct_events (trace_for cid (fold apply_trace_call cs r)) =
        ct_events (trace_for cid r) @ map event_of (filter (\<lambda>c. tc_call_id c = cid) cs)"
  using assms
proof (induction cs arbitrary: r)
  case Nil
  then show ?case by simp
next
  case (Cons c cs)
  let ?r = "apply_trace_call c r"
  have fin: "finite (traced_ids r \<union> tc_call_id ` set (c # cs))" by (simp add: traced_ids_def)
  have "card (insert (tc_call_id c) (traced_ids r)) \<le> card (traced_ids r \<union> tc_call_id ` set (c # cs))"
    by (rule card_mono [OF fin]) auto
  then have "int (card (insert (tc_call_id c) (traced_ids r))) \<le> tr_max_calls r" using Cons.prems(2) by linarith
  note one = room_step [OF Cons.prems(1) this]
  have "int (card (traced_ids ?r \<union> tc_call_id ` set cs)) \<le> tr_max_calls ?r"
    using Cons.prems(2) by (simp add: one(2,3))
  from Cons.IH [OF one(1) this] one(2,3) one(4) [of cid] show ?case by auto
qed

section \<open>What a handler records\<close>

definition own_traces :: "string \<Rightarrow> trace_recorder \<Rightarrow> cst \<Rightarrow> bool" where
  "own_traces cid r0 s \<longleftrightarrow> (case s of (c, w) \<Rightarrow> bc_call_id c = cid \<and> records {cid} r0 (ob_tracer (w_obs w)))"

lemma own_traces_obs:
  assumes "\<And>b. records {cid} (ob_tracer b) (ob_tracer (snd (m b)))"
  shows "preserves (own_traces cid r0) (obs_do m)"
proof (rule preservesI)
  fix s
  assume s: "own_traces cid r0 s"
  obtain c w where cw: "s = (c, w)" by (cases s)
  obtain x b where "m (w_obs w) = (x, b)" by (cases "m (w_obs w)")
  then show "own_traces cid r0 (snd (obs_do m s))"
    using s assms [of "w_obs w"] records_trans by (auto simp: cw own_traces_def obs_do_def)
qed

lemma own_traces_metrics [preserve_intro]: "preserves (own_traces cid r0) (obs_do (metrics_do f))"
  by (rule own_traces_obs) (simp add: metrics_do_def)

lemma own_traces_log [preserve_intro]: "preserves (own_traces cid r0) (obs_do (obs_log lev ev kw))"
  by (rule own_traces_obs) (simp add: obs_log_def split: prod.split)

lemma own_traces_trace [preserve_intro]:
  "ci = cid \<Longrightarrow> preserves (own_traces cid r0) (obs_do (obs_trace ci dir meth summ peer rid attrs))"
proof (rule own_traces_obs)
  fix b
  assume "ci = cid"
  then show "records {cid} (ob_tracer b) (ob_tracer (snd (obs_trace ci dir meth summ peer rid attrs b)))"
    using records_one [of cid "{cid}" "ob_tracer b" "ob_clock b" dir meth summ peer rid attrs]
    by (simp add: obs_trace_def split: prod.split sum.split) (metis snd_conv)
qed

lemma own_traces_cget [preserve_intro]:
  "(\<And>c w. bc_call_id c = cid \<Longrightarrow> preserves (own_traces cid r0) (f c w)) \<Longrightarrow> preserves (own_traces cid r0) (cget f)"
  by (auto simp: preserves_def own_traces_def)

lemma own_traces_cupd [preserve_intro]:
  "(\<And>c. bc_call_id (f c) = bc_call_id c) \<Longrightarrow> preserves (own_traces cid r0) (cupd f)"
  by (rule preserves_cupd) (simp add: own_traces_def)

lemma own_traces_wupd [preserve_intro]:
  "(\<And>w. w_obs (f w) = w_obs w) \<Longrightarrow> preserves (own_traces cid r0) (wupd f)"
  by (rule preserves_wupd) (simp add: own_traces_def)

lemma own_traces_new_ua [preserve_intro]: "preserves (own_traces cid r0) (new_ua nh)"
  unfolding new_ua_def by (intro preserve_intro) simp

lemma own_traces_arm_timer [preserve_intro]: "preserves (own_traces cid r0) (arm_timer d)"
  unfolding arm_timer_def by (intro preserve_intro) simp

lemma own_traces_ua_recv_event [preserve_intro]: "preserves (own_traces cid r0) (ua_recv_event ua ev)"
  unfolding ua_recv_event_def by (intro preserve_intro) simp

lemma own_traces_sip_identity [preserve_intro]:
  "preserves (own_traces cid r0) body \<Longrightarrow> preserves (own_traces cid r0) (sip_identity g body)"
  unfolding sip_identity_def by (intro preserve_intro) (auto simp: own_traces_def)

text \<open>The application's part: a decision about a call is traced under that call's Call-ID.\<close>

definition decide_traces :: "hooks \<Rightarrow> bool" where
  "decide_traces hk \<longleftrightarrow>
     (\<forall>c ev b. records {bc_call_id c} (ob_tracer b) (ob_tracer (snd (hk_decide hk c ev b))))"

lemma own_traces_decide:
  "decide_traces hk \<Longrightarrow> bc_call_id c = cid \<Longrightarrow> preserves (own_traces cid r0) (obs_do (hk_decide hk c ev))"
  by (rule own_traces_obs) (auto simp: decide_traces_def)

lemma own_traces_recv_event:
  assumes "decide_traces hk"
  shows "preserves (own_traces cid r0) (recv_event hk ev u)"
  unfolding recv_event_def relay_from_trunk_def relay_from_next_hop_def relay_to_trunk_def failover_record_def
    originate_outbound_leg_def reject_on_trunk_def apply_call_policy_def try_failover_def originate_towards_def
    originate_report_def record_event_def record_disposition_def cancel_no_answer_timer_def
  by (intro preserve_intro own_traces_decide [OF assms]; simp add: log_sip_def disarm_def)

lemma own_traces_fire: "preserves (own_traces cid r0) (call_do hk (Fire t))"
  unfolding fire_as_statement on_next_hop_no_answer_def
  by (intro preserve_intro) (simp_all add: log_sip_def disarm_def)

section \<open>What a run records\<close>

abbreviation tracer_of :: "system \<Rightarrow> trace_recorder" where
  "tracer_of s \<equiv> ob_tracer (w_obs (sy_world s))"

text \<open>A request that is traced: refused by the allowlist or admitted (a 481 or a 501 leaves no trace).\<close>

definition leaves_trace :: "string list \<Rightarrow> sip_request \<Rightarrow> bool" where
  "leaves_trace allowed rq \<longleftrightarrow> source_address rq \<notin> set allowed \<or> admits allowed rq"

definition request_ids :: "string list \<Rightarrow> sys_input list \<Rightarrow> string list" where
  "request_ids allowed is = map rq_call_id (filter (leaves_trace allowed) (trunk_requests is))"

text \<open>The Call-ID of the call an input is for.\<close>

fun addressed :: "system \<Rightarrow> sys_input \<Rightarrow> string list" where
  "addressed s (Trunk rq) = (if leaves_trace (cm_allowed_peers (sy_map s)) rq then [rq_call_id rq] else [])"
| "addressed s (UaEvent u ev) = (case sy_own s u of None \<Rightarrow> []
     | Some j \<Rightarrow> [bc_call_id (cm_controllers (sy_map s) ! j)])"
| "addressed s (TimerDue t) = (case sy_own s t of None \<Rightarrow> []
     | Some j \<Rightarrow> [bc_call_id (cm_controllers (sy_map s) ! j)])"
| "addressed s _ = []"

fun touched :: "hooks \<Rightarrow> ((string \<times> int) option \<Rightarrow> pyexc + controller) \<Rightarrow> sys_input list \<Rightarrow> system \<Rightarrow> string list" where
  "touched hk build [] s = []"
| "touched hk build (i # is) s = addressed s i @ touched hk build is (snd (sys_do hk build i s))"

text \<open>\<open>recorded_by\<close>: exactly the recording calls of one input, as far as the Call-IDs go.\<close>

definition recorded_by :: "string set \<Rightarrow> string set \<Rightarrow> system \<Rightarrow> system \<Rightarrow> bool" where
  "recorded_by new S s s' \<longleftrightarrow> (\<exists>cs. tracer_of s' = fold apply_trace_call cs (tracer_of s)
     \<and> tc_call_id ` set cs \<subseteq> S \<and> new \<subseteq> tc_call_id ` set cs)"

lemma recorded_by_records: "records S (tracer_of s) (tracer_of s') \<Longrightarrow> recorded_by {} S s s'"
  by (auto simp: records_def recorded_by_def)

lemma recorded_by_one:
  assumes "tracer_of s' = snd (trace_record now cid dir meth summ peer rid attrs (tracer_of s))"
  shows "recorded_by {cid} {cid} s s'"
  unfolding recorded_by_def
  by (rule exI [of _ "[\<lparr>tc_now = now, tc_call_id = cid, tc_direction = dir, tc_method = meth, tc_summary = summ,
        tc_peer = peer, tc_rule_id = rid, tc_attributes = attrs\<rparr>]"]) (simp add: assms apply_trace_call_def)

lemma recorded_trunk:
  assumes o: "obs_ok (w_obs (sy_world s))" and hk: "inbound_ok hk rq" "builds_fresh build"
  shows "recorded_by (set (addressed s (Trunk rq))) (set (addressed s (Trunk rq))) s
    (snd (sys_do hk build (Trunk rq) s))"
proof -
  let ?m = "sy_map s" and ?w = "sy_world s" and ?al = "cm_allowed_peers (sy_map s)"
  consider "source_address rq \<notin> set ?al" | "source_address rq \<in> set ?al" "\<not> admits ?al rq" | "admits ?al rq"
    by blast
  then show ?thesis
  proof cases
    case 1
    then have "map_recv_request build hk rq (?m, ?w) = reject_peer rq (source_address rq) (source_peer rq) (?m, ?w)"
      by (simp add: map_recv_request_def is_allowed_peer_def)
    then show ?thesis
      using 1 run_reject_peer [OF o, of rq ?m]
      by (auto simp: leaves_trace_def traced_def intro!: recorded_by_one)
  next
    case 2
    then have "\<exists>x. map_recv_request build hk rq (?m, ?w) = (Inr x, (?m, ?w))"
      using trunk_refusals [of rq ?m build hk ?w] by (cases "rq_to_tag rq = None") (auto simp: admits_def)
    then show ?thesis using 2 by (auto simp: leaves_trace_def intro!: recorded_by_records)
  next
    case 3
    obtain c where c: "build (gc_nh_addr (cm_conf ?m)) = Inr c" using hk(2) unfolding builds_fresh_def by blast
    obtain f where f: "hk_inbound_fields hk rq = Inr f" "fields_clean (relay_kwargs [] [] f)"
      using hk(1) by (auto simp: inbound_ok_def split: sum.splits)
    have "map_recv_request build hk rq (?m, ?w) = (Inr FromAgent,
        (?m\<lparr>cm_controllers := cm_controllers ?m @ [answered rq ?w (c\<lparr>bc_trunk_request := Some rq\<rparr>)]\<rparr>,
         answered_world rq (answered rq ?w (c\<lparr>bc_trunk_request := Some rq\<rparr>)) f ?w))"
      by (rule run_admission) (use 3 c f o in \<open>simp_all add: admits_def\<close>)
    then show ?thesis
      using 3 by (auto simp: leaves_trace_def answered_world_def inbound_obs_def recorded_def traced_def answered_def
          intro!: recorded_by_one)
  qed
qed

lemma recorded_on_call:
  assumes p: "\<And>cid r0. preserves (own_traces cid r0) p" and j: "j < length (cm_controllers (sy_map s))"
  shows "recorded_by {} {bc_call_id (cm_controllers (sy_map s) ! j)} s (snd (on_call j p s))"
proof (rule recorded_by_records)
  let ?c = "cm_controllers (sy_map s) ! j"
  obtain r c' w' where r: "p (?c, sy_world s) = (r, (c', w'))" by (metis prod.collapse)
  have "own_traces (bc_call_id ?c) (tracer_of s) (?c, sy_world s)" by (simp add: own_traces_def)
  from preservesD [OF p this] r
  show "records {bc_call_id ?c} (tracer_of s) (tracer_of (snd (on_call j p s)))"
    by (simp add: own_traces_def on_call_def)
qed

lemma recorded_other:
  assumes own: "owners_ok s" and hk: "decide_traces hk" and i: "\<And>rq. i \<noteq> Trunk rq"
  shows "recorded_by {} (set (addressed s i)) s (snd (sys_do hk build i s))"
proof (cases i)
  case (UaEvent u ev)
  then show ?thesis
    using recorded_on_call [OF own_traces_recv_event [OF hk]] owners_okD(1) [OF own, of u]
    by (auto split: option.split intro: recorded_by_records)
next
  case (TimerDue t)
  then show ?thesis
    using recorded_on_call [OF own_traces_fire] owners_okD(1) [OF own, of t]
    by (auto split: option.split intro: recorded_by_records)
next
  case DisposeAll
  obtain cs w' where d: "dispose_all (cm_controllers (sy_map s)) (sy_world s) = (cs, w')"
    by (cases "dispose_all (cm_controllers (sy_map s)) (sy_world s)")
  show ?thesis
    using dispose_all_frame [of "cm_controllers (sy_map s)" "sy_world s", unfolded d]
    by (auto simp: DisposeAll map_dispose_def d intro!: recorded_by_records)
qed (use i in \<open>auto intro!: recorded_by_records\<close>)

text \<open>
  The run: under the conditions of the books, every recording call is for a call touched, every
  traced request records, and nothing else is ever traced.
\<close>

definition traces_from :: "string set \<Rightarrow> string set \<Rightarrow> trace_recorder \<Rightarrow> trace_recorder \<Rightarrow> bool" where
  "traces_from ids S r r' \<longleftrightarrow> tracer_ok r' \<and> tr_max_calls r' = tr_max_calls r
     \<and> traced_ids r' = traced_ids r \<union> ids
     \<and> (\<forall>cid. \<exists>more. ct_events (trace_for cid r') = ct_events (trace_for cid r) @ more
          \<and> (\<forall>e\<in>set more. te_call_id e = cid) \<and> (cid \<notin> S \<longrightarrow> more = []))"

lemma traces_from_refl: "tracer_ok r \<Longrightarrow> traces_from {} S r r"
  by (simp add: traces_from_def)

lemma traces_from_trans:
  assumes "traces_from A S r r'" "traces_from B T r' r''"
  shows "traces_from (A \<union> B) (S \<union> T) r r''"
proof -
  have "\<exists>more. ct_events (trace_for cid r'') = ct_events (trace_for cid r) @ more
      \<and> (\<forall>e\<in>set more. te_call_id e = cid) \<and> (cid \<notin> S \<union> T \<longrightarrow> more = [])" for cid
  proof -
    obtain m1 where m1: "ct_events (trace_for cid r') = ct_events (trace_for cid r) @ m1"
        "\<forall>e\<in>set m1. te_call_id e = cid" "cid \<notin> S \<longrightarrow> m1 = []"
      using assms(1) unfolding traces_from_def by blast
    obtain m2 where m2: "ct_events (trace_for cid r'') = ct_events (trace_for cid r') @ m2"
        "\<forall>e\<in>set m2. te_call_id e = cid" "cid \<notin> T \<longrightarrow> m2 = []"
      using assms(2) unfolding traces_from_def by blast
    show ?thesis using m1 m2 by (intro exI [of _ "m1 @ m2"]) auto
  qed
  then show ?thesis using assms by (auto simp: traces_from_def)
qed

lemma recorded_by_traces:
  assumes rec: "recorded_by new S s s'" and ok: "tracer_ok (tracer_of s)"
    and known: "S \<subseteq> traced_ids (tracer_of s) \<union> new"
    and room: "int (card (traced_ids (tracer_of s) \<union> new)) \<le> tr_max_calls (tracer_of s)"
  shows "traces_from new S (tracer_of s) (tracer_of s')"
proof -
  obtain cs where cs: "tracer_of s' = fold apply_trace_call cs (tracer_of s)"
      "tc_call_id ` set cs \<subseteq> S" "new \<subseteq> tc_call_id ` set cs"
    using rec unfolding recorded_by_def by blast
  have ids: "traced_ids (tracer_of s) \<union> tc_call_id ` set cs = traced_ids (tracer_of s) \<union> new"
    using cs(2,3) known by blast
  note run = room_run [OF ok, of cs, unfolded ids, OF room]
  have "\<exists>more. ct_events (trace_for cid (tracer_of s')) = ct_events (trace_for cid (tracer_of s)) @ more
          \<and> (\<forall>e\<in>set more. te_call_id e = cid) \<and> (cid \<notin> S \<longrightarrow> more = [])" for cid
    using run [of cid] cs(1,2)
    by (intro exI [of _ "map event_of (filter (\<lambda>c. tc_call_id c = cid) cs)"])
       (auto simp: event_of_def the_event_def filter_empty_conv)
  then show ?thesis using run cs(1) by (simp add: traces_from_def)
qed

lemma request_ids_Nil [simp]: "request_ids allowed [] = []"
  by (simp add: request_ids_def)

lemma request_ids_append: "request_ids allowed (xs @ ys) = request_ids allowed xs @ request_ids allowed ys"
  by (simp add: request_ids_def trunk_requests_append)

lemma request_ids_Cons:
  "set (request_ids allowed (i # is)) = set (request_ids allowed [i]) \<union> set (request_ids allowed is)"
  using request_ids_append [of allowed "[i]" "is"] by simp

lemma traces_step:
  assumes bk: "books allowed n e ids s" and inv: "sys_inv conf s" and ids: "set ids \<subseteq> traced_ids (tracer_of s)"
    and room: "int (card (traced_ids (tracer_of s) \<union> set (request_ids allowed [i]))) \<le> tr_max_calls (tracer_of s)"
    and hk: "decide_ok hk" "\<And>rq. inbound_ok hk rq" "builds_fresh build" "decide_books hk" "decide_traces hk"
  shows "traces_from (set (request_ids allowed [i])) (set (addressed s i)) (tracer_of s)
      (tracer_of (snd (sys_do hk build i s)))
    \<and> (\<exists>n' e' ids'. books allowed n' e' ids' (snd (sys_do hk build i s))
        \<and> set ids' \<subseteq> traced_ids (tracer_of (snd (sys_do hk build i s))))"
proof -
  let ?s = "snd (sys_do hk build i s)" and ?r = "tracer_of s"
  let ?new = "set (request_ids allowed [i])" and ?S = "set (addressed s i)"
  have own: "owners_ok s" "obs_ok (w_obs (sy_world s))" "tracer_ok ?r"
    using inv by (simp_all add: sys_inv_def world_ok_def obs_ok_def)
  have al: "cm_allowed_peers (sy_map s) = allowed" "map bc_call_id (cm_controllers (sy_map s)) = ids"
    using bk by (simp_all add: books_def)
  have ctl: "bc_call_id (cm_controllers (sy_map s) ! j) \<in> traced_ids ?r" if "sy_own s u = Some j" for u j
    using owners_okD(1) [OF own(1) that] al(2) ids by (metis in_set_conv_nth length_map nth_map subsetD)
  show ?thesis
  proof (cases "\<exists>rq. i = Trunk rq")
    case True
    then obtain rq where i: "i = Trunk rq" by blast
    have new: "?new = ?S" by (simp add: i request_ids_def al(1))
    have "traces_from ?new ?S ?r (tracer_of ?s)"
      by (rule recorded_by_traces [OF _ own(3)])
         (use recorded_trunk [OF own(2) hk(2,3), of rq] room new i in auto)
    moreover have "set (ids @ (if admits allowed rq then [rq_call_id rq] else [])) \<subseteq> traced_ids ?r \<union> ?new"
      using ids by (auto simp: i request_ids_def leaves_trace_def)
    ultimately show ?thesis
      using books_trunk [OF bk own(2) hk(2,3), of rq] unfolding i traces_from_def by blast
  next
    case False
    then have new: "?new = {}" by (cases i) (simp_all add: request_ids_def)
    have "?S \<subseteq> traced_ids ?r" using False ctl by (cases i) (auto split: option.splits)
    then have "traces_from ?new ?S ?r (tracer_of ?s)"
      using recorded_by_traces [OF _ own(3)] recorded_other [OF own(1) hk(5), of i] False room new by auto
    moreover have "books allowed n e ids ?s" by (rule books_other [OF bk own(1) hk(4)]) (use False in blast)
    ultimately show ?thesis using ids unfolding traces_from_def by blast
  qed
qed

lemma traces_run:
  assumes "books allowed n e ids s" "sys_inv conf s" "set ids \<subseteq> traced_ids (tracer_of s)"
    and "int (card (traced_ids (tracer_of s) \<union> set (request_ids allowed is))) \<le> tr_max_calls (tracer_of s)"
    and hk: "decide_ok hk" "\<And>rq. inbound_ok hk rq" "builds_fresh build" "decide_books hk" "decide_traces hk"
  shows "traces_from (set (request_ids allowed is)) (set (touched hk build is s)) (tracer_of s)
      (tracer_of (sys_run hk build is s))
    \<and> (\<exists>n' e' ids'. books allowed n' e' ids' (sys_run hk build is s)
        \<and> set ids' \<subseteq> traced_ids (tracer_of (sys_run hk build is s)))"
  using assms(1-4)
proof (induction "is" arbitrary: n e ids s)
  case Nil
  then have "tracer_ok (tracer_of s)" by (simp add: sys_inv_def world_ok_def obs_ok_def)
  then show ?case using Nil by (auto simp: traces_from_refl request_ids_def)
next
  case (Cons i "is")
  let ?s = "snd (sys_do hk build i s)" and ?r = "tracer_of s"
  let ?new = "set (request_ids allowed [i])" and ?S = "set (addressed s i)"
  have inv: "sys_inv conf ?s" using system_step [OF Cons.prems(2) hk(1-3), of i] by auto
  have fin: "finite (traced_ids ?r \<union> set (request_ids allowed (i # is)))" by (simp add: traced_ids_def)
  have "card (traced_ids ?r \<union> ?new) \<le> card (traced_ids ?r \<union> set (request_ids allowed (i # is)))"
    by (rule card_mono [OF fin]) (use request_ids_Cons [of allowed i "is"] in auto)
  then have "int (card (traced_ids ?r \<union> ?new)) \<le> tr_max_calls ?r" using Cons.prems(4) by linarith
  from traces_step [OF Cons.prems(1-3) this hk]
  obtain n' e' ids' where b: "books allowed n' e' ids' ?s" "set ids' \<subseteq> traced_ids (tracer_of ?s)"
    and t: "traces_from ?new ?S ?r (tracer_of ?s)" by blast
  have "int (card (traced_ids (tracer_of ?s) \<union> set (request_ids allowed is))) \<le> tr_max_calls (tracer_of ?s)"
    using Cons.prems(4) t by (simp add: traces_from_def request_ids_Cons [of allowed i "is"] Un_assoc)
  from Cons.IH [OF b(1) inv b(2) this] traces_from_trans [OF t] show ?case
    by (auto simp: request_ids_Cons [of allowed i "is"] simp del: sys_do.simps)
qed

section \<open>The trace route\<close>

lemma traces_start:
  assumes hk: "decide_ok hk" "\<And>rq. inbound_ok hk rq" "builds_fresh build" "decide_books hk" "decide_traces hk"
    and w: "fresh_world w" "tr_traces (ob_tracer (w_obs w)) = []"
    and room: "int (card (set (request_ids allowed (before @ between)))) \<le> tr_max_calls (ob_tracer (w_obs w))"
    and s1: "s1 = sys_run hk build before (new_system g allowed w)"
  shows "traced_ids (tracer_of s1) = set (request_ids allowed before)" "tracer_ok (tracer_of s1)"
    "tr_max_calls (tracer_of s1) = tr_max_calls (ob_tracer (w_obs w))"
    "\<forall>e\<in>set (ct_events (trace_for cid (tracer_of s1))). te_call_id e = cid"
    "traces_from (set (request_ids allowed between)) (set (touched hk build between s1)) (tracer_of s1)
      (tracer_of (sys_run hk build between s1))"
proof -
  let ?s0 = "new_system g allowed w" and ?r0 = "ob_tracer (w_obs w)"
  note split = request_ids_append [of allowed before between]
  have r0: "tracer_of ?s0 = ?r0" "traced_ids ?r0 = {}" by (simp_all add: new_system_def traced_ids_def w(2))
  have inv0: "sys_inv (w_conf w) ?s0" using system_inv [OF sys_start] hk(1-3) w(1) by blast
  have b0: "books allowed (mr_calls_total (ob_metrics (w_obs w))) (peer_errors (ob_metrics (w_obs w))) [] ?s0"
    by (simp add: books_def new_system_def mk_call_map_def)
  have "card (set (request_ids allowed before)) \<le> card (set (request_ids allowed (before @ between)))"
    by (rule card_mono) (auto simp: split)
  then have "int (card (traced_ids (tracer_of ?s0) \<union> set (request_ids allowed before))) \<le> tr_max_calls (tracer_of ?s0)"
    using room by (simp add: r0)
  note run = traces_run [OF b0 inv0 _ this hk, folded s1, unfolded r0, simplified]
  obtain n e ids where b: "books allowed n e ids s1" "set ids \<subseteq> traced_ids (tracer_of s1)" using run by blast
  have t: "traces_from (set (request_ids allowed before)) (set (touched hk build before ?s0)) ?r0 (tracer_of s1)"
    using run by blast
  then show ids: "traced_ids (tracer_of s1) = set (request_ids allowed before)" "tracer_ok (tracer_of s1)"
    and mx: "tr_max_calls (tracer_of s1) = tr_max_calls ?r0"
    by (simp_all add: traces_from_def r0)
  have "ct_events (trace_for cid ?r0) = []" by (simp add: trace_for_def odict_get_def w(2))
  then show "\<forall>e\<in>set (ct_events (trace_for cid (tracer_of s1))). te_call_id e = cid"
    using t unfolding traces_from_def by (metis append_Nil)
  have inv: "sys_inv (w_conf w) s1" unfolding s1 by (rule sys_inv_run [OF inv0 hk(1-3)])
  have "int (card (traced_ids (tracer_of s1) \<union> set (request_ids allowed between))) \<le> tr_max_calls (tracer_of s1)"
    using room by (simp add: ids mx split)
  from traces_run [OF b(1) inv b(2) this hk]
  show "traces_from (set (request_ids allowed between)) (set (touched hk build between s1)) (tracer_of s1)
      (tracer_of (sys_run hk build between s1))" by blast
qed

text \<open>
  C31: Traces while calls run. As long as the Call-IDs of the requests that leave a trace (the
  INVITEs admitted, the requests the allowlist refused) fit the recorder, the recorder knows
  exactly those Call-IDs, in whatever way the calls interleave; the trace route of a Call-ID
  shows events of that Call-ID only; what it has shown once it keeps showing, in front of
  what came later; and inputs for other calls add nothing to it.
\<close>
theorem traces_follow_their_call:
  assumes "decide_ok hk" "\<forall>rq. inbound_ok hk rq" "builds_fresh build" "decide_books hk" "decide_traces hk"
    and "fresh_world w" "tr_traces (ob_tracer (w_obs w)) = []"
    and "int (card (set (request_ids allowed (before @ between)))) \<le> tr_max_calls (ob_tracer (w_obs w))"
  shows "let s1 = sys_run hk build before (new_system g allowed w); s2 = sys_run hk build between s1;
             shown = (\<lambda>s. api_get fmt now app p (ob_metrics (w_obs (sy_world s))) (ob_tracer (w_obs (sy_world s))) (Trace cid));
             doc = (\<lambda>evs. (200, JObj [(''call_id'', JStr cid), (''events'', JList (map (\<lambda>e. JObj (event_payload fmt e)) evs))])) in
     set (known_call_ids (ob_tracer (w_obs (sy_world s1)))) = set (request_ids allowed before)
   \<and> (\<exists>evs more. shown s1 = doc evs \<and> shown s2 = doc (evs @ more)
       \<and> (\<forall>e\<in>set (evs @ more). te_call_id e = cid)
       \<and> (cid \<notin> set (touched hk build between s1) \<longrightarrow> more = []))"
proof -
  define s1 where "s1 = sys_run hk build before (new_system g allowed w)"
  note t = traces_start [OF assms(1) assms(2) [rule_format] assms(3-8) s1_def]
  let ?evs = "ct_events (trace_for cid (tracer_of s1))"
  obtain more where m: "ct_events (trace_for cid (tracer_of (sys_run hk build between s1))) = ?evs @ more"
      "\<forall>e\<in>set more. te_call_id e = cid" "cid \<notin> set (touched hk build between s1) \<longrightarrow> more = []"
    using t(5) unfolding traces_from_def by blast
  have doc: "api_get fmt now app p mr r (Trace cid) = (200, JObj [(''call_id'', JStr cid),
      (''events'', JList (map (\<lambda>e. JObj (event_payload fmt e)) (ct_events (trace_for cid r))))])" for mr r
    by (simp add: api_get_def trace_payload_def trace_for_def)
  have "set (known_call_ids (tracer_of s1)) = set (request_ids allowed before)"
    using t(1) by (simp add: known_call_ids_def traced_ids_def)
  then show ?thesis
    unfolding Let_def s1_def [symmetric] doc m(1) using m(2,3) t(4) [of cid]
    by (intro conjI exI [of _ ?evs] exI [of _ more]) auto
qed

text \<open>A second call beside the sample call.\<close>

definition sample_second :: sip_request where
  "sample_second = sample_request\<lparr>rq_call_id := ''c2''\<rparr>"

lemma sample_leaves_trace [simp]:
  "leaves_trace [''10.0.0.2''] sample_request" "leaves_trace [''10.0.0.2''] sample_second"
  by (simp_all add: leaves_trace_def admits_def source_address_def sample_request_def sample_second_def)

lemma sample_call_ids [simp]: "rq_call_id sample_request = ''c1''" "rq_call_id sample_second = ''c2''"
  by (simp_all add: sample_request_def sample_second_def)

lemma sample_traces_ok: "decide_books (sample_hooks d)" "decide_traces (sample_hooks d)"
    "tr_traces (ob_tracer (w_obs sample_world)) = []" "tr_max_calls (ob_tracer (w_obs sample_world)) = 200"
  by (simp_all add: decide_books_def decide_traces_def sample_hooks_def sample_world_def sample_obs_def mk_trace_recorder_def)

theorem traces_follow_their_call_witness:
  "let s1 = sys_run (sample_hooks sample_relay) sample_build [Trunk sample_request, UaEvent 2 (CCEventTry sample_try)]
         (new_system sample_conf [''10.0.0.2''] sample_world);
       s2 = sys_run (sample_hooks sample_relay) sample_build [Trunk sample_second] s1;
       app = \<lparr>aa_version = ''1'', aa_started_at = 0, aa_sip_recorder = None\<rparr>;
       p = \<lparr>pr_instance = ''as'', pr_ready = True, pr_health_extra = [], pr_resource = None, pr_resource_missing = []\<rparr>;
       shown = (\<lambda>s. api_get int_str 0 app p (ob_metrics (w_obs (sy_world s))) (ob_tracer (w_obs (sy_world s))) (Trace ''c1'')) in
   shown s2 = shown s1 \<and> set (known_call_ids (ob_tracer (w_obs (sy_world s1)))) = {''c1''}"
proof -
  let ?hk = "sample_hooks sample_relay" and ?before = "[Trunk sample_request, UaEvent 2 (CCEventTry sample_try)]"
  have ok: "\<forall>rq. inbound_ok ?hk rq" using sample_inbound by blast
  have quiet: "''c1'' \<notin> set (touched ?hk sample_build [Trunk sample_second] s)" for s by simp
  have ids: "set (request_ids [''10.0.0.2''] (?before @ [Trunk sample_second])) = {''c1'', ''c2''}"
    "set (request_ids [''10.0.0.2''] ?before) = {''c1''}"
    by (simp_all add: request_ids_def)
  have "int (card (set (request_ids [''10.0.0.2''] (?before @ [Trunk sample_second]))))
      \<le> tr_max_calls (ob_tracer (w_obs sample_world))"
    unfolding ids sample_traces_ok(4) by simp
  note run = traces_follow_their_call [OF sample_decide_ok(1) ok sample_builds sample_traces_ok(1,2) sample_fresh
      sample_traces_ok(3) this, of sample_conf _ _ _ _ "''c1''", unfolded Let_def ids]
  show ?thesis
    unfolding Let_def
    using run [of int_str 0 "\<lparr>aa_version = ''1'', aa_started_at = 0, aa_sip_recorder = None\<rparr>"
        "\<lparr>pr_instance = ''as'', pr_ready = True, pr_health_extra = [], pr_resource = None, pr_resource_missing = []\<rparr>"] quiet
    by (elim conjE exE) (simp only: append_Nil2 simp_thms)
qed

end
