(* ===== verification/CallFeed.thy ===== *)
theory CallFeed
  imports CallTraces
begin

text \<open>
  The event feed while calls run: a client connects at some moment of a run and the feed looks
  at the recorder again and again, with any inputs in between.
\<close>

section \<open>Rounds of the feed\<close>

text \<open>The Call-IDs a client reads from a message of the feed.\<close>

definition trace_doc_id :: "json \<Rightarrow> string" where
  "trace_doc_id j = (case j of JObj d \<Rightarrow> (case map_of d ''call_id'' of Some (JStr s) \<Rightarrow> s | _ \<Rightarrow> []) | _ \<Rightarrow> [])"

definition announced :: "json \<Rightarrow> string list" where
  "announced doc = (case doc of JObj d \<Rightarrow>
     (case map_of d ''traces'' of Some (JList ts) \<Rightarrow> map trace_doc_id ts | _ \<Rightarrow> []) | _ \<Rightarrow> [])"

lemma announced_message: "announced (feed_message fmt batch) = map ct_call_id batch"
  by (simp add: announced_def feed_message_def comp_def trace_doc_id_def trace_payload_def)

text \<open>One round: with no more than fifty calls known, all that are new are announced.\<close>

lemma feed_round:
  assumes ok: "tracer_ok r" and few: "card (traced_ids r) \<le> 50" and seen: "set seen \<subseteq> traced_ids r"
  obtains (quiet) "feed_poll seen r r = (seen, None)" "traced_ids r = set seen"
  | (news) batch where "feed_poll seen r r = (known_call_ids r, Some batch)"
      "map ct_call_id batch = filter (\<lambda>c. c \<notin> set seen) (known_call_ids r)"
proof (cases "filter (\<lambda>c. c \<notin> set seen) (known_call_ids r) = []")
  case True
  then have "feed_poll seen r r = (seen, None)" by (simp add: feed_poll_def)
  moreover have "traced_ids r = set seen"
    using True seen by (auto simp: filter_empty_conv known_call_ids_def traced_ids_def)
  ultimately show ?thesis by (rule quiet)
next
  case False
  have "length (known_call_ids r) = card (traced_ids r)"
    using ok distinct_card [of "od_keys (tr_traces r)"] by (simp add: tracer_ok_def od_wf_def known_call_ids_def traced_ids_def)
  then have "recent WS_MAX_TRACES r = recent (int (length (known_call_ids r))) r"
    using few by (simp add: recent_def py_take_def WS_MAX_TRACES_def known_call_ids_def)
  moreover have "map ct_call_id (recent (int (length (known_call_ids r))) r) = known_call_ids r"
    by (simp add: recent_ids py_take_def)
  ultimately have ids: "map ct_call_id (recent WS_MAX_TRACES r) = known_call_ids r" by simp
  let ?new = "filter (\<lambda>c. c \<notin> set seen) (known_call_ids r)"
  let ?batch = "filter (\<lambda>t. ct_call_id t \<in> set ?new) (recent WS_MAX_TRACES r)"
  have "map ct_call_id ?batch = filter (\<lambda>c. c \<in> set ?new) (map ct_call_id (recent WS_MAX_TRACES r))"
    by (simp only: filter_map comp_def)
  also have "\<dots> = ?new" unfolding ids by (rule filter_cong) auto
  finally have "map ct_call_id ?batch = ?new" .
  moreover have "feed_poll seen r r = (known_call_ids r, Some ?batch)"
    using False by (simp add: feed_poll_def Let_def)
  ultimately show ?thesis by (rule news [rotated])
qed

fun growing :: "string set \<Rightarrow> trace_recorder list \<Rightarrow> bool" where
  "growing K [] = True"
| "growing K (r # rs) = (tracer_ok r \<and> card (traced_ids r) \<le> 50 \<and> K \<subseteq> traced_ids r \<and> growing (traced_ids r) rs)"

lemma growing_last: "growing K rs \<Longrightarrow> rs \<noteq> [] \<Longrightarrow> K \<subseteq> traced_ids (last rs)"
proof (induction rs arbitrary: K)
  case Nil
  then show ?case by simp
next
  case (Cons r rs)
  then show ?case using Cons.IH [of "traced_ids r"] by (cases "rs = []") auto
qed

text \<open>Along growing recorders every call that is new is announced once.\<close>

lemma feed_announces:
  assumes "growing (set seen) rs"
  shows "distinct (concat (map announced (feed_messages fmt seen rs)))
    \<and> set (concat (map announced (feed_messages fmt seen rs))) =
        (if rs = [] then {} else traced_ids (last rs)) - set seen"
  using assms
proof (induction rs arbitrary: seen)
  case Nil
  then show ?case by simp
next
  case (Cons r rs)
  have mono: "traced_ids r \<subseteq> (if rs = [] then traced_ids r else traced_ids (last rs))"
    using growing_last [of "traced_ids r" rs] Cons.prems by simp
  have r: "tracer_ok r" "card (traced_ids r) \<le> 50" "set seen \<subseteq> traced_ids r" "growing (traced_ids r) rs"
    using Cons.prems by simp_all
  show ?case
    using r(1-3)
  proof (cases rule: feed_round)
    case quiet
    then show ?thesis using Cons.IH [of seen] r(4) mono by (auto split: if_splits)
  next
    case (news batch)
    have k: "set (known_call_ids r) = traced_ids r" "distinct (known_call_ids r)"
      using r(1) by (simp_all add: known_call_ids_def traced_ids_def tracer_ok_def od_wf_def)
    then show ?thesis
      using Cons.IH [of "known_call_ids r"] r(3,4) mono
      by (auto simp: news announced_message split: if_splits)
  qed
qed

section \<open>The feed of a running system\<close>

fun recorders_after ::
    "hooks \<Rightarrow> ((string \<times> int) option \<Rightarrow> pyexc + controller) \<Rightarrow> sys_input list list \<Rightarrow> system \<Rightarrow> trace_recorder list" where
  "recorders_after hk build [] s = []"
| "recorders_after hk build (seg # segs) s =
     ob_tracer (w_obs (sy_world (sys_run hk build seg s))) # recorders_after hk build segs (sys_run hk build seg s)"

lemma recorders_after_Nil [simp]: "recorders_after hk build segs s = [] \<longleftrightarrow> segs = []"
  by (cases segs) simp_all

lemma recorders_grow:
  assumes hk: "decide_ok hk" "\<And>rq. inbound_ok hk rq" "builds_fresh build" "decide_books hk" "decide_traces hk"
    and w: "fresh_world w" "tr_traces (ob_tracer (w_obs w)) = []"
    and room: "int (card (set (request_ids allowed (before @ concat segs)))) \<le> min 50 (tr_max_calls (ob_tracer (w_obs w)))"
  shows "growing (set (request_ids allowed before))
      (recorders_after hk build segs (sys_run hk build before (new_system g allowed w)))
    \<and> (segs \<noteq> [] \<longrightarrow> traced_ids (last (recorders_after hk build segs (sys_run hk build before (new_system g allowed w)))) =
        set (request_ids allowed (before @ concat segs)))"
  using room
proof (induction segs arbitrary: before)
  case Nil
  then show ?case by simp
next
  case (Cons seg segs)
  let ?s = "sys_run hk build (before @ seg) (new_system g allowed w)"
  have room: "int (card (set (request_ids allowed ((before @ seg) @ concat segs)))) \<le> tr_max_calls (ob_tracer (w_obs w))"
      "card (set (request_ids allowed ((before @ seg) @ concat segs))) \<le> 50"
    using Cons.prems by simp_all
  have t: "traced_ids (tracer_of ?s) = set (request_ids allowed (before @ seg))" "tracer_ok (tracer_of ?s)"
    using traces_start(1,2) [OF hk w room(1) refl] by blast+
  have "card (set (request_ids allowed (before @ seg))) \<le> 50"
    by (rule le_trans [OF card_mono room(2)]) (auto simp: request_ids_append)
  moreover note Cons.IH [of "before @ seg"] Cons.prems
  ultimately show ?case
    by (auto simp: sys_run_append [symmetric] t request_ids_append simp del: sys_run_append)
qed

text \<open>
  C32: The console hears of every call once. Let a client of the event feed connect at any
  moment of a run and the feed do any number of rounds, with any inputs before each. While
  at most fifty Call-IDs leave a trace and the recorder has room for them, the Call-IDs of
  the messages sent are, without repetition, exactly those of the requests that arrived
  since the client connected and had not been seen before.
\<close>
theorem feed_announces_each_call_once:
  assumes "decide_ok hk" "\<forall>rq. inbound_ok hk rq" "builds_fresh build" "decide_books hk" "decide_traces hk"
    and "fresh_world w" "tr_traces (ob_tracer (w_obs w)) = []"
    and "int (card (set (request_ids allowed (before @ concat rounds)))) \<le> min 50 (tr_max_calls (ob_tracer (w_obs w)))"
  shows "let s = sys_run hk build before (new_system g allowed w);
             seen = known_call_ids (ob_tracer (w_obs (sy_world s)));
             sent = concat (map announced (feed_messages fmt seen (recorders_after hk build rounds s))) in
     distinct sent
   \<and> set sent = set (request_ids allowed (concat rounds)) - set (request_ids allowed before)"
proof -
  let ?s = "sys_run hk build before (new_system g allowed w)"
  have room: "int (card (set (request_ids allowed (before @ concat rounds)))) \<le> tr_max_calls (ob_tracer (w_obs w))"
    using assms(8) by simp
  have seen: "set (known_call_ids (tracer_of ?s)) = set (request_ids allowed before)"
    using traces_start(1) [OF assms(1) assms(2) [rule_format] assms(3-7) room refl]
    by (simp add: known_call_ids_def traced_ids_def)
  note grow = recorders_grow [OF assms(1) assms(2) [rule_format] assms(3-8), of g]
  have "growing (set (known_call_ids (tracer_of ?s))) (recorders_after hk build rounds ?s)"
    using grow by (simp add: seen)
  from feed_announces [OF this, of fmt] grow show ?thesis
    unfolding Let_def seen by (cases "rounds = []") (auto simp: seen request_ids_append)
qed

theorem feed_announces_each_call_once_witness:
  "let s = sys_run (sample_hooks sample_relay) sample_build [Trunk sample_request]
         (new_system sample_conf [''10.0.0.2''] sample_world) in
   concat (map announced (feed_messages int_str (known_call_ids (ob_tracer (w_obs (sy_world s))))
     (recorders_after (sample_hooks sample_relay) sample_build
        [[Trunk sample_second], [UaEvent 2 (CCEventTry sample_try)], [Trunk sample_second, Trunk sample_request]] s))) = [''c2'']"
proof -
  let ?rounds = "[[Trunk sample_second], [UaEvent 2 (CCEventTry sample_try)], [Trunk sample_second, Trunk sample_request]]"
  have ids: "set (request_ids [''10.0.0.2''] ([Trunk sample_request] @ concat ?rounds)) = {''c1'', ''c2''}"
    "set (request_ids [''10.0.0.2''] (concat ?rounds)) - set (request_ids [''10.0.0.2''] [Trunk sample_request]) = {''c2''}"
    by (auto simp: request_ids_def)
  have one: "xs = [x]" if "distinct xs \<and> set xs = {x}" for xs and x :: string
    using that by (cases xs; cases "tl xs") auto
  have ok: "\<forall>rq. inbound_ok (sample_hooks sample_relay) rq" using sample_inbound by blast
  have "int (card (set (request_ids [''10.0.0.2''] ([Trunk sample_request] @ concat ?rounds))))
      \<le> min 50 (tr_max_calls (ob_tracer (w_obs sample_world)))"
    unfolding ids sample_traces_ok(4) by simp
  note run = feed_announces_each_call_once [OF sample_decide_ok(1) ok sample_builds sample_traces_ok(1,2) sample_fresh
      sample_traces_ok(3) this, of sample_conf int_str, unfolded Let_def ids]
  show ?thesis unfolding Let_def by (rule one [OF run])
qed

end
