(* ===== verification/StateStore.thy ===== *)
theory StateStore
  imports AsErrors AsRecency
begin

text \<open>
  The state-store seam of \<^verbatim>\<open>state_store.py\<close>: the protocol as an interface and the in-memory
  store on an ordered dictionary as its provider. Values are opaque (a type variable).
\<close>

section \<open>The interface\<close>

text \<open>
  What a caller of the seam relies on. \<open>recency\<close> lists the keys from the least to the most
  recently used; \<open>trim\<close> drops, of one key family, all but the last \<open>limit\<close> of that list.
\<close>

locale state_store =
  fixes read_op :: "string \<Rightarrow> 's \<Rightarrow> 'v option \<times> 's"
    and write_op :: "string \<Rightarrow> 'v \<Rightarrow> 's \<Rightarrow> 's"
    and contents :: "'s \<Rightarrow> string \<Rightarrow> 'v option"
    and inv :: "'s \<Rightarrow> bool"
  assumes read_result: "inv s \<Longrightarrow> fst (read_op k s) = contents s k"
    and read_contents: "inv s \<Longrightarrow> contents (snd (read_op k s)) = contents s"
    and write_contents: "inv s \<Longrightarrow> contents (write_op k v s) = (contents s)(k := Some v)"
    and read_inv: "inv s \<Longrightarrow> inv (snd (read_op k s))"
    and write_inv: "inv s \<Longrightarrow> inv (write_op k v s)"
begin

lemma read_after_write: "inv s \<Longrightarrow> fst (read_op k (write_op k v s)) = Some v"
  by (simp add: read_result write_inv write_contents)

lemma read_after_other_write:
  "inv s \<Longrightarrow> j \<noteq> k \<Longrightarrow> fst (read_op j (write_op k v s)) = fst (read_op j s)"
  by (simp add: read_result write_inv write_contents)

end

definition family :: "string \<Rightarrow> string list \<Rightarrow> string list" where
  "family p ks = filter (\<lambda>k. startswith k p) ks"

locale lru_state_store = state_store read_op write_op contents inv
  for read_op :: "string \<Rightarrow> 's \<Rightarrow> 'v option \<times> 's"
    and write_op :: "string \<Rightarrow> 'v \<Rightarrow> 's \<Rightarrow> 's"
    and contents :: "'s \<Rightarrow> string \<Rightarrow> 'v option"
    and inv :: "'s \<Rightarrow> bool" +
  fixes trim_op :: "string \<Rightarrow> nat \<Rightarrow> 's \<Rightarrow> 's"
    and recency :: "'s \<Rightarrow> string list"
  assumes recency_dom: "inv s \<Longrightarrow> set (recency s) = dom (contents s) \<and> distinct (recency s)"
    and read_recency: "inv s \<Longrightarrow> recency (snd (read_op k s)) =
          (if k \<in> dom (contents s) then filter (\<lambda>j. j \<noteq> k) (recency s) @ [k] else recency s)"
    and write_recency: "inv s \<Longrightarrow> recency (write_op k v s) = filter (\<lambda>j. j \<noteq> k) (recency s) @ [k]"
    and trim_recency: "inv s \<Longrightarrow> recency (trim_op p n s) =
          filter (\<lambda>k. \<not> startswith k p \<or> k \<in> set (last_n n (family p (recency s)))) (recency s)"
    and trim_contents: "inv s \<Longrightarrow> contents (trim_op p n s) =
          (\<lambda>k. if k \<in> set (recency (trim_op p n s)) then contents s k else None)"
    and trim_inv: "inv s \<Longrightarrow> inv (trim_op p n s)"
begin

lemma family_trim: "inv s \<Longrightarrow> family p (recency (trim_op p n s)) = last_n n (family p (recency s))"
proof -
  assume i: "inv s"
  let ?F = "family p (recency s)"
  have d: "distinct ?F" using recency_dom [OF i] by (simp add: family_def)
  have "family p (recency (trim_op p n s)) = filter (\<lambda>k. k \<in> set (last_n n ?F)) ?F"
    by (simp only: trim_recency [OF i] family_def filter_filter) (rule filter_cong [OF refl], auto)
  also have "\<dots> = last_n n ?F" by (rule filter_last_n [OF d])
  finally show ?thesis .
qed

lemma family_other_trim:
  "inv s \<Longrightarrow> (\<And>k. startswith k p \<Longrightarrow> \<not> startswith k q) \<Longrightarrow>
   family p (recency (trim_op q n s)) = family p (recency s)"
  by (simp add: trim_recency family_def) (rule filter_cong [OF refl], auto)

text \<open>Writing under a family and trimming it at once, which is how a bounded structure is kept.\<close>

definition put :: "string \<Rightarrow> nat \<Rightarrow> 'v \<Rightarrow> string \<Rightarrow> 's \<Rightarrow> 's" where
  "put p n v k s = trim_op p n (write_op (p @ k) v s)"

lemma family_put:
  "inv s \<Longrightarrow> family p (recency (put p n v k s)) =
    last_n n (filter (\<lambda>j. j \<noteq> p @ k) (family p (recency s)) @ [p @ k])"
  by (simp add: put_def family_trim write_inv write_recency)
     (simp add: family_def conj_commute)

lemma put_inv: "inv s \<Longrightarrow> inv (put p n v k s)"
  by (simp add: put_def trim_inv write_inv)

lemma members_keys_put:
  assumes "inv s"
  shows "map (drop (length p)) (family p (recency (put p n v k s))) =
    last_n n (filter (\<lambda>j. j \<noteq> k) (map (drop (length p)) (family p (recency s))) @ [k])"
proof -
  have "map (drop (length p)) (filter (\<lambda>j. j \<noteq> p @ k) (family p xs)) =
      filter (\<lambda>j. j \<noteq> k) (map (drop (length p)) (family p xs))" for xs
    by (induction xs) (auto simp: family_def startswith_def, metis append_take_drop_id)
  then show ?thesis by (simp add: family_put [OF assms] map_last_n)
qed

lemma put_member: "inv s \<Longrightarrow> 0 < n \<Longrightarrow> contents (put p n v k s) (p @ k) = Some v"
proof -
  assume i: "inv s" and n: "0 < n"
  have "p @ k \<in> set (family p (recency (put p n v k s)))"
    using n by (cases n) (simp_all add: family_put [OF i] last_n_snoc)
  then have "p @ k \<in> set (recency (put p n v k s))" by (simp add: family_def)
  then show ?thesis by (simp add: put_def trim_contents write_inv write_contents i)
qed

end

text \<open>A bounded family of an LRU store is a recency store of its own.\<close>

sublocale lru_state_store \<subseteq> fam: recency_store "put p n v"
    "\<lambda>s. map (drop (length p)) (family p (recency s))" n inv for p n v
  by unfold_locales (simp_all add: members_keys_put put_inv)

section \<open>The in-memory store\<close>

record 'v mem_store =
  st_entries :: "(string, 'v) odict"

definition empty_store :: "'v mem_store" where
  "empty_store = \<lparr>st_entries = []\<rparr>"

definition mem_read :: "string \<Rightarrow> 'v mem_store \<Rightarrow> 'v option \<times> 'v mem_store" where
  "mem_read key s =
     (if map_of (st_entries s) key = None then (None, s)
      else (let d = od_move_to_end key (st_entries s) in (map_of d key, s\<lparr>st_entries := d\<rparr>)))"

definition mem_write :: "string \<Rightarrow> 'v \<Rightarrow> 'v mem_store \<Rightarrow> 'v mem_store" where
  "mem_write key v s = s\<lparr>st_entries := od_move_to_end key (AList.update key v (st_entries s))\<rparr>"

fun trim_loop :: "int \<Rightarrow> string list \<Rightarrow> (string, 'v) odict \<Rightarrow> (pyexc + unit) \<times> (string, 'v) odict" where
  "trim_loop limit [] d = (if limit < 0 then (Inl IndexError, d) else (Inr (), d))"
| "trim_loop limit (k # fam) d =
     (if limit < int (length (k # fam)) then trim_loop limit fam (AList.delete k d) else (Inr (), d))"

definition mem_trim :: "string \<Rightarrow> int \<Rightarrow> (pyexc, 'v mem_store) stmt" where
  "mem_trim prefx limit s =
     (case trim_loop limit (filter (\<lambda>k. startswith k prefx) (od_keys (st_entries s))) (st_entries s) of
        (r, d) \<Rightarrow> (r, s\<lparr>st_entries := d\<rparr>))"

text \<open>\<^verbatim>\<open>start\<close> and \<^verbatim>\<open>stop\<close>: there is nothing to start, and a stop keeps the records.\<close>

definition mem_start :: "(pyexc, 'v mem_store) stmt" where
  "mem_start s = (Inr (), s)"

definition mem_stop :: "(pyexc, 'v mem_store) stmt" where
  "mem_stop s = (Inr (), s)"

section \<open>The in-memory store keeps the promise\<close>

definition store_ok :: "'v mem_store \<Rightarrow> bool" where
  "store_ok s \<longleftrightarrow> od_wf (st_entries s)"

definition mem_keys :: "'v mem_store \<Rightarrow> string list" where
  "mem_keys s = od_keys (st_entries s)"

definition mem_contents :: "'v mem_store \<Rightarrow> string \<Rightarrow> 'v option" where
  "mem_contents s = map_of (st_entries s)"

text \<open>The victims of a trim: the family less its most recent keys.\<close>

lemma trim_loop_nonneg:
  "0 \<le> limit \<Longrightarrow> trim_loop limit fam d =
    (Inr (), filter (\<lambda>e. fst e \<notin> set (take (length fam - nat limit) fam)) d)"
proof (induction limit fam d rule: trim_loop.induct)
  case (1 limit d)
  then show ?case by simp
next
  case (2 limit k fam d)
  show ?case
  proof (cases "limit < int (length (k # fam))")
    case True
    then have "length (k # fam) - nat limit = Suc (length fam - nat limit)" using 2(2) by simp
    with True 2 show ?thesis by (simp add: delete_filter)
  next
    case False
    then show ?thesis by (simp add: nat_le_iff)
  qed
qed

lemma trim_loop_neg:
  "limit < 0 \<Longrightarrow> trim_loop limit fam d = (Inl IndexError, filter (\<lambda>e. fst e \<notin> set fam) d)"
  by (induction limit fam d rule: trim_loop.induct)
     (auto simp: delete_filter intro!: filter_cong [OF refl])

lemma mem_trim_nonneg:
  assumes "store_ok s"
  shows "mem_trim p (int n) s = (Inr (), s\<lparr>st_entries :=
    filter (\<lambda>e. \<not> startswith (fst e) p \<or> fst e \<in> set (last_n n (family p (mem_keys s)))) (st_entries s)\<rparr>)"
proof -
  let ?F = "family p (mem_keys s)"
  have d: "distinct ?F" using assms by (simp add: family_def mem_keys_def store_ok_def od_wf_def)
  have "filter (\<lambda>e. fst e \<notin> set (take (length ?F - n) ?F)) (st_entries s) =
      filter (\<lambda>e. \<not> startswith (fst e) p \<or> fst e \<in> set (last_n n ?F)) (st_entries s)"
    unfolding in_last_n_iff [OF d]
    by (rule filter_cong [OF refl]) (auto simp: family_def mem_keys_def dest: in_set_takeD)
  then show ?thesis
    by (simp add: mem_trim_def trim_loop_nonneg family_def mem_keys_def)
qed

abbreviation mem_trim_to :: "string \<Rightarrow> nat \<Rightarrow> 'v mem_store \<Rightarrow> 'v mem_store" where
  "mem_trim_to p n s \<equiv> snd (mem_trim p (int n) s)"

lemma mem_trim_keys:
  "store_ok s \<Longrightarrow> mem_keys (mem_trim_to p n s) =
    filter (\<lambda>k. \<not> startswith k p \<or> k \<in> set (last_n n (family p (mem_keys s)))) (mem_keys s)"
  by (simp add: mem_trim_nonneg mem_keys_def filter_map comp_def)

lemma mem_trim_ok: "store_ok s \<Longrightarrow> store_ok (mem_trim_to p n s)"
  by (simp add: mem_trim_nonneg store_ok_def od_wf_def distinct_map_filter)

lemma map_of_filter_key: "map_of (filter (\<lambda>e. P (fst e)) d) k = (if P k then map_of d k else None)"
  by (induction d) auto

interpretation mem: lru_state_store mem_read mem_write mem_contents store_ok mem_trim_to mem_keys
proof unfold_locales
  fix s :: "'v mem_store" and p k n v
  assume ok: "store_ok s"
  show "fst (mem_read k s) = mem_contents s k" "mem_contents (snd (mem_read k s)) = mem_contents s"
    "store_ok (snd (mem_read k s))"
    using ok by (simp_all add: mem_read_def mem_contents_def Let_def store_ok_def)
  show "mem_contents (mem_write k v s) = (mem_contents s)(k := Some v)" "store_ok (mem_write k v s)"
    using ok by (simp_all add: mem_write_def mem_contents_def store_ok_def update_conv')
  show "set (mem_keys s) = dom (mem_contents s) \<and> distinct (mem_keys s)"
    using ok by (simp add: mem_keys_def mem_contents_def store_ok_def od_wf_def dom_map_of_conv_image_fst)
  show "mem_keys (snd (mem_read k s)) =
      (if k \<in> dom (mem_contents s) then filter (\<lambda>j. j \<noteq> k) (mem_keys s) @ [k] else mem_keys s)"
  proof (cases "map_of (st_entries s) k")
    case (Some w)
    then have "k \<in> set (od_keys (st_entries s))" by (auto dest: map_of_SomeD intro: rev_image_eqI)
    with Some show ?thesis
      by (simp add: mem_read_def mem_keys_def mem_contents_def Let_def keys_move_to_end domIff del: set_map)
  qed (simp add: mem_read_def mem_contents_def domIff)
  show "mem_keys (mem_write k v s) = filter (\<lambda>j. j \<noteq> k) (mem_keys s) @ [k]"
    by (simp add: mem_write_def mem_keys_def keys_touch)
  show "mem_keys (mem_trim_to p n s) =
      filter (\<lambda>k. \<not> startswith k p \<or> k \<in> set (last_n n (family p (mem_keys s)))) (mem_keys s)"
    using ok by (rule mem_trim_keys)
  show "store_ok (mem_trim_to p n s)" using ok by (rule mem_trim_ok)
  show "mem_contents (mem_trim_to p n s) =
      (\<lambda>k. if k \<in> set (mem_keys (mem_trim_to p n s)) then mem_contents s k else None)"
  proof (rule ext)
    fix j
    let ?P = "\<lambda>k. \<not> startswith k p \<or> k \<in> set (last_n n (family p (mem_keys s)))"
    have "mem_contents (mem_trim_to p n s) j = (if ?P j then mem_contents s j else None)"
      using map_of_filter_key [of ?P "st_entries s" j]
      by (simp only: mem_trim_nonneg [OF ok] mem_contents_def snd_conv mem_store.select_convs mem_store.update_convs)
         (cases "st_entries s", simp_all)
    moreover have "j \<in> set (mem_keys (mem_trim_to p n s)) \<longleftrightarrow> j \<in> set (mem_keys s) \<and> ?P j"
      by (simp only: mem_trim_keys [OF ok] set_filter mem_Collect_eq)
    moreover have "j \<notin> set (mem_keys s) \<Longrightarrow> mem_contents s j = None"
      by (simp add: mem_contents_def mem_keys_def map_of_eq_None_iff)
    ultimately show "mem_contents (mem_trim_to p n s) j =
        (if j \<in> set (mem_keys (mem_trim_to p n s)) then mem_contents s j else None)"
      by presburger
  qed
qed

section \<open>Two bounded structures in one store\<close>

text \<open>
  The operations the caller-state structures perform on the shared store: reading a key of
  a family, and writing one followed by the trim of that family.
\<close>

datatype 'v store_op = ReadKey string | PutKey string nat string 'v

fun apply_store_op :: "'v store_op \<Rightarrow> 'v mem_store \<Rightarrow> 'v mem_store" where
  "apply_store_op (ReadKey k) s = snd (mem_read k s)"
| "apply_store_op (PutKey p n k v) s = mem_trim_to p n (mem_write (p @ k) v s)"

text \<open>The operations that concern a family.\<close>

fun op_in_family :: "string \<Rightarrow> 'v store_op \<Rightarrow> bool" where
  "op_in_family p (ReadKey k) = startswith k p"
| "op_in_family p (PutKey q n k v) = (q = p)"

fun op_other_family :: "string \<Rightarrow> 'v store_op \<Rightarrow> bool" where
  "op_other_family p (ReadKey k) = (\<not> startswith k p)"
| "op_other_family p (PutKey q n k v) = (\<not> prefix p q \<and> \<not> prefix q p)"

text \<open>What the owner of a family sees of the store: its keys in recency order, with the values.\<close>

definition family_view :: "string \<Rightarrow> 'v mem_store \<Rightarrow> (string \<times> 'v option) list" where
  "family_view p s = map (\<lambda>k. (k, mem_contents s k)) (family p (mem_keys s))"

lemma disjoint_families: "\<not> prefix p q \<Longrightarrow> \<not> prefix q p \<Longrightarrow> startswith k p \<Longrightarrow> \<not> startswith k q"
  by (metis prefix_same_cases startswith_iff_prefix)

lemma family_view_cong:
  "family p (mem_keys s) = family p (mem_keys t) \<Longrightarrow>
   (\<And>k. k \<in> set (family p (mem_keys s)) \<Longrightarrow> mem_contents s k = mem_contents t k) \<Longrightarrow>
   family_view p s = family_view p t"
  by (simp add: family_view_def)

lemma family_view_keys: "family p (mem_keys s) = map fst (family_view p s)"
  by (simp add: family_view_def comp_def)

lemma family_view_contents:
  assumes "store_ok s" "startswith k p"
  shows "mem_contents s k = (case map_of (family_view p s) k of None \<Rightarrow> None | Some v \<Rightarrow> v)"
proof (cases "k \<in> set (mem_keys s)")
  case True
  then show ?thesis using assms by (simp add: family_view_def family_def map_of_map_restrict)
next
  case False
  then have "mem_contents s k = None" using mem.recency_dom [OF assms(1)] by (auto simp: domIff)
  moreover have "map_of (family_view p s) k = None"
    using False by (auto simp: map_of_eq_None_iff family_view_def family_def)
  ultimately show ?thesis by simp
qed

lemma filter_neq_family: "\<not> startswith k p \<Longrightarrow> family p (filter (\<lambda>j. j \<noteq> k) xs @ [k]) = family p xs"
  by (induction xs) (auto simp: family_def)

lemma family_touch: "startswith k p \<Longrightarrow>
    family p (filter (\<lambda>j. j \<noteq> k) xs @ [k]) = filter (\<lambda>j. j \<noteq> k) (family p xs) @ [k]"
  by (simp add: family_def conj_commute)

lemma store_op_ok: "store_ok s \<Longrightarrow> store_ok (apply_store_op x s)"
  by (cases x) (simp_all add: mem.read_inv mem.write_inv mem.trim_inv)

lemma other_family_untouched:
  assumes "store_ok s" "op_other_family p x"
  shows "family_view p (apply_store_op x s) = family_view p s"
proof (cases x)
  case (ReadKey k)
  then show ?thesis
    using assms by (intro family_view_cong)
      (auto simp: mem.read_recency mem.read_contents filter_neq_family)
next
  case (PutKey q n k v)
  let ?w = "mem_write (q @ k) v s"
  have w: "store_ok ?w" using assms(1) by (rule mem.write_inv)
  have dis: "startswith j p \<Longrightarrow> \<not> startswith j q" for j
    using assms(2) PutKey disjoint_families by fastforce
  then have npk: "\<not> startswith (q @ k) p" using dis [of "q @ k"] by auto
  have "family p (mem_keys (mem_trim_to q n ?w)) = family p (mem_keys ?w)"
    using w dis by (rule mem.family_other_trim)
  also have "\<dots> = family p (mem_keys s)"
    using assms(1) npk by (simp add: mem.write_recency filter_neq_family)
  finally have keys: "family p (mem_keys (mem_trim_to q n ?w)) = family p (mem_keys s)" .
  have "mem_contents (mem_trim_to q n ?w) j = mem_contents s j"
    if "j \<in> set (family p (mem_keys (mem_trim_to q n ?w)))" for j
  proof -
    have "j \<in> set (mem_keys (mem_trim_to q n ?w))" "j \<noteq> q @ k"
      using that npk by (auto simp: family_def)
    then show ?thesis using assms(1) by (simp add: mem.trim_contents [OF w] mem.write_contents)
  qed
  with keys have "family_view p (mem_trim_to q n ?w) = family_view p s" by (rule family_view_cong)
  then show ?thesis by (simp only: PutKey apply_store_op.simps)
qed

lemma own_family_local:
  assumes "store_ok s" "store_ok t" "op_in_family p x" "family_view p s = family_view p t"
  shows "family_view p (apply_store_op x s) = family_view p (apply_store_op x t)"
proof -
  have keys: "family p (mem_keys s) = family p (mem_keys t)"
    using assms(4) by (simp only: family_view_keys)
  have cont: "mem_contents s k = mem_contents t k" if "startswith k p" for k
    using that assms by (simp add: family_view_contents)
  show ?thesis
  proof (cases x)
    case (ReadKey k)
    then show ?thesis
      using assms keys cont
      by (intro family_view_cong)
         (auto simp: mem.read_recency mem.read_contents family_touch domIff, auto simp: family_def)
  next
    case (PutKey q n k v)
    with assms(3) have q: "q = p" by simp
    let ?ws = "mem_write (p @ k) v s" and ?wt = "mem_write (p @ k) v t"
    have w: "store_ok ?ws" "store_ok ?wt" using assms(1,2) by (simp_all add: mem.write_inv)
    have k2: "family p (mem_keys (mem_trim_to p n ?ws)) = family p (mem_keys (mem_trim_to p n ?wt))"
      using assms(1,2) keys by (simp add: mem.family_trim w mem.write_recency family_touch)
    have "mem_contents (mem_trim_to p n ?ws) j = mem_contents (mem_trim_to p n ?wt) j"
      if j: "j \<in> set (family p (mem_keys (mem_trim_to p n ?ws)))" for j
    proof -
      have "j \<in> set (mem_keys (mem_trim_to p n ?ws))" "j \<in> set (mem_keys (mem_trim_to p n ?wt))"
        "startswith j p"
        using j j [unfolded k2] by (simp_all add: family_def)
      then show ?thesis
        using cont assms(1,2) by (simp add: mem.trim_contents w mem.write_contents)
    qed
    with k2 have "family_view p (mem_trim_to p n ?ws) = family_view p (mem_trim_to p n ?wt)"
      by (rule family_view_cong)
    then show ?thesis by (simp only: PutKey q apply_store_op.simps)
  qed
qed

text \<open>
  Two bounded structures share one store without seeing each other. Run any sequence of
  reads and of writes-with-trim in which every operation belongs to the family \<open>p\<close> or to a
  family disjoint from it: the keys, the recency order and the values of \<open>p\<close> are those of
  running the operations of \<open>p\<close> alone, so each structure has exactly its own bound.
\<close>
lemma store_families_independent:
  assumes "store_ok s" and "\<forall>x\<in>set xs. op_in_family p x \<or> op_other_family p x"
  shows "family_view p (fold apply_store_op xs s) =
    family_view p (fold apply_store_op (filter (op_in_family p) xs) s)"
proof -
  have "store_ok s \<Longrightarrow> store_ok t \<Longrightarrow> family_view p s = family_view p t \<Longrightarrow>
      \<forall>x\<in>set xs. op_in_family p x \<or> op_other_family p x \<Longrightarrow>
      family_view p (fold apply_store_op xs s) =
      family_view p (fold apply_store_op (filter (op_in_family p) xs) t)" for t
  proof (induction xs arbitrary: s t)
    case Nil
    then show ?case by simp
  next
    case (Cons x xs)
    have rest: "\<forall>y\<in>set xs. op_in_family p y \<or> op_other_family p y" using Cons.prems(4) by simp
    have ok: "store_ok (apply_store_op x s)" "store_ok (apply_store_op x t)"
      using Cons.prems(1,2) by (simp_all add: store_op_ok)
    show ?case
    proof (cases "op_in_family p x")
      case True
      then have "family_view p (apply_store_op x s) = family_view p (apply_store_op x t)"
        using Cons.prems(1-3) own_family_local by blast
      from Cons.IH [OF ok this rest] True show ?thesis by simp
    next
      case False
      then have "family_view p (apply_store_op x s) = family_view p t"
        using Cons.prems other_family_untouched by fastforce
      from Cons.IH [OF ok(1) Cons.prems(2) this rest] False show ?thesis by simp
    qed
  qed
  then show ?thesis using assms by blast
qed

text \<open>
  C21: The bound of a structure is exact. After any sequence of bounded writes under one
  prefix, the keys kept are, in recency order, the last \<open>n\<close> distinct keys written, each with
  its own prefix; the latest write is readable; and trimming with a negative limit fails
  with IndexError after the whole family has been deleted.
\<close>
theorem bounded_family_exact:
  "map (drop (length p)) (family p (mem_keys (fold apply_store_op (map (\<lambda>k. PutKey p n k v) ks) empty_store))) =
     last_n n (remdups ks)
   \<and> (store_ok s \<and> 0 < n \<longrightarrow> fst (mem_read (p @ k) (apply_store_op (PutKey p n k v) s)) = Some v)
   \<and> (store_ok s \<and> limit < 0 \<longrightarrow> fst (mem_trim p limit s) = Inl IndexError
        \<and> family p (mem_keys (snd (mem_trim p limit s))) = [])"
proof (intro conjI impI)
  have ok: "store_ok (empty_store :: 'a mem_store)" by (simp add: store_ok_def empty_store_def)
  have "fold apply_store_op (map (\<lambda>k. PutKey p n k v) ks) = fold (mem.put p n v) ks"
    by (induction ks) (simp_all add: mem.put_def fun_eq_iff)
  then show "map (drop (length p)) (family p (mem_keys (fold apply_store_op
      (map (\<lambda>k. PutKey p n k v) ks) empty_store))) = last_n n (remdups ks)"
    using mem.fam.keys_after [OF ok, where p = p and ks = ks and n = n and v = v] by (simp add: empty_store_def mem_keys_def family_def)
next
  assume "store_ok s \<and> 0 < n"
  then show "fst (mem_read (p @ k) (apply_store_op (PutKey p n k v) s)) = Some v"
    using mem.put_member [of s n p v k] mem.put_inv [of s p n v k]
    by (simp add: mem.put_def mem.read_result)
next
  assume *: "store_ok s \<and> limit < 0"
  then show "fst (mem_trim p limit s) = Inl IndexError"
    by (simp add: mem_trim_def trim_loop_neg)
  show "family p (mem_keys (snd (mem_trim p limit s))) = []"
    using * by (auto simp: mem_trim_def trim_loop_neg family_def mem_keys_def filter_empty_conv)
qed

theorem bounded_family_exact_witness:
  "fst (mem_read ''w:a'' (apply_store_op (PutKey ''w:'' 2 ''a'' (5::int)) empty_store)) = Some 5"
  using bounded_family_exact [of "''w:''" 2 "5 :: int" "[]" empty_store "''a''" "- 1"]
  by (simp add: store_ok_def empty_store_def del: apply_store_op.simps)

end
