(* ===== verification/RedisStore.thy ===== *)
theory RedisStore
  imports StateStore JsonDoc "HOL-Library.Multiset"
begin

text \<open>
  \<^verbatim>\<open>RedisStateStore\<close> of \<^verbatim>\<open>state_store.py\<close>: the work items, the queue between callers and the
  worker thread, the waits that may time out, and the three operations the worker performs
  on the client. The Redis client is third-party, a parameter: each of its commands changes
  the server's state and returns or raises. A step is one of the points at which the threads
  of the process can interleave.
\<close>

section \<open>The client\<close>

text \<open>A stored value: a text that parses to a document, or one that does not.\<close>

datatype raw_value = JsonText json | OtherText string

record 's redis_api =
  ra_get :: "string \<Rightarrow> (pyexc, 's, raw_value option) prog"
  ra_set :: "string \<Rightarrow> raw_value \<Rightarrow> (pyexc, 's) stmt"
  ra_scan :: "string \<Rightarrow> (pyexc, 's, string list) prog"
  ra_idle :: "string \<Rightarrow> (pyexc, 's, int option) prog"
  ra_delete :: "string \<Rightarrow> (pyexc, 's) stmt"

section \<open>Work items\<close>

datatype redis_op = OpRead | OpWrite | OpTrim

record work_item =
  wi_op :: redis_op
  wi_key :: string
  wi_value :: "json option"
  wi_limit :: "int option"
  wi_event :: bool
  wi_result :: pyobj
  wi_error :: "pyexc option"

definition mk_work_item :: "redis_op \<Rightarrow> string \<Rightarrow> json option \<Rightarrow> int option \<Rightarrow> work_item" where
  "mk_work_item op key v limit = \<lparr>wi_op = op, wi_key = key, wi_value = v, wi_limit = limit,
     wi_event = False, wi_result = ONone, wi_error = None\<rparr>"

section \<open>Trimming\<close>

text \<open>The idle time of every key that was listed; a key listed twice is asked twice.\<close>

fun read_idle :: "'s redis_api \<Rightarrow> string list \<Rightarrow> (string, int) odict \<Rightarrow> (pyexc, 's, (string, int) odict) prog" where
  "read_idle api [] d = ret d"
| "read_idle api (k # ks) d = bindp (ra_idle api k)
     (\<lambda>t. read_idle api ks (AList.update k (case t of None \<Rightarrow> 0 | Some i \<Rightarrow> i) d))"

text \<open>\<open>sorted(..., reverse=True)\<close> by idle time: the most idle first, ties in listing order.\<close>

definition evict_order :: "(string, int) odict \<Rightarrow> string list" where
  "evict_order d = map fst (sort_key (\<lambda>kv. - snd kv) d)"

fun delete_each :: "'s redis_api \<Rightarrow> string list \<Rightarrow> (pyexc, 's) stmt" where
  "delete_each api [] = ret ()"
| "delete_each api (k # ks) = bindp (ra_delete api k) (\<lambda>_. delete_each api ks)"

definition trim_keys :: "'s redis_api \<Rightarrow> string \<Rightarrow> int \<Rightarrow> (pyexc, 's) stmt" where
  "trim_keys api p limit = bindp (ra_scan api (p @ ''*'')) (\<lambda>keys.
     if limit < int (length keys)
     then bindp (read_idle api keys []) (\<lambda>d.
       delete_each api (py_take (int (length keys) - limit) (evict_order d)))
     else ret ())"

section \<open>One item on the worker\<close>

text \<open>The value assigned to the item's result; a client that is \<^verbatim>\<open>None\<close> has no commands.\<close>

definition run_item :: "'s redis_api \<Rightarrow> bool \<Rightarrow> work_item \<Rightarrow> (pyexc, 's, pyobj) prog" where
  "run_item api client it =
     (if \<not> client then raise AttributeError
      else case wi_op it of
        OpRead \<Rightarrow> bindp (ra_get api (wi_key it)) (\<lambda>raw. case raw of
            None \<Rightarrow> ret ONone
          | Some (JsonText j) \<Rightarrow> ret (loads j)
          | Some (OtherText _) \<Rightarrow> raise ValueError)
      | OpWrite \<Rightarrow> bindp (case wi_value it of None \<Rightarrow> raise (OtherExc ''DataError'')
                         | Some j \<Rightarrow> ra_set api (wi_key it) (JsonText j)) (\<lambda>_. ret ONone)
      | OpTrim \<Rightarrow> bindp (trim_keys api (wi_key it) (case wi_limit it of None \<Rightarrow> 0 | Some l \<Rightarrow> l))
                   (\<lambda>_. ret ONone))"

definition item_done :: "work_item \<Rightarrow> work_item" where [simp]:
  "item_done it = it\<lparr>wi_event := True\<rparr>"

definition finish_item :: "pyexc + pyobj \<Rightarrow> work_item \<Rightarrow> work_item" where
  "finish_item r it = item_done (case r of Inl e \<Rightarrow> it\<lparr>wi_error := Some e\<rparr>
     | Inr v \<Rightarrow> it\<lparr>wi_result := v\<rparr>)"

section \<open>The store\<close>

text \<open>
  Work items are numbered in the order of the calls; the queue holds numbers. A worker thread
  is between two items, has taken one, or has left its loop.
\<close>

datatype worker = Idle | Busy nat | Ended

record 's redis_store =
  rs_items :: "work_item list"
  rs_queue :: "nat list"
  rs_running :: bool
  rs_client :: bool
  rs_worker :: bool
  rs_threads :: "worker list"
  rs_server :: 's

definition mk_redis_store :: "'s \<Rightarrow> 's redis_store" where
  "mk_redis_store srv = \<lparr>rs_items = [], rs_queue = [], rs_running = False, rs_client = False,
     rs_worker = False, rs_threads = [], rs_server = srv\<rparr>"

text \<open>What the attempt to connect meets.\<close>

datatype connect = NoPackage | BadUrl | PingFails pyexc | PingOk

definition redis_start :: "connect \<Rightarrow> (pyexc, 's redis_store) stmt" where
  "redis_start c = (case c of
     NoPackage \<Rightarrow> raise (OtherExc ''ImportError'')
   | BadUrl \<Rightarrow> raise ValueError
   | PingFails e \<Rightarrow> block [upd (\<lambda>s. s\<lparr>rs_client := True\<rparr>), raise e]
   | PingOk \<Rightarrow> upd (\<lambda>s. s\<lparr>rs_client := True, rs_running := True, rs_worker := True,
                            rs_threads := rs_threads s @ [Idle]\<rparr>))"

text \<open>\<^verbatim>\<open>stop\<close>: the flag first; the join gives the worker two seconds; then the client goes.\<close>

definition stop_flag :: "'s redis_store \<Rightarrow> 's redis_store" where
  "stop_flag s = s\<lparr>rs_running := False\<rparr>"

definition stop_release :: "'s redis_store \<Rightarrow> 's redis_store" where
  "stop_release s = s\<lparr>rs_worker := False, rs_client := False\<rparr>"

datatype redis_call = ReadCall string | WriteCall string pyobj | TrimCall string int

fun item_of :: "redis_call \<Rightarrow> pyexc + work_item" where
  "item_of (ReadCall k) = Inr (mk_work_item OpRead k None None)"
| "item_of (WriteCall k v) = (case dumps v of Inl e \<Rightarrow> Inl e | Inr j \<Rightarrow> Inr (mk_work_item OpWrite k (Some j) None))"
| "item_of (TrimCall p n) = Inr (mk_work_item OpTrim p None (Some n))"

text \<open>The first half of a call puts the item into the queue, the second half reads it.\<close>

definition begin_call :: "redis_call \<Rightarrow> (pyexc, 's redis_store, nat) prog" where
  "begin_call call = (case item_of call of Inl e \<Rightarrow> raise e
     | Inr it \<Rightarrow> (\<lambda>s. (Inr (length (rs_items s)),
         s\<lparr>rs_items := rs_items s @ [it], rs_queue := rs_queue s @ [length (rs_items s)]\<rparr>)))"

definition outcome :: "work_item \<Rightarrow> pyexc + pyobj" where
  "outcome it = (case wi_error it of Some e \<Rightarrow> Inl e | None \<Rightarrow> Inr (wi_result it))"

definition end_call :: "'s redis_store \<Rightarrow> nat \<Rightarrow> pyexc + pyobj" where
  "end_call s i = outcome (rs_items s ! i)"

text \<open>The worker's loop: the test and the get, the work on an item, and leaving the loop.\<close>

definition worker_take :: "nat \<Rightarrow> 's redis_store \<Rightarrow> 's redis_store" where
  "worker_take t s = (case rs_queue s of [] \<Rightarrow> s
     | i # q \<Rightarrow> if t < length (rs_threads s) \<and> rs_threads s ! t = Idle
                then s\<lparr>rs_queue := q, rs_threads := (rs_threads s)[t := Busy i]\<rparr> else s)"

definition worker_work :: "'s redis_api \<Rightarrow> nat \<Rightarrow> 's redis_store \<Rightarrow> 's redis_store" where
  "worker_work api t s =
     (if t < length (rs_threads s) then
        (case rs_threads s ! t of
           Busy i \<Rightarrow> (case run_item api (rs_client s) (rs_items s ! i) (rs_server s) of
             (r, srv) \<Rightarrow> s\<lparr>rs_items := (rs_items s)[i := finish_item r (rs_items s ! i)], rs_server := srv,
                           rs_threads := (rs_threads s)[t := Idle]\<rparr>)
         | _ \<Rightarrow> s)
      else s)"

definition worker_exit :: "nat \<Rightarrow> 's redis_store \<Rightarrow> 's redis_store" where
  "worker_exit t s =
     (if t < length (rs_threads s) \<and> rs_threads s ! t = Idle \<and> \<not> rs_running s \<and> rs_queue s = []
      then s\<lparr>rs_threads := (rs_threads s)[t := Ended]\<rparr> else s)"

text \<open>The steps between a start and the release of the client.\<close>

datatype redis_step = Call redis_call | Take nat | Work nat | Exit nat | StopFlag

fun redis_do :: "'s redis_api \<Rightarrow> redis_step \<Rightarrow> 's redis_store \<Rightarrow> 's redis_store" where
  "redis_do api (Call call) s = snd (begin_call call s)"
| "redis_do api (Take t) s = worker_take t s"
| "redis_do api (Work t) s = worker_work api t s"
| "redis_do api (Exit t) s = worker_exit t s"
| "redis_do api StopFlag s = stop_flag s"

definition redis_run :: "'s redis_api \<Rightarrow> redis_step list \<Rightarrow> 's redis_store \<Rightarrow> 's redis_store" where
  "redis_run api steps s = fold (redis_do api) steps s"

text \<open>
  \<^verbatim>\<open>_run\<close> as the loop it is, when no other thread steps in: \<open>None\<close> is a loop that has not
  ended after \<open>fuel\<close> rounds.
\<close>

fun worker_loop :: "'s redis_api \<Rightarrow> nat \<Rightarrow> 's redis_store \<Rightarrow> 's redis_store option" where
  "worker_loop api 0 s = None"
| "worker_loop api (Suc fuel) s =
     (if rs_running s \<or> rs_queue s \<noteq> [] then
        (if rs_queue s = [] then worker_loop api fuel s
         else worker_loop api fuel (worker_work api 0 (worker_take 0 s)))
      else Some (worker_exit 0 s))"

section \<open>The sequential store\<close>

text \<open>What a store without queue and threads does: the calls one after the other.\<close>

fun serve_all :: "'s redis_api \<Rightarrow> work_item list \<Rightarrow> 's \<Rightarrow> (pyexc + pyobj) list \<times> 's" where
  "serve_all api [] srv = ([], srv)"
| "serve_all api (it # its) srv = (case run_item api True it srv of (r, srv') \<Rightarrow>
     (case serve_all api its srv' of (rs, srv'') \<Rightarrow> (r # rs, srv'')))"

text \<open>The items of the calls a sequence of steps makes; a value that cannot be encoded makes none.\<close>

definition accepted :: "redis_step list \<Rightarrow> work_item list" where
  "accepted steps = concat (map (\<lambda>s. case s of
     Call c \<Rightarrow> (case item_of c of Inl _ \<Rightarrow> [] | Inr it \<Rightarrow> [it]) | _ \<Rightarrow> []) steps)"

definition fresh_item :: "work_item \<Rightarrow> bool" where
  "fresh_item it \<longleftrightarrow> \<not> wi_event it \<and> wi_error it = None \<and> wi_result it = ONone"

lemma serve_all_snoc:
  "serve_all api (its @ [it]) srv = (case serve_all api its srv of (rs, srv') \<Rightarrow>
     (case run_item api True it srv' of (r, srv'') \<Rightarrow> (rs @ [r], srv'')))"
  by (induction its arbitrary: srv) (auto split: prod.splits)

lemma length_serve_all [simp]: "length (fst (serve_all api its srv)) = length its"
  by (induction its arbitrary: srv) (auto split: prod.splits, metis fst_conv)

lemma item_of_fresh: "item_of c = Inr it \<Longrightarrow> fresh_item it"
  by (cases c) (auto simp: mk_work_item_def fresh_item_def split: sum.splits)

lemma accepted_fresh: "list_all fresh_item (accepted steps)"
  by (auto simp: accepted_def list_all_iff intro: item_of_fresh split: redis_step.splits sum.splits)

lemma accepted_snoc: "accepted (steps @ [st]) = accepted steps @ accepted [st]"
  by (simp add: accepted_def)

lemma outcome_finish: "fresh_item it \<Longrightarrow> outcome (finish_item r it) = r"
  by (simp add: outcome_def finish_item_def fresh_item_def split: sum.splits)

lemma outcome_fresh: "fresh_item it \<Longrightarrow> outcome it = Inr ONone"
  by (simp add: outcome_def fresh_item_def)

section \<open>The invariant of the queue\<close>

text \<open>
  \<open>serving\<close>: with \<open>its\<close> the items of all calls so far, the first \<open>n\<close> are finished with the
  results of the sequential store, the server is where the sequential store left it, and the
  others are untouched and queued in order, but for the one the worker holds.
\<close>

fun worker_ok :: "nat \<Rightarrow> nat \<Rightarrow> nat list \<Rightarrow> worker \<Rightarrow> bool" where
  "worker_ok n len q (Busy i) = (i = n \<and> n < len \<and> q = [Suc n..<len])"
| "worker_ok n len q _ = (q = [n..<len])"

definition serving :: "'s redis_api \<Rightarrow> 's \<Rightarrow> work_item list \<Rightarrow> nat \<Rightarrow> 's redis_store \<Rightarrow> bool" where
  "serving api srv its n s \<longleftrightarrow> rs_client s \<and> n \<le> length its
   \<and> rs_items s = map2 finish_item (fst (serve_all api (take n its) srv)) (take n its) @ drop n its
   \<and> rs_server s = snd (serve_all api (take n its) srv)
   \<and> (\<exists>th. rs_threads s = [th] \<and> worker_ok n (length its) (rs_queue s) th)"

lemma serving_length: "serving api srv its n s \<Longrightarrow> length (rs_items s) = length its"
  by (simp add: serving_def)

lemma serving_item: "serving api srv its n s \<Longrightarrow> n < length its \<Longrightarrow> rs_items s ! n = its ! n"
  by (simp add: serving_def nth_append)

lemma serving_call:
  assumes "serving api srv its n s"
  shows "serving api srv (its @ accepted [Call c]) n (snd (begin_call c s))"
proof (cases "item_of c")
  case (Inl e)
  then show ?thesis using assms by (simp add: begin_call_def accepted_def)
next
  case (Inr it)
  obtain th where th: "rs_threads s = [th]" "worker_ok n (length its) (rs_queue s) th" "n \<le> length its"
    using assms by (auto simp: serving_def)
  have "worker_ok n (Suc (length its)) (rs_queue s @ [length its]) th"
    using th(2,3) by (cases th) simp_all
  then show ?thesis
    using assms th(1) serving_length [OF assms]
    by (simp add: serving_def begin_call_def accepted_def Inr)
qed

lemma serving_take: "serving api srv its n s \<Longrightarrow> serving api srv its n (worker_take t s)"
proof -
  assume a: "serving api srv its n s"
  obtain th where th: "rs_threads s = [th]" "worker_ok n (length its) (rs_queue s) th"
    using a by (auto simp: serving_def)
  show ?thesis
  proof (cases "rs_queue s")
    case Nil
    then show ?thesis using a by (simp add: worker_take_def)
  next
    case (Cons i q)
    show ?thesis
    proof (cases "t = 0 \<and> th = Idle")
      case True
      then have "i # q = [n..<length its]" using th Cons by simp
      then have "i = n" "n < length its" "q = [Suc n..<length its]"
        by (metis list.inject upt_eq_Nil_conv not_less upt_conv_Cons list.discI)+
      moreover have "worker_take t s = s\<lparr>rs_queue := q, rs_threads := [Busy i]\<rparr>"
        using True th(1) Cons by (simp add: worker_take_def)
      ultimately show ?thesis using a by (simp add: serving_def)
    next
      case False
      then show ?thesis using a th(1) Cons by (auto simp: worker_take_def)
    qed
  qed
qed

lemma serving_busy:
  assumes "serving api srv its n s" "rs_threads s = [Busy i]"
  shows "serving api srv its (Suc n) (worker_work api 0 s)" "rs_threads (worker_work api 0 s) = [Idle]"
    "rs_queue (worker_work api 0 s) = rs_queue s" "rs_running (worker_work api 0 s) = rs_running s"
proof -
  have b: "i = n" "n < length its" "rs_queue s = [Suc n..<length its]"
    using assms by (auto simp: serving_def)
  let ?rs = "fst (serve_all api (take n its) srv)" and ?srv = "snd (serve_all api (take n its) srv)"
  obtain r srv' where r: "run_item api True (its ! n) ?srv = (r, srv')" by (cases "run_item api True (its ! n) ?srv")
  have s: "rs_client s" "rs_server s = ?srv"
    "rs_items s = map2 finish_item ?rs (take n its) @ its ! n # drop (Suc n) its"
    using assms(1) b(2) by (simp_all add: serving_def Cons_nth_drop_Suc)
  have len: "length (map2 finish_item ?rs (take n its)) = n" using b(2) by simp
  have next_one: "serve_all api (take n its @ [its ! n]) srv = (?rs @ [r], srv')"
    using r by (auto simp: serve_all_snoc split: prod.splits)
  have w: "worker_work api 0 s = s\<lparr>rs_items := map2 finish_item ?rs (take n its) @ finish_item r (its ! n) # drop (Suc n) its,
      rs_server := srv', rs_threads := [Idle]\<rparr>"
    using b assms(2) s r len by (simp add: worker_work_def nth_append list_update_append)
  then show "rs_threads (worker_work api 0 s) = [Idle]" "rs_queue (worker_work api 0 s) = rs_queue s"
    "rs_running (worker_work api 0 s) = rs_running s" by simp_all
  show "serving api srv its (Suc n) (worker_work api 0 s)"
    using s(1) b(2,3) len by (simp add: w serving_def next_one take_Suc_conv_app_nth [OF b(2)])
qed

lemma serving_work:
  assumes "serving api srv its n s"
  shows "\<exists>m. serving api srv its m (worker_work api t s)"
proof -
  obtain th where th: "rs_threads s = [th]" using assms by (auto simp: serving_def)
  show ?thesis
  proof (cases "t = 0 \<and> (\<exists>i. th = Busy i)")
    case False
    then have "worker_work api t s = s" using th by (cases th) (auto simp: worker_work_def)
    then show ?thesis using assms by auto
  next
    case True
    then show ?thesis using serving_busy(1) [OF assms] th by auto
  qed
qed

lemma serving_exit: "serving api srv its n s \<Longrightarrow> serving api srv its n (worker_exit t s)"
  by (auto simp: worker_exit_def serving_def)

lemma serving_step:
  assumes "serving api srv its n s"
  shows "\<exists>m. serving api srv (its @ accepted [st]) m (redis_do api st s)"
proof (cases st)
  case (Call c)
  then show ?thesis using serving_call [OF assms, of c] by auto
next
  case (Take t)
  then show ?thesis using serving_take [OF assms] by (auto simp: accepted_def)
next
  case (Work t)
  then show ?thesis using serving_work [OF assms, of t] by (simp add: accepted_def)
next
  case (Exit t)
  then show ?thesis using serving_exit [OF assms] by (auto simp: accepted_def)
next
  case StopFlag
  then have "serving api srv its n (redis_do api st s)" using assms by (simp add: serving_def stop_flag_def)
  then show ?thesis using StopFlag by (auto simp: accepted_def)
qed

definition started :: "'s \<Rightarrow> 's redis_store" where
  "started srv = snd (redis_start PingOk (mk_redis_store srv))"

lemma serving_run: "\<exists>n. serving api srv (accepted steps) n (redis_run api steps (started srv))"
proof (induction steps rule: rev_induct)
  case Nil
  have "serving api srv [] 0 (started srv)"
    by (simp add: serving_def started_def redis_start_def mk_redis_store_def)
  then show ?case by (auto simp: redis_run_def accepted_def)
next
  case (snoc st steps)
  then show ?case
    using serving_step by (fastforce simp: redis_run_def accepted_snoc)
qed

section \<open>Properties of the queue\<close>

text \<open>
  C35: The threaded store is the sequential store, late. After any interleaving of calls, worker
  steps and the stop flag there is a number of finished calls such that the finished ones
  are the first ones made, each answered with what the sequential store answers, the server
  is where the sequential store left it, and every other call has no answer yet: its event
  is not set, and a caller whose wait runs out reads success and \<open>None\<close> from it.
\<close>
theorem redis_calls_linear:
  "\<exists>n. n \<le> length (accepted steps)
   \<and> map wi_event (rs_items (redis_run api steps (started srv))) =
       replicate n True @ replicate (length (accepted steps) - n) False
   \<and> map (end_call (redis_run api steps (started srv))) [0..<n] =
       fst (serve_all api (take n (accepted steps)) srv)
   \<and> map (end_call (redis_run api steps (started srv))) [n..<length (accepted steps)] =
       replicate (length (accepted steps) - n) (Inr ONone)
   \<and> rs_server (redis_run api steps (started srv)) = snd (serve_all api (take n (accepted steps)) srv)"
proof -
  let ?its = "accepted steps" and ?s = "redis_run api steps (started srv)"
  obtain n where n: "serving api srv ?its n ?s" using serving_run [of api srv steps] by auto
  let ?rs = "fst (serve_all api (take n ?its) srv)"
  have s: "n \<le> length ?its" "rs_items ?s = map2 finish_item ?rs (take n ?its) @ drop n ?its"
    "rs_server ?s = snd (serve_all api (take n ?its) srv)"
    using n by (simp_all add: serving_def)
  have fresh: "fresh_item (?its ! i)" if "i < length ?its" for i
    using accepted_fresh [of steps] that by (simp add: list_all_length)
  have fin: "rs_items ?s ! i = finish_item (?rs ! i) (?its ! i)" if "i < n" for i
    using that s(1) by (simp add: s(2) nth_append)
  have rest: "rs_items ?s ! i = ?its ! i" if "n \<le> i" "i < length ?its" for i
    using that s(1) by (simp add: s(2) nth_append)
  have "map wi_event (rs_items ?s) = replicate n True @ replicate (length ?its - n) False"
  proof (rule nth_equalityI)
    show "length (map wi_event (rs_items ?s)) = length (replicate n True @ replicate (length ?its - n) False)"
      using s(1) by (simp add: s(2))
    fix i
    assume "i < length (map wi_event (rs_items ?s))"
    then have i: "i < length ?its" using s(1) by (simp add: s(2))
    then show "map wi_event (rs_items ?s) ! i = (replicate n True @ replicate (length ?its - n) False) ! i"
      using fin [of i] rest [of i] fresh [OF i] s(1)
      by (cases "i < n") (auto simp: s(2) nth_append finish_item_def fresh_item_def split: sum.splits)
  qed
  moreover have "map (end_call ?s) [0..<n] = ?rs"
    by (rule nth_equalityI) (use s(1) fin fresh in \<open>auto simp: end_call_def outcome_finish\<close>)
  moreover have "map (end_call ?s) [n..<length ?its] = replicate (length ?its - n) (Inr ONone)"
    by (rule nth_equalityI) (use s(1) rest fresh in \<open>auto simp: end_call_def outcome_fresh\<close>)
  ultimately show ?thesis using s(1,3) by blast
qed

lemma drain:
  assumes "serving api srv its n s" "rs_threads s = [Idle]" "\<not> rs_running s"
  shows "\<exists>s'. worker_loop api (Suc (length its - n)) s = Some s' \<and> serving api srv its (length its) s'
    \<and> rs_threads s' = [Ended] \<and> rs_queue s' = []"
  using assms
proof (induction "length its - n" arbitrary: n s)
  case 0
  then have q: "rs_queue s = []" "n = length its" by (auto simp: serving_def)
  then have "worker_exit 0 s = s\<lparr>rs_threads := [Ended]\<rparr>" using 0 by (simp add: worker_exit_def)
  then show ?case using 0 q by (simp add: serving_def)
next
  case (Suc k)
  let ?t = "worker_take 0 s" and ?w = "worker_work api 0 (worker_take 0 s)"
  have n: "n < length its" using Suc(2) by linarith
  have q: "rs_queue s = n # [Suc n..<length its]"
    using Suc.prems n by (auto simp: serving_def upt_conv_Cons)
  have t: "?t = s\<lparr>rs_queue := [Suc n..<length its], rs_threads := [Busy n]\<rparr>"
    using Suc.prems(2) q by (simp add: worker_take_def)
  have "rs_threads ?t = [Busy n]" by (simp add: t)
  note b = serving_busy [OF serving_take [OF Suc.prems(1)] this]
  have "\<not> rs_running ?w" using b(4) Suc.prems(3) by (simp add: t)
  moreover have "k = length its - Suc n" using Suc(2) by linarith
  ultimately obtain s' where "worker_loop api (Suc (length its - Suc n)) ?w = Some s'"
    "serving api srv its (length its) s'" "rs_threads s' = [Ended]" "rs_queue s' = []"
    using Suc(1) [OF _ b(1,2)] by auto
  moreover have "worker_loop api (Suc (length its - n)) s = worker_loop api (Suc (length its - Suc n)) ?w"
    using q n by (simp add: Suc_diff_Suc)
  ultimately show ?case by metis
qed

text \<open>
  C36: A stopped worker drains its queue and ends. Once the flag is down and no call is added,
  a worker between two items leaves its loop after exactly one round per queued item; every
  call made has then been answered, and the server is where all the calls in turn leave it.
\<close>
theorem stopped_worker_drains:
  assumes "s = redis_run api (steps @ [StopFlag]) (started srv)" and "rs_threads s = [Idle]"
  shows "\<exists>s'. worker_loop api (Suc (length (rs_queue s))) s = Some s'
    \<and> rs_threads s' = [Ended] \<and> rs_queue s' = []
    \<and> map wi_event (rs_items s') = replicate (length (accepted steps)) True
    \<and> rs_server s' = snd (serve_all api (accepted steps) srv)"
proof -
  have its: "accepted (steps @ [StopFlag]) = accepted steps" by (simp add: accepted_def)
  obtain n where n: "serving api srv (accepted steps) n s"
    using serving_run [of api srv "steps @ [StopFlag]"] its assms(1) by auto
  have "\<not> rs_running s" by (simp add: assms(1) redis_run_def stop_flag_def)
  from drain [OF n assms(2) this] obtain s' where s': "worker_loop api (Suc (length (accepted steps) - n)) s = Some s'"
    "serving api srv (accepted steps) (length (accepted steps)) s'" "rs_threads s' = [Ended]" "rs_queue s' = []"
    by blast
  have "length (rs_queue s) = length (accepted steps) - n" using n assms(2) by (auto simp: serving_def)
  moreover have "map wi_event (rs_items s') = replicate (length (accepted steps)) True"
    by (rule nth_equalityI) (use s'(2) in \<open>auto simp: serving_def finish_item_def split: sum.splits\<close>)
  moreover have "rs_server s' = snd (serve_all api (accepted steps) srv)" using s'(2) by (simp add: serving_def)
  ultimately show ?thesis using s' by metis
qed

section \<open>Against a server that behaves as documented\<close>

text \<open>A prefix without the characters of Redis' glob patterns.\<close>

definition plain_prefix :: "string \<Rightarrow> bool" where
  "plain_prefix p \<longleftrightarrow> list_all (\<lambda>c. c \<notin> {CHR ''*'', CHR ''?'', CHR ''['', CHR '']'', CHR 0x5C}) p"

text \<open>
  The documented behaviour of the commands: \<open>store\<close> is what is kept under a key, \<open>idle\<close> for how
  long a key has not been used. A full scan lists the matching keys, one perhaps more than
  once; looking at an idle time does not use the key.
\<close>

definition redis_documented ::
    "'s redis_api \<Rightarrow> ('s \<Rightarrow> string \<Rightarrow> raw_value option) \<Rightarrow> ('s \<Rightarrow> string \<Rightarrow> int) \<Rightarrow> bool" where
  "redis_documented api store idle \<longleftrightarrow>
     (\<forall>k s. \<exists>s'. ra_get api k s = (Inr (store s k), s') \<and> store s' = store s)
   \<and> (\<forall>k v s. \<exists>s'. ra_set api k v s = (Inr (), s') \<and> store s' = (store s)(k \<mapsto> v))
   \<and> (\<forall>p s. plain_prefix p \<longrightarrow>
        (\<exists>ks. ra_scan api (p @ ''*'') s = (Inr ks, s) \<and> set ks = {k \<in> dom (store s). startswith k p}))
   \<and> (\<forall>k s. k \<in> dom (store s) \<longrightarrow> ra_idle api k s = (Inr (Some (idle s k)), s))
   \<and> (\<forall>k s. \<exists>s'. ra_delete api k s = (Inr (), s') \<and> store s' = (store s)(k := None))"

lemma documented_get:
  "redis_documented api store idle \<Longrightarrow> \<exists>s'. ra_get api k s = (Inr (store s k), s') \<and> store s' = store s"
  by (simp add: redis_documented_def)

lemma documented_set:
  "redis_documented api store idle \<Longrightarrow> \<exists>s'. ra_set api k v s = (Inr (), s') \<and> store s' = (store s)(k \<mapsto> v)"
  by (simp add: redis_documented_def)

lemma documented_scan:
  "redis_documented api store idle \<Longrightarrow> plain_prefix p \<Longrightarrow>
   \<exists>ks. ra_scan api (p @ ''*'') s = (Inr ks, s) \<and> set ks = {k \<in> dom (store s). startswith k p}"
  by (simp add: redis_documented_def)

lemma documented_idle:
  "redis_documented api store idle \<Longrightarrow> k \<in> dom (store s) \<Longrightarrow> ra_idle api k s = (Inr (Some (idle s k)), s)"
  by (simp add: redis_documented_def)

lemma documented_delete:
  "redis_documented api store idle \<Longrightarrow> \<exists>s'. ra_delete api k s = (Inr (), s') \<and> store s' = (store s)(k := None)"
  by (simp add: redis_documented_def)

lemma delete_each_run:
  assumes "redis_documented api store idle"
  shows "\<exists>s'. delete_each api ks s = (Inr (), s') \<and> store s' = (\<lambda>k. if k \<in> set ks then None else store s k)"
proof (induction ks arbitrary: s)
  case Nil
  then show ?case by simp
next
  case (Cons k ks)
  obtain s1 where s1: "ra_delete api k s = (Inr (), s1)" "store s1 = (store s)(k := None)"
    using documented_delete [OF assms] by blast
  obtain s2 where "delete_each api ks s1 = (Inr (), s2)" "store s2 = (\<lambda>k. if k \<in> set ks then None else store s1 k)"
    using Cons by blast
  with s1 show ?case by (auto simp: bindp_def fun_eq_iff)
qed

lemma read_idle_run:
  assumes "redis_documented api store idle"
  shows "set ks \<subseteq> dom (store s) \<Longrightarrow>
    read_idle api ks d s = (Inr (fold (\<lambda>k. AList.update k (idle s k)) ks d), s)"
  by (induction ks arbitrary: d) (simp_all add: bindp_def documented_idle [OF assms])

lemma idle_table:
  "\<exists>us. fold (\<lambda>k. AList.update k (f k)) ks [] = map (\<lambda>k. (k, f k)) us \<and> distinct us \<and> set us = set ks"
proof (induction ks rule: rev_induct)
  case Nil
  then show ?case by simp
next
  case (snoc k ks)
  then obtain us where us: "fold (\<lambda>k. AList.update k (f k)) ks [] = map (\<lambda>k. (k, f k)) us"
    "distinct us" "set us = set ks" by blast
  have old: "k \<in> set us \<Longrightarrow> AList.update k (f k) (map (\<lambda>k. (k, f k)) us) = map (\<lambda>k. (k, f k)) us"
    by (induction us) auto
  have new: "k \<notin> set us \<Longrightarrow> AList.update k (f k) (map (\<lambda>k. (k, f k)) us) = map (\<lambda>k. (k, f k)) (us @ [k])"
    by (induction us) auto
  show ?case
  proof (cases "k \<in> set us")
    case True
    then show ?thesis using us old by (intro exI [of _ us]) auto
  next
    case False
    then show ?thesis using us new by (intro exI [of _ "us @ [k]"]) auto
  qed
qed

lemma evict_order_map: "evict_order (map (\<lambda>k. (k, f k)) us) = sort_key (\<lambda>k. - f k) us"
proof -
  have ins: "insort_key (\<lambda>kv. - snd kv) (k, f k) (map (\<lambda>k. (k, f k)) xs) =
      map (\<lambda>k. (k, f k)) (insort_key (\<lambda>k. - f k) k xs)" for k xs
    by (induction xs) auto
  have "sort_key (\<lambda>kv. - snd kv) (map (\<lambda>k. (k, f k)) us) = map (\<lambda>k. (k, f k)) (sort_key (\<lambda>k. - f k) us)"
    by (induction us) (simp_all add: ins)
  then show ?thesis by (simp add: evict_order_def comp_def)
qed

text \<open>A trim deletes a prefix of the family, the most idle keys first.\<close>

definition trim_item :: "string \<Rightarrow> int \<Rightarrow> work_item" where
  "trim_item p limit = mk_work_item OpTrim p None (Some limit)"

lemma run_trim:
  assumes doc: "redis_documented api store idle" and "plain_prefix p"
    and scan: "ra_scan api (p @ ''*'') s = (Inr ks, s)"
  shows "\<exists>s' us. run_item api True (trim_item p limit) s = (Inr ONone, s')
    \<and> distinct us \<and> set us = {k \<in> dom (store s). startswith k p} \<and> set us = set ks
    \<and> store s' = (\<lambda>k. if k \<in> set (take (nat (int (length ks) - limit)) (sort_key (\<lambda>k. - idle s k) us))
                      then None else store s k)"
proof -
  have fam: "set ks = {k \<in> dom (store s). startswith k p}"
    using documented_scan [OF doc assms(2), of s] scan by auto
  obtain us where us: "fold (\<lambda>k. AList.update k (idle s k)) ks [] = map (\<lambda>k. (k, idle s k)) us"
    "distinct us" "set us = set ks" using idle_table [of "idle s" ks] by metis
  have idles: "read_idle api ks [] s = (Inr (map (\<lambda>k. (k, idle s k)) us), s)"
    using read_idle_run [OF doc, of ks s "[]"] fam us(1) by auto
  let ?ev = "take (nat (int (length ks) - limit)) (sort_key (\<lambda>k. - idle s k) us)"
  obtain s' where d: "delete_each api ?ev s = (Inr (), s')"
    "store s' = (\<lambda>k. if k \<in> set ?ev then None else store s k)"
    using delete_each_run [OF doc, of ?ev s] by metis
  show ?thesis
  proof (cases "limit < int (length ks)")
    case True
    then have "run_item api True (trim_item p limit) s = (Inr ONone, s')"
      using scan idles d(1)
      by (simp add: run_item_def trim_item_def mk_work_item_def trim_keys_def bindp_def evict_order_map py_take_def)
    then show ?thesis using us(2,3) fam d(2) by (intro exI [of _ s'] exI [of _ us] conjI) simp_all
  next
    case False
    then have "run_item api True (trim_item p limit) s = (Inr ONone, s)" "nat (int (length ks) - limit) = 0"
      using scan by (simp_all add: run_item_def trim_item_def mk_work_item_def trim_keys_def bindp_def)
    then show ?thesis using us fam by (intro exI [of _ s] exI [of _ us]) simp
  qed
qed

lemma set_take_diff:
  assumes "distinct xs"
  shows "card (set xs - set (take n xs)) = length xs - n"
proof -
  have "set xs - set (take n xs) = set (drop n xs)"
    using set_take_disj_set_drop_if_distinct [OF assms, of n n] set_append [of "take n xs" "drop n xs"]
    by auto
  then show ?thesis using assms by (simp add: distinct_card)
qed

section \<open>A reference server\<close>

text \<open>
  A server that shows the documented behaviour can be had: its keys in the order of their last
  use, the idle time of a key counted in the entries used since.
\<close>

type_synonym ref_server = "(string \<times> raw_value) list"

definition ref_idle :: "ref_server \<Rightarrow> string \<Rightarrow> int" where
  "ref_idle s k = int (length (dropWhile (\<lambda>e. fst e \<noteq> k) s))"

definition ref_redis :: "ref_server redis_api" where
  "ref_redis = \<lparr>
     ra_get = (\<lambda>k s. (Inr (map_of s k), od_move_to_end k s)),
     ra_set = (\<lambda>k v s. (Inr (), AList.delete k s @ [(k, v)])),
     ra_scan = (\<lambda>pat s. (Inr (filter (\<lambda>k. startswith k (butlast pat)) (od_keys s)), s)),
     ra_idle = (\<lambda>k s. (Inr (Some (ref_idle s k)), s)),
     ra_delete = (\<lambda>k s. (Inr (), AList.delete k s))\<rparr>"

lemma ref_documented: "redis_documented ref_redis map_of ref_idle"
  by (auto simp: redis_documented_def ref_redis_def delete_conv' map_add_def fun_eq_iff dom_map_of_conv_image_fst
      split: option.splits)

definition sample_server :: ref_server where
  "sample_server = [(''w:a'', JsonText (JInt 1)), (''x:c'', JsonText JNull), (''w:b'', JsonText (JInt 2))]"

text \<open>
  C38: What a trim of a Redis family removes. Keys outside the family are untouched, every key
  that goes has been idle at least as long as every key that stays, and the number of keys
  left is the number of keys less the number by which the listing exceeds the limit: a
  listing that names a key twice makes the trim drop more keys than the bound asks for.
\<close>
theorem redis_trim_exact:
  assumes "redis_documented api store idle" "plain_prefix p"
    and "ra_scan api (p @ ''*'') s = (Inr ks, s)"
  shows "\<exists>s'. run_item api True (trim_item p limit) s = (Inr ONone, s')
    \<and> (\<forall>k. \<not> startswith k p \<longrightarrow> store s' k = store s k)
    \<and> (\<forall>k. store s' k \<in> {None, store s k})
    \<and> card {k \<in> dom (store s'). startswith k p} = card (set ks) - nat (int (length ks) - limit)
    \<and> (\<forall>k\<in>dom (store s) - dom (store s'). \<forall>j\<in>dom (store s'). startswith j p \<longrightarrow> idle s j \<le> idle s k)"
proof -
  obtain s' us where r: "run_item api True (trim_item p limit) s = (Inr ONone, s')" "distinct us"
    "set us = {k \<in> dom (store s). startswith k p}" "set us = set ks"
    "store s' = (\<lambda>k. if k \<in> set (take (nat (int (length ks) - limit)) (sort_key (\<lambda>k. - idle s k) us))
                      then None else store s k)"
    using run_trim [OF assms] by metis
  let ?o = "sort_key (\<lambda>k. - idle s k) us" and ?n = "nat (int (length ks) - limit)"
  have o: "distinct ?o" "set ?o = set us" using r(2) by simp_all
  have left: "{k \<in> dom (store s'). startswith k p} = set ?o - set (take ?n ?o)"
    using r(3) by (auto simp: r(5) dom_def split: if_splits)
  have "length ?o = card (set ks)" using r(2,4) by (metis distinct_card length_sort)
  then have card: "card {k \<in> dom (store s'). startswith k p} = card (set ks) - ?n"
    using set_take_diff [OF o(1)] left by simp
  have order: "idle s j \<le> idle s k" if "k \<in> set (take ?n ?o)" "j \<in> set ?o - set (take ?n ?o)" for j k
  proof -
    have "sorted (map (\<lambda>k. - idle s k) (take ?n ?o @ drop ?n ?o))" by simp
    moreover have "j \<in> set (drop ?n ?o)" using that(2) by (metis Diff_iff Un_iff append_take_drop_id set_append)
    ultimately have "- idle s k \<le> - idle s j"
      using that(1) by (simp only: map_append sorted_append) auto
    then show ?thesis by simp
  qed
  have sub: "set (take ?n ?o) \<subseteq> set us" using set_take_subset [of ?n ?o] by simp
  show ?thesis
  proof (intro exI [of _ s'] conjI)
    show "\<forall>k. \<not> startswith k p \<longrightarrow> store s' k = store s k" using sub r(3) by (auto simp: r(5))
    show "\<forall>k. store s' k \<in> {None, store s k}" by (simp add: r(5))
    show "\<forall>k\<in>dom (store s) - dom (store s'). \<forall>j\<in>dom (store s'). startswith j p \<longrightarrow> idle s j \<le> idle s k"
    proof (intro ballI impI)
      fix k j
      assume "k \<in> dom (store s) - dom (store s')" "j \<in> dom (store s')" "startswith j p"
      moreover from this have "k \<in> set (take ?n ?o)" by (auto simp: r(5) split: if_splits)
      ultimately show "idle s j \<le> idle s k" using order left by blast
    qed
  qed (use r(1) card in simp_all)
qed

theorem redis_trim_exact_witness:
  "\<exists>s'. run_item ref_redis True (trim_item ''w:'' 1) sample_server = (Inr ONone, s')
    \<and> map_of s' ''x:c'' = map_of sample_server ''x:c''
    \<and> card {k \<in> dom (map_of s'). startswith k ''w:''} = 1"
proof -
  have "plain_prefix ''w:''" by (simp add: plain_prefix_def)
  moreover have "ra_scan ref_redis (''w:'' @ ''*'') sample_server = (Inr [''w:a'', ''w:b''], sample_server)"
    by (simp add: ref_redis_def sample_server_def startswith_def)
  ultimately show ?thesis
    using redis_trim_exact [OF ref_documented, of "''w:''" sample_server "[''w:a'', ''w:b'']" 1]
    by (fastforce simp: startswith_def)
qed

text \<open>
  C37: Both implementations of the seam bound a family alike. If the idle times of a family order
  its keys as the in-memory store's recency does, the listing names every key once and the
  limit is not negative, then a trim leaves the same keys of the family in Redis as in the
  in-memory store.
\<close>
theorem redis_trim_matches_memory:
  assumes "redis_documented api store idle" "plain_prefix p"
    and "ra_scan api (p @ ''*'') s = (Inr ks, s)" "distinct ks"
    and "store_ok m" "set (family p (mem_keys m)) = {k \<in> dom (store s). startswith k p}"
    and "sorted_wrt (\<lambda>a b. idle s b < idle s a) (family p (mem_keys m))"
  shows "\<exists>s'. run_item api True (trim_item p (int n)) s = (Inr ONone, s')
    \<and> {k \<in> dom (store s'). startswith k p} = set (family p (mem_keys (snd (mem_trim p (int n) m))))"
proof -
  obtain s' us where r: "run_item api True (trim_item p (int n)) s = (Inr ONone, s')" "distinct us"
    "set us = {k \<in> dom (store s). startswith k p}" "set us = set ks"
    "store s' = (\<lambda>k. if k \<in> set (take (nat (int (length ks) - int n)) (sort_key (\<lambda>k. - idle s k) us))
                      then None else store s k)"
    using run_trim [OF assms(1-3), of "int n"] by (elim exE conjE) (rule that)
  let ?F = "family p (mem_keys m)" and ?o = "sort_key (\<lambda>k. - idle s k) us"
  have d: "distinct ?F" using assms(5) by (simp add: family_def mem_keys_def store_ok_def od_wf_def)
  have sets: "set us = set ?F" using r(3) assms(6) by simp
  have mset: "mset us = mset ?F" using sets r(2) d by (simp add: set_eq_iff_mset_eq_distinct)
  have less: "sorted_wrt (\<lambda>a b. - idle s a < - idle s b) ?F" using assms(7) by simp
  then have strict: "sorted_wrt (<) (map (\<lambda>k. - idle s k) ?F)" by (simp add: sorted_wrt_map)
  then have sorted: "sorted (map (\<lambda>k. - idle s k) ?F)" and inj: "inj_on (\<lambda>k. - idle s k) (set ?F)"
    by (auto simp: strict_sorted_iff distinct_map)
  have o: "?o = ?F" by (rule sort_key_inj_key_eq [OF mset]) (use inj sets sorted in simp_all)
  have len: "length ks = length ?F" using assms(4) r(4) sets d by (metis distinct_card)
  have nat_diff: "nat (int (length ks) - int n) = length ?F - n" by (simp add: len)
  have "{k \<in> dom (store s'). startswith k p} = set ?F - set (take (length ?F - n) ?F)"
    using r(3) sets by (simp only: r(5) o nat_diff) (auto simp: dom_def split: if_splits)
  also have "\<dots> = set (last_n n ?F)"
    using in_last_n_iff [OF d] by auto
  also have "last_n n ?F = family p (mem_keys (snd (mem_trim p (int n) m)))"
    by (rule mem.family_trim [OF assms(5), symmetric])
  finally show ?thesis using r(1) by blast
qed

theorem redis_trim_matches_memory_witness:
  "\<exists>s'. run_item ref_redis True (trim_item ''w:'' (int 1)) sample_server = (Inr ONone, s')
    \<and> {k \<in> dom (map_of s'). startswith k ''w:''} =
        set (family ''w:'' (mem_keys (snd (mem_trim ''w:'' (int 1) \<lparr>st_entries = [(''w:a'', ONone), (''w:b'', ONone)]\<rparr>))))"
proof -
  have "plain_prefix ''w:''" by (simp add: plain_prefix_def)
  moreover have "ra_scan ref_redis (''w:'' @ ''*'') sample_server = (Inr [''w:a'', ''w:b''], sample_server)"
    by (simp add: ref_redis_def sample_server_def startswith_def)
  moreover have "family ''w:'' (mem_keys \<lparr>st_entries = [(''w:a'', ONone), (''w:b'', ONone)]\<rparr>) = [''w:a'', ''w:b'']"
    by (simp add: family_def mem_keys_def startswith_def)
  moreover have "set [''w:a'', ''w:b''] = {k \<in> dom (map_of sample_server). startswith k ''w:''}"
    by (auto simp: sample_server_def startswith_def dom_def split: if_splits)
  moreover have "sorted_wrt (\<lambda>a b. ref_idle sample_server b < ref_idle sample_server a) [''w:a'', ''w:b'']"
    by (simp add: ref_idle_def sample_server_def)
  moreover have "store_ok \<lparr>st_entries = [(''w:a'', ONone), (''w:b'', ONone)]\<rparr>"
    by (simp add: store_ok_def od_wf_def)
  ultimately show ?thesis
    using redis_trim_matches_memory [OF ref_documented, of "''w:''" sample_server "[''w:a'', ''w:b'']"
        "\<lparr>st_entries = [(''w:a'', ONone), (''w:b'', ONone)]\<rparr>" 1] by simp
qed

text \<open>
  C39: A record read back. Once a write and a later read of its key have been served, the read
  answers with what the record's JSON text stands for: always a value of the JSON kind, and
  the record itself exactly when it is one; a record that cannot be encoded raises before
  anything is queued.
\<close>
theorem redis_write_read:
  assumes "redis_documented api store idle"
  shows "(case item_of (WriteCall k v) of
      Inl e \<Rightarrow> begin_call (WriteCall k v) s = (Inl e, s)
    | Inr w \<Rightarrow> \<exists>r j. item_of (ReadCall k) = Inr r \<and> dumps v = Inr j
        \<and> fst (serve_all api [w, r] srv) = [Inr ONone, Inr (loads j)]
        \<and> json_plain (loads j) \<and> (json_plain v = (loads j = v)))"
proof (cases "dumps v")
  case (Inl e)
  then show ?thesis by (simp add: begin_call_def)
next
  case (Inr j)
  obtain s1 where 1: "ra_set api k (JsonText j) srv = (Inr (), s1)" "store s1 = (store srv)(k \<mapsto> JsonText j)"
    using documented_set [OF assms] by metis
  obtain s2 where 2: "ra_get api k s1 = (Inr (store s1 k), s2)" using documented_get [OF assms] by metis
  have "json_plain v = (loads j = v)"
    using plain_roundtrip [of v] loads_plain(1) [of j] Inr by auto
  then show ?thesis
    using 1 2 Inr loads_plain(1) [of j] by (simp add: run_item_def mk_work_item_def bindp_def)
qed

theorem redis_write_read_witness:
  "\<exists>w r j. item_of (WriteCall ''k'' (OTuple [OInt 1])) = Inr w \<and> item_of (ReadCall ''k'') = Inr r
    \<and> fst (serve_all ref_redis [w, r] []) = [Inr ONone, Inr (loads j)] \<and> loads j = OList [OInt 1]"
  using redis_write_read [OF ref_documented, of "''k''" "OTuple [OInt 1]" "mk_redis_store []" "[]"]
  by (auto simp del: serve_all.simps intro!: exI [of _ "JList [JInt 1]"])

theorem stopped_worker_drains_witness:
  "\<exists>s'. worker_loop ref_redis 2 (redis_run ref_redis [Call (ReadCall ''a''), StopFlag] (started [])) = Some s'
    \<and> rs_threads s' = [Ended] \<and> map wi_event (rs_items s') = [True]"
proof -
  let ?s = "redis_run ref_redis ([Call (ReadCall ''a'')] @ [StopFlag]) (started [])"
  have "rs_threads ?s = [Idle]" "length (rs_queue ?s) = 1" "length (accepted [Call (ReadCall ''a'')]) = 1"
    by (simp_all add: redis_run_def started_def redis_start_def mk_redis_store_def begin_call_def stop_flag_def
        accepted_def)
  with stopped_worker_drains [of ?s ref_redis "[Call (ReadCall ''a'')]" "[]"] show ?thesis
    by (auto simp: numeral_2_eq_2 simp del: worker_loop.simps)
qed

text \<open>
  The join of \<^verbatim>\<open>stop\<close> is bounded: an item the worker still holds when the client is released
  reaches no server and fails with \<^verbatim>\<open>AttributeError\<close>.
\<close>

lemma released_item_fails:
  assumes "rs_threads s = [Busy i]" "i < length (rs_items s)"
  shows "end_call (worker_work api 0 (stop_release s)) i = Inl AttributeError"
    and "rs_server (worker_work api 0 (stop_release s)) = rs_server s"
  using assms by (simp_all add: worker_work_def stop_release_def run_item_def end_call_def finish_item_def outcome_def)

end
