(* ===== verification/StoreSeam.thy ===== *)
theory StoreSeam
  imports RedisStore
begin

text \<open>
  The two stores behind one seam: what a caller that only reads and writes records can tell
  apart. The Redis store is taken call by call, which is what its queue and its worker make
  of it (theory \<open>RedisStore\<close>). Values are compared, not identities: a record the in-memory
  store hands out is the stored object itself, one from Redis a copy.
\<close>

section \<open>Sessions\<close>

datatype 'v store_op = ReadOp string | WriteOp string 'v

text \<open>The answers to a sequence of reads and writes; a write answers nothing.\<close>

fun store_run ::
    "(string \<Rightarrow> 's \<Rightarrow> 'v option \<times> 's) \<Rightarrow> (string \<Rightarrow> 'v \<Rightarrow> 's \<Rightarrow> 's) \<Rightarrow> 'v store_op list \<Rightarrow> 's \<Rightarrow> 'v option list \<times> 's" where
  "store_run rd wr [] s = ([], s)"
| "store_run rd wr (ReadOp k # ops) s = (case rd k s of (x, s') \<Rightarrow>
     (case store_run rd wr ops s' of (xs, s'') \<Rightarrow> (x # xs, s'')))"
| "store_run rd wr (WriteOp k v # ops) s = store_run rd wr ops (wr k v s)"

locale two_stores = a: state_store ra wa ca ia + b: state_store rb wb cb ib
  for ra :: "string \<Rightarrow> 's \<Rightarrow> 'v option \<times> 's" and wa ca ia
    and rb :: "string \<Rightarrow> 't \<Rightarrow> 'v option \<times> 't" and wb cb ib
begin

lemma answers_agree:
  "ia s \<Longrightarrow> ib t \<Longrightarrow> ca s = cb t \<Longrightarrow> fst (store_run ra wa ops s) = fst (store_run rb wb ops t)"
proof (induction ops arbitrary: s t)
  case Nil
  then show ?case by simp
next
  case (Cons op ops)
  show ?case
  proof (cases op)
    case (ReadOp k)
    have "fst (store_run ra wa ops (snd (ra k s))) = fst (store_run rb wb ops (snd (rb k t)))"
      by (rule Cons.IH) (use Cons.prems in \<open>simp_all add: a.read_inv b.read_inv a.read_contents b.read_contents\<close>)
    moreover have "fst (ra k s) = fst (rb k t)" using Cons.prems by (simp add: a.read_result b.read_result)
    ultimately show ?thesis by (simp add: ReadOp split: prod.split) (metis fst_conv snd_conv)
  next
    case (WriteOp k v)
    have "fst (store_run ra wa ops (wa k v s)) = fst (store_run rb wb ops (wb k v t))"
      by (rule Cons.IH) (use Cons.prems in \<open>simp_all add: a.write_inv b.write_inv a.write_contents b.write_contents\<close>)
    then show ?thesis by (simp add: WriteOp)
  qed
qed

end

section \<open>The Redis store as a provider\<close>

text \<open>The records a caller can get back as they are: JSON values other than \<^verbatim>\<open>None\<close>.\<close>

typedef json_record = "{v. json_plain v \<and> v \<noteq> ONone}"
  morphisms value_of Record
  by (rule exI [of _ "OBool True"]) simp

lemma value_of_plain: "json_plain (value_of v)" "value_of v \<noteq> ONone"
  using value_of [of v] by simp_all

definition redis_read :: "'s redis_api \<Rightarrow> string \<Rightarrow> 's \<Rightarrow> json_record option \<times> 's" where
  "redis_read api k srv = (case item_of (ReadCall k) of Inl _ \<Rightarrow> (None, srv)
     | Inr it \<Rightarrow> (case run_item api True it srv of (r, srv') \<Rightarrow>
         (case r of Inl _ \<Rightarrow> None | Inr v \<Rightarrow> if v = ONone then None else Some (Record v), srv')))"

definition redis_write :: "'s redis_api \<Rightarrow> string \<Rightarrow> json_record \<Rightarrow> 's \<Rightarrow> 's" where
  "redis_write api k v srv = (case item_of (WriteCall k (value_of v)) of Inl _ \<Rightarrow> srv
     | Inr it \<Rightarrow> snd (run_item api True it srv))"

definition record_at :: "('s \<Rightarrow> string \<Rightarrow> raw_value option) \<Rightarrow> 's \<Rightarrow> string \<Rightarrow> json_record option" where
  "record_at store srv k = (case store srv k of
     Some (JsonText j) \<Rightarrow> if loads j = ONone then None else Some (Record (loads j)) | _ \<Rightarrow> None)"

text \<open>A server that holds texts of such records only, as one written by this store alone does.\<close>

definition records_ok :: "('s \<Rightarrow> string \<Rightarrow> raw_value option) \<Rightarrow> 's \<Rightarrow> bool" where
  "records_ok store srv \<longleftrightarrow> (\<forall>k raw. store srv k = Some raw \<longrightarrow> (\<exists>j. raw = JsonText j \<and> loads j \<noteq> ONone))"

lemma records_okE:
  assumes "records_ok store srv" "store srv k = Some raw"
  obtains j where "raw = JsonText j" "loads j \<noteq> ONone"
  using assms unfolding records_ok_def by blast

lemma redis_read_run:
  assumes "redis_documented api store idle" "records_ok store srv"
  obtains srv' where "redis_read api k srv = (record_at store srv k, srv')" "store srv' = store srv"
proof -
  obtain srv' where g: "ra_get api k srv = (Inr (store srv k), srv')" "store srv' = store srv"
    using documented_get [OF assms(1)] by metis
  have "redis_read api k srv = (record_at store srv k, srv')"
  proof (cases "store srv k")
    case None
    then show ?thesis by (simp add: redis_read_def run_item_def mk_work_item_def bindp_def g(1) record_at_def)
  next
    case (Some raw)
    obtain j where "raw = JsonText j" "loads j \<noteq> ONone" by (rule records_okE [OF assms(2) Some])
    with Some show ?thesis by (simp add: redis_read_def run_item_def mk_work_item_def bindp_def g(1) record_at_def)
  qed
  then show ?thesis using that g(2) by blast
qed

lemma redis_write_run:
  assumes "redis_documented api store idle"
  obtains j where "dumps (value_of v) = Inr j" "loads j = value_of v"
    "store (redis_write api k v srv) = (store srv)(k \<mapsto> JsonText j)"
proof -
  obtain j where j: "dumps (value_of v) = Inr j" "loads j = value_of v"
    using plain_roundtrip [OF value_of_plain(1)] by blast
  obtain srv' where "ra_set api k (JsonText j) srv = (Inr (), srv')" "store srv' = (store srv)(k \<mapsto> JsonText j)"
    using documented_set [OF assms] by metis
  then have "store (redis_write api k v srv) = (store srv)(k \<mapsto> JsonText j)"
    by (simp add: redis_write_def j(1) run_item_def mk_work_item_def bindp_def)
  then show ?thesis using that j by blast
qed

lemma redis_seam:
  assumes doc: "redis_documented api store idle"
  shows "state_store (redis_read api) (redis_write api) (record_at store) (records_ok store)"
proof
  fix srv k v
  assume ok: "records_ok store srv"
  obtain srv' where r: "redis_read api k srv = (record_at store srv k, srv')" "store srv' = store srv"
    by (rule redis_read_run [OF doc ok])
  show "fst (redis_read api k srv) = record_at store srv k" by (simp add: r(1))
  show "record_at store (snd (redis_read api k srv)) = record_at store srv"
    by (rule ext) (simp add: r record_at_def)
  show "records_ok store (snd (redis_read api k srv))" using ok by (simp add: r records_ok_def)
  obtain j where w: "loads j = value_of v" "store (redis_write api k v srv) = (store srv)(k \<mapsto> JsonText j)"
    by (rule redis_write_run [OF doc, of v k srv])
  show "record_at store (redis_write api k v srv) = (record_at store srv)(k := Some v)"
    by (rule ext) (simp add: record_at_def w value_of_plain(2) value_of_inverse)
  show "records_ok store (redis_write api k v srv)"
    using ok value_of_plain(2) [of v] by (auto simp: records_ok_def w)
qed

text \<open>On the reference server, next to the in-memory store.\<close>

interpretation mem_and_redis: two_stores mem_read mem_write mem_contents store_ok
    "redis_read ref_redis" "redis_write ref_redis" "record_at map_of" "records_ok map_of"
  by (intro two_stores.intro mem.state_store_axioms redis_seam [OF ref_documented])

text \<open>
  C34: One seam, two stores. Let the in-memory store and a Redis server that behaves as
  documented hold the same records. Then a caller that reads and writes any records of the
  JSON kind other than None, in any order and under any keys, gets the same answers from
  both implementations of the seam.
\<close>
theorem redis_answers_as_memory:
  assumes "redis_documented api store idle" "records_ok store srv" "store_ok m"
    and "record_at store srv = mem_contents m"
  shows "fst (store_run (redis_read api) (redis_write api) ops srv) = fst (store_run mem_read mem_write ops m)"
  using two_stores.answers_agree [OF two_stores.intro [OF redis_seam [OF assms(1)] mem.state_store_axioms]
      assms(2-4)] .

theorem redis_answers_as_memory_witness:
  "fst (store_run (redis_read ref_redis) (redis_write ref_redis)
      [WriteOp ''a'' (Record (OInt 1)), WriteOp ''b'' (Record (OBool False)), ReadOp ''a'', ReadOp ''c''] []) =
    [Some (Record (OInt 1)), None]"
proof -
  have "records_ok map_of ([] :: ref_server)" "record_at map_of ([] :: ref_server) = mem_contents empty_store"
    by (auto simp: records_ok_def record_at_def mem_contents_def empty_store_def)
  moreover have "store_ok (empty_store :: json_record mem_store)" by (simp add: store_ok_def empty_store_def od_wf_def)
  ultimately show ?thesis
    using redis_answers_as_memory [OF ref_documented, of "[]" empty_store
        "[WriteOp ''a'' (Record (OInt 1)), WriteOp ''b'' (Record (OBool False)), ReadOp ''a'', ReadOp ''c'']"]
    by (simp add: mem_write_def mem_read_def empty_store_def Let_def od_move_to_end_def)
qed

end
