(* ===== verification/CapacityHarness.thy ===== *)
theory CapacityHarness
  imports AsErrors
begin

text \<open>
  \<^verbatim>\<open>CapacityDriver\<close> of \<^verbatim>\<open>capacity_harness.py\<close>: the workers of one level, the main thread's bounded
  joins and the results of a run. Times are milliseconds since the barrier opened. What the
  factory does with one call (when it returns, and whether it raises) and how late a worker
  is scheduled are arguments; so is what the probe of the event loop meets.
\<close>

section \<open>One call\<close>

text \<open>
  How the factory ends a call, and how much later than it could the worker takes the lock and
  counts it.
\<close>

datatype factory_end = Returns int | Raises int | Blocks

record call_behaviour =
  cb_end :: factory_end
  cb_lag :: int

text \<open>
  \<^verbatim>\<open>run_with_timeout\<close>: the event is set in a \<^verbatim>\<open>finally\<close>, hence when the factory returns and when
  it raises.
\<close>

definition done_at :: "call_behaviour \<Rightarrow> int option" where
  "done_at b = (case cb_end b of Returns t \<Rightarrow> Some t | Raises t \<Rightarrow> Some t | Blocks \<Rightarrow> None)"

definition wait_ms :: "int \<Rightarrow> int" where
  "wait_ms t = max 0 t"

definition in_time :: "int \<Rightarrow> call_behaviour \<Rightarrow> bool" where
  "in_time timeout b = (case done_at b of None \<Rightarrow> False | Some t \<Rightarrow> t \<le> wait_ms timeout)"

text \<open>When the worker counts: after the wait and a join of at most a tenth of a second.\<close>

definition counted_at :: "int \<Rightarrow> call_behaviour \<Rightarrow> int" where
  "counted_at timeout b =
     (case done_at b of
        None \<Rightarrow> wait_ms timeout + 100
      | Some t \<Rightarrow> if t \<le> wait_ms timeout then t else min t (wait_ms timeout + 100)) + cb_lag b"

section \<open>One level\<close>

record level_result =
  lr_level :: int
  lr_completed :: int
  lr_timed_out :: int
  lr_loop_gap_ms :: "rat option"

text \<open>The main thread joins the workers one after the other, each for the timeout plus five seconds.\<close>

fun joined_until :: "int \<Rightarrow> call_behaviour list \<Rightarrow> int \<Rightarrow> int" where
  "joined_until timeout [] now = now"
| "joined_until timeout (b # bs) now =
     joined_until timeout bs
       (max now (min (counted_at timeout b) (now + max 0 (timeout + 5000))))"

text \<open>What the probe meets: no sippy, no loop to call into, or its latency if it ran in two seconds.\<close>

datatype loop_probe = NoSippy | NoLoop | ProbeRan "rat option"

definition measure_loop_gap :: "loop_probe \<Rightarrow> rat option" where
  "measure_loop_gap p = (case p of NoSippy \<Rightarrow> None | NoLoop \<Rightarrow> None | ProbeRan r \<Rightarrow> r)"

text \<open>
  The circumstances of one level: its calls, the probe, and how long the probe took; the
  counters are read after it. A barrier for less than one party never opens, so a negative
  level never returns.
\<close>

record level_env =
  le_behave :: "nat \<Rightarrow> call_behaviour"
  le_probe :: loop_probe
  le_probe_ms :: nat

definition run_level :: "int \<Rightarrow> level_env \<Rightarrow> int \<Rightarrow> level_result option" where
  "run_level timeout env level =
     (if level < 0 then None
      else let bs = map (le_behave env) [0..<nat level];
               seen = filter (\<lambda>b. counted_at timeout b \<le> joined_until timeout bs 0 + int (le_probe_ms env)) bs
           in Some \<lparr>lr_level = level,
                    lr_completed = int (length (filter (in_time timeout) seen)),
                    lr_timed_out = int (length (filter (\<lambda>b. \<not> in_time timeout b) seen)),
                    lr_loop_gap_ms = measure_loop_gap (le_probe env)\<rparr>)"

section \<open>The driver\<close>

record capacity_driver =
  cd_levels :: "int list"
  cd_timeout :: int

definition mk_capacity_driver :: "int list option \<Rightarrow> int \<Rightarrow> capacity_driver" where
  "mk_capacity_driver levels timeout =
     \<lparr>cd_levels = (case levels of None \<Rightarrow> [1, 4, 8, 16, 32, 64, 128] | Some ls \<Rightarrow> ls), cd_timeout = timeout\<rparr>"

text \<open>\<open>envs i\<close> are the circumstances of the level at place \<open>i\<close>.\<close>

fun run_levels :: "int \<Rightarrow> (nat \<Rightarrow> level_env) \<Rightarrow> nat \<Rightarrow> int list \<Rightarrow> level_result list option" where
  "run_levels timeout envs i [] = Some []"
| "run_levels timeout envs i (level # levels) =
     (case run_level timeout (envs i) level of
        None \<Rightarrow> None
      | Some r \<Rightarrow> (case run_levels timeout envs (i + 1) levels of
                     None \<Rightarrow> None | Some rs \<Rightarrow> Some (r # rs)))"

definition driver_run :: "capacity_driver \<Rightarrow> (nat \<Rightarrow> level_env) \<Rightarrow> level_result list option" where
  "driver_run d envs = run_levels (cd_timeout d) envs 0 (cd_levels d)"

section \<open>Facts\<close>

lemma joined_until_mono: "now \<le> joined_until timeout bs now"
proof (induction bs arbitrary: now)
  case (Cons b bs)
  show ?case
    using Cons [of "max now (min (counted_at timeout b) (now + max 0 (timeout + 5000)))"] by simp
qed simp

text \<open>A worker that is at most the grace late has counted when the main thread reads.\<close>

lemma joined_until_counted:
  assumes "\<forall>b\<in>set bs. counted_at timeout b \<le> max 0 (timeout + 5000)" "0 \<le> now"
  shows "\<forall>b\<in>set bs. counted_at timeout b \<le> joined_until timeout bs now"
  using assms
proof (induction bs arbitrary: now)
  case (Cons b bs)
  let ?n = "max now (min (counted_at timeout b) (now + max 0 (timeout + 5000)))"
  have "counted_at timeout b \<le> ?n" using Cons.prems by simp
  moreover have "?n \<le> joined_until timeout bs ?n" by (rule joined_until_mono)
  ultimately show ?case using Cons by auto
qed simp

lemma counted_at_bound: "0 \<le> cb_lag b \<Longrightarrow> counted_at timeout b \<le> wait_ms timeout + 100 + cb_lag b"
  by (auto simp: counted_at_def split: option.splits)

lemma all_counted:
  assumes "0 \<le> timeout" "\<forall>b\<in>set bs. 0 \<le> cb_lag b \<and> cb_lag b \<le> 4900"
  shows "filter (\<lambda>b. counted_at timeout b \<le> joined_until timeout bs 0 + int d) bs = bs"
proof (rule filter_True)
  have "\<forall>b\<in>set bs. counted_at timeout b \<le> max 0 (timeout + 5000)"
  proof
    fix b
    assume "b \<in> set bs"
    then have "0 \<le> cb_lag b" "cb_lag b \<le> 4900" using assms(2) by auto
    then show "counted_at timeout b \<le> max 0 (timeout + 5000)"
      using counted_at_bound [of b timeout] assms(1) by (simp add: wait_ms_def)
  qed
  then have "\<forall>b\<in>set bs. counted_at timeout b \<le> joined_until timeout bs 0"
    by (intro joined_until_counted) blast+
  then show "\<forall>b\<in>set bs. counted_at timeout b \<le> joined_until timeout bs 0 + int d" by fastforce
qed

lemma run_level_returns: "(run_level timeout env level \<noteq> None) = (0 \<le> level)"
  by (simp add: run_level_def Let_def)

lemma run_levels_returns: "(run_levels timeout envs i levels \<noteq> None) = list_all (\<lambda>l. 0 \<le> l) levels"
proof (induction levels arbitrary: i)
  case (Cons l ls)
  have "(run_levels timeout envs (i + 1) ls \<noteq> None) = list_all (\<lambda>l. 0 \<le> l) ls" by (rule Cons)
  with run_level_returns [of timeout "envs i" l] show ?case by (auto split: option.splits)
qed simp

lemma run_levels_results:
  "run_levels timeout envs i levels = Some rs \<Longrightarrow>
   map Some rs = map2 (\<lambda>j l. run_level timeout (envs j) l) [i..<i + length levels] levels"
proof (induction levels arbitrary: i rs)
  case (Cons l ls)
  obtain r rs' where r: "run_level timeout (envs i) l = Some r" "run_levels timeout envs (Suc i) ls = Some rs'"
    "rs = r # rs'" using Cons.prems by (auto split: option.splits)
  have "[i..<i + length (l # ls)] = i # [Suc i..<Suc i + length ls]" using upt_conv_Cons [of i "i + length (l # ls)"] by simp
  then show ?case using Cons.IH [OF r(2)] r(1,3) by simp
qed simp

lemma run_level_level: "run_level timeout env level = Some r \<Longrightarrow> lr_level r = level"
  by (auto simp: run_level_def Let_def split: if_splits)

section \<open>Properties\<close>

text \<open>
  C40: Every call of a level is counted once. A level that is not negative returns; completed and
  timed out never exceed the calls offered, and if no worker is scheduled more than 4900
  milliseconds late they are together exactly the calls offered, the completed ones being
  those whose factory returned or raised within the timeout.
\<close>
theorem level_accounting:
  assumes "0 \<le> level" "0 \<le> timeout"
  shows "\<exists>r. run_level timeout env level = Some r \<and> lr_level r = level
    \<and> 0 \<le> lr_completed r \<and> 0 \<le> lr_timed_out r \<and> lr_completed r + lr_timed_out r \<le> level
    \<and> ((\<forall>i<nat level. 0 \<le> cb_lag (le_behave env i) \<and> cb_lag (le_behave env i) \<le> 4900) \<longrightarrow>
         lr_completed r + lr_timed_out r = level
       \<and> lr_completed r = int (card {i. i < nat level \<and>
            (\<exists>t\<le>timeout. cb_end (le_behave env i) \<in> {Returns t, Raises t})}))"
proof -
  let ?bs = "map (le_behave env) [0..<nat level]"
  let ?read = "joined_until timeout ?bs 0 + int (le_probe_ms env)"
  let ?seen = "filter (\<lambda>b. counted_at timeout b \<le> ?read) ?bs"
  have split: "length (filter (in_time timeout) xs) + length (filter (\<lambda>b. \<not> in_time timeout b) xs) = length xs"
    for xs :: "call_behaviour list" by (rule sum_length_filter_compl)
  have le: "length ?seen \<le> nat level"
    using length_filter_le [of "\<lambda>b. counted_at timeout b \<le> ?read" ?bs] by simp
  have fin: "in_time timeout b = (\<exists>t\<le>timeout. cb_end b \<in> {Returns t, Raises t})" for b
    using assms(2) by (cases "cb_end b") (auto simp: in_time_def done_at_def wait_ms_def)
  have all: "?seen = ?bs" if "\<forall>i<nat level. 0 \<le> cb_lag (le_behave env i) \<and> cb_lag (le_behave env i) \<le> 4900"
    using that assms(2) by (intro all_counted) auto
  have "{i. i < length ?bs \<and> in_time timeout (?bs ! i)} = {i. i < nat level \<and> in_time timeout (le_behave env i)}"
    by auto
  then have count: "length (filter (in_time timeout) ?bs) = card {i. i < nat level \<and> in_time timeout (le_behave env i)}"
    by (simp only: length_filter_conv_card)
  define r where "r = \<lparr>lr_level = level, lr_completed = int (length (filter (in_time timeout) ?seen)),
     lr_timed_out = int (length (filter (\<lambda>b. \<not> in_time timeout b) ?seen)),
     lr_loop_gap_ms = measure_loop_gap (le_probe env)\<rparr>"
  have run: "run_level timeout env level = Some r" using assms(1) by (simp add: run_level_def Let_def r_def)
  have parts: "lr_level r = level" "0 \<le> lr_completed r" "0 \<le> lr_timed_out r" by (simp_all add: r_def)
  have sum: "lr_completed r + lr_timed_out r = int (length ?seen)"
    unfolding r_def level_result.select_convs using split [of ?seen] by linarith
  have le_level: "lr_completed r + lr_timed_out r \<le> level" using le assms(1) by (simp only: sum)
  have exact: "lr_completed r + lr_timed_out r = level \<and> lr_completed r =
      int (card {i. i < nat level \<and> (\<exists>t\<le>timeout. cb_end (le_behave env i) \<in> {Returns t, Raises t})})"
    if lag: "\<forall>i<nat level. 0 \<le> cb_lag (le_behave env i) \<and> cb_lag (le_behave env i) \<le> 4900"
  proof
    show "lr_completed r + lr_timed_out r = level" using assms(1) by (simp add: sum all [OF lag])
    have "lr_completed r = int (length (filter (in_time timeout) ?bs))" by (simp only: r_def all [OF lag] level_result.select_convs)
    then show "lr_completed r =
        int (card {i. i < nat level \<and> (\<exists>t\<le>timeout. cb_end (le_behave env i) \<in> {Returns t, Raises t})})"
      by (simp only: count fin)
  qed
  show ?thesis using run parts le_level exact by blast
qed

theorem level_accounting_witness:
  "\<exists>r. run_level 1000 \<lparr>le_behave = (\<lambda>i. \<lparr>cb_end = (if i = 0 then Raises 0 else Blocks), cb_lag = 0\<rparr>),
       le_probe = NoLoop, le_probe_ms = 0\<rparr> 3 = Some r \<and> lr_completed r = 1 \<and> lr_timed_out r = 2"
proof -
  let ?env = "\<lparr>le_behave = (\<lambda>i. \<lparr>cb_end = (if i = 0 then Raises 0 else Blocks), cb_lag = 0\<rparr>),
       le_probe = NoLoop, le_probe_ms = 0\<rparr>"
  have "{i. i < nat 3 \<and> (\<exists>t\<le>1000. cb_end (le_behave ?env i) \<in> {Returns t, Raises t})} = {0}"
    by auto
  then show ?thesis using level_accounting [of 3 1000 ?env] by fastforce
qed

text \<open>
  A run reports its levels in the order given, not sorted, each with the result of its own
  level; it returns exactly when no level is negative, and a level below zero makes it wait
  for ever on its barrier.
\<close>
lemma run_in_given_order:
  "(case driver_run d envs of
      None \<Rightarrow> list_ex (\<lambda>l. l < 0) (cd_levels d)
    | Some rs \<Rightarrow> list_all (\<lambda>l. 0 \<le> l) (cd_levels d) \<and> map lr_level rs = cd_levels d
        \<and> map Some rs = map2 (\<lambda>i l. run_level (cd_timeout d) (envs i) l) [0..<length (cd_levels d)] (cd_levels d))"
proof (cases "driver_run d envs")
  case None
  then have "\<not> list_all (\<lambda>l. 0 \<le> l) (cd_levels d)"
    using run_levels_returns [of "cd_timeout d" envs 0 "cd_levels d"] by (simp add: driver_run_def)
  then show ?thesis using None by (auto simp: list_all_iff list_ex_iff not_le)
next
  case (Some rs)
  then have r: "run_levels (cd_timeout d) envs 0 (cd_levels d) = Some rs" by (simp add: driver_run_def)
  have eq: "map Some rs = map2 (\<lambda>i l. run_level (cd_timeout d) (envs i) l) [0..<length (cd_levels d)] (cd_levels d)"
    using run_levels_results [OF r] by simp
  have len: "length rs = length (cd_levels d)" using arg_cong [OF eq, of length] by simp
  have "map lr_level rs = cd_levels d"
  proof (rule nth_equalityI)
    fix j
    assume "j < length (map lr_level rs)"
    then have j: "j < length rs" "j < length (cd_levels d)" using len by simp_all
    have "run_level (cd_timeout d) (envs j) (cd_levels d ! j) = Some (rs ! j)"
      using arg_cong [OF eq, of "\<lambda>xs. xs ! j"] j by simp
    then show "map lr_level rs ! j = cd_levels d ! j" using j by (simp add: run_level_level)
  qed (simp add: len)
  then show ?thesis
    using Some eq run_levels_returns [of "cd_timeout d" envs 0 "cd_levels d"] r by simp
qed

end
