(* ===== verification/LogOutput.thy ===== *)
theory LogOutput
  imports AsLogging
begin

text \<open>
  From an accepted event to the line on standard output: \<^verbatim>\<open>json.dumps\<close> on the flat payload of
  \<^verbatim>\<open>StructuredFormatter.format\<close> as text, the root logger with its handlers, and
  \<^verbatim>\<open>configure_logging\<close>. A reader of such lines serves as the reference the encoding is
  checked against.
\<close>

section \<open>The text of a payload\<close>









section \<open>Reading a line back\<close>









section \<open>The encoding is readable and stays on one line\<close>











lemma startswith_Nil [simp]: "startswith s []" "\<not> startswith [] (x # p)"
  by (simp_all add: startswith_def)















section \<open>The root logger\<close>














end
