(* ===== verification/AsSingletons.thy ===== *)
theory AsSingletons
  imports AsMetrics AsTracing
begin

text \<open>
  The process-wide accessors \<^verbatim>\<open>get_metrics_registry\<close> and \<^verbatim>\<open>get_trace_recorder\<close>: an object
  created on first use, without a lock. Objects are numbered in the order of their creation.
\<close>

section \<open>One call\<close>

record 'a singleton =
  sg_ref :: "nat option"
  sg_objects :: "'a list"

definition no_instance :: "'a singleton" where
  "no_instance = \<lparr>sg_ref = None, sg_objects = []\<rparr>"

definition sg_create :: "'a \<Rightarrow> 'a singleton \<Rightarrow> 'a singleton" where
  "sg_create fresh s = s\<lparr>sg_ref := Some (length (sg_objects s)), sg_objects := sg_objects s @ [fresh]\<rparr>"

definition get_instance :: "'a \<Rightarrow> 'a singleton \<Rightarrow> nat option \<times> 'a singleton" where
  "get_instance fresh s = (let s' = (if sg_ref s = None then sg_create fresh s else s) in (sg_ref s', s'))"

definition get_metrics_registry :: "metrics_registry singleton \<Rightarrow> nat option \<times> metrics_registry singleton" where
  "get_metrics_registry = get_instance empty_registry"

definition get_trace_recorder :: "trace_recorder singleton \<Rightarrow> nat option \<times> trace_recorder singleton" where
  "get_trace_recorder = get_instance (mk_trace_recorder DEFAULT_MAX_TRACED_CALLS)"

section \<open>Several threads\<close>

text \<open>
  A thread inside the accessor: before the test, after it found no object, before the
  \<^verbatim>\<open>return\<close>, which reads the variable again, and done with the object it got.
\<close>

datatype getter = Testing | Creating | Returning | Got "nat option"

fun getter_step :: "'a \<Rightarrow> getter \<times> 'a singleton \<Rightarrow> getter \<times> 'a singleton" where
  "getter_step fresh (Testing, s) = (if sg_ref s = None then Creating else Returning, s)"
| "getter_step fresh (Creating, s) = (Returning, sg_create fresh s)"
| "getter_step fresh (Returning, s) = (Got (sg_ref s), s)"
| "getter_step fresh (Got i, s) = (Got i, s)"

definition step_thread :: "'a \<Rightarrow> nat \<Rightarrow> (nat \<Rightarrow> getter) \<times> 'a singleton \<Rightarrow> (nat \<Rightarrow> getter) \<times> 'a singleton" where
  "step_thread fresh t c = (case c of (th, s) \<Rightarrow> (case getter_step fresh (th t, s) of (g, s') \<Rightarrow> (th(t := g), s')))"

definition run_threads ::
    "'a \<Rightarrow> nat list \<Rightarrow> (nat \<Rightarrow> getter) \<times> 'a singleton \<Rightarrow> (nat \<Rightarrow> getter) \<times> 'a singleton" where
  "run_threads fresh schedule c = fold (step_thread fresh) schedule c"

lemma sg_create_ref [simp]: "sg_ref (sg_create fresh s) = Some (length (sg_objects s))"
  by (simp add: sg_create_def)

lemma alone_is_atomic:
  "getter_step fresh (getter_step fresh (getter_step fresh (Testing, s))) =
     (case get_instance fresh s of (i, s') \<Rightarrow> (Got i, s'))"
  by (simp add: get_instance_def)

lemma run_threads_Cons: "run_threads fresh (t # ts) c = run_threads fresh ts (step_thread fresh t c)"
  by (simp add: run_threads_def)

text \<open>What a call that has an answer keeps, and what a call still in flight can get.\<close>

definition answer_from :: "nat \<Rightarrow> getter \<Rightarrow> getter \<Rightarrow> bool" where
  "answer_from i before after \<longleftrightarrow> (case before of
     Got h \<Rightarrow> after = Got h
   | Creating \<Rightarrow> after = Creating
   | _ \<Rightarrow> after \<in> {Testing, Returning, Got (Some i)})"

lemma settled_answers:
  assumes "sg_ref s = Some i" "\<forall>t. th t \<noteq> Creating" "\<forall>t. answer_from i (th0 t) (th t)"
  shows "snd (run_threads fresh schedule (th, s)) = s
    \<and> (\<forall>t. answer_from i (th0 t) (fst (run_threads fresh schedule (th, s)) t))"
  using assms(2,3)
proof (induction schedule arbitrary: th)
  case Nil
  then show ?case by (simp add: run_threads_def)
next
  case (Cons t schedule)
  obtain g where g: "getter_step fresh (th t, s) = (g, s)" "g \<noteq> Creating" "answer_from i (th0 t) g"
    using spec [OF Cons.prems(1), of t] spec [OF Cons.prems(2), of t] assms(1)
    by (cases "th t"; cases "th0 t") (simp_all add: answer_from_def)
  then have "run_threads fresh (t # schedule) (th, s) = run_threads fresh schedule (th(t := g), s)"
    by (simp add: run_threads_Cons step_thread_def)
  moreover have "\<forall>u. (th(t := g)) u \<noteq> Creating" "\<forall>u. answer_from i (th0 u) ((th(t := g)) u)"
    using Cons.prems g(2,3) by simp_all
  ultimately show ?case using Cons.IH by presburger
qed

text \<open>
  C25: The shared registry and the shared recorder. Let calls of the accessor run in any
  interleaving until an object exists and no call in flight has still to create one. From
  then on no object is created any more, every call that comes back (those in flight and all
  later ones) gets the object there is, and a call running alone changes nothing. Before
  that point neither holds. A call that found no object still replaces the one another call
  has created and returned: there is an interleaving in which one call returns the first
  object, a second call started afterwards gets it too, and a third one started after that
  gets another, so what is counted on the first is in no later snapshot of the process.
\<close>
theorem shared_instance_settles:
  fixes s :: "'a singleton"
  assumes "run_threads fresh before (\<lambda>_. Testing, no_instance) = (th, s)"
    and "sg_ref s = Some i" and "\<forall>t. th t \<noteq> Creating"
  shows "(\<forall>schedule. let c = run_threads fresh schedule (th, s) in
            snd c = s \<and> (\<forall>t g. fst c t = Got g \<longrightarrow> (case th t of Got h \<Rightarrow> g = h | _ \<Rightarrow> g = Some i)))
     \<and> get_instance fresh s = (Some i, s)
     \<and> (let start = (\<lambda>_. Testing, no_instance :: 'a singleton);
            c1 = run_threads fresh [0, 1, 0, 0] start;
            c2 = run_threads fresh [2, 2] c1;
            c3 = run_threads fresh [1, 3, 3] c2 in
          fst c1 0 = Got (Some 0) \<and> fst c1 2 = Testing \<and> fst c2 2 = Got (Some 0)
        \<and> fst c2 3 = Testing \<and> fst c3 3 = Got (Some 1) \<and> sg_objects (snd c3) = [fresh, fresh])"
proof (intro conjI allI)
  fix schedule
  have "\<forall>t. answer_from i (th t) (th t)"
    using assms(3) by (auto simp: answer_from_def split: getter.split)
  note r = settled_answers [OF assms(2,3) this, of fresh schedule]
  let ?c = "run_threads fresh schedule (th, s)"
  have "case th t of Got h \<Rightarrow> g = h | _ \<Rightarrow> g = Some i" if "fst ?c t = Got g" for t g
  proof -
    have "answer_from i (th t) (Got g)" using r that by metis
    then show ?thesis by (cases "th t") (simp_all add: answer_from_def)
  qed
  then show "let c = ?c in snd c = s \<and> (\<forall>t g. fst c t = Got g \<longrightarrow> (case th t of Got h \<Rightarrow> g = h | _ \<Rightarrow> g = Some i))"
    using r by (simp add: Let_def)
next
  show "get_instance fresh s = (Some i, s)" using assms(2) by (simp add: get_instance_def)
next
  show "let start = (\<lambda>_. Testing, no_instance :: 'a singleton);
            c1 = run_threads fresh [0, 1, 0, 0] start;
            c2 = run_threads fresh [2, 2] c1;
            c3 = run_threads fresh [1, 3, 3] c2 in
          fst c1 0 = Got (Some 0) \<and> fst c1 2 = Testing \<and> fst c2 2 = Got (Some 0)
        \<and> fst c2 3 = Testing \<and> fst c3 3 = Got (Some 1) \<and> sg_objects (snd c3) = [fresh, fresh]"
    by (simp add: Let_def run_threads_def step_thread_def no_instance_def sg_create_def)
qed

text \<open>One call of \<^verbatim>\<open>get_metrics_registry\<close> that runs alone settles the registry.\<close>

theorem shared_instance_settles_witness:
  "\<exists>s'. get_metrics_registry no_instance = (Some 0, s') \<and> get_metrics_registry s' = (Some 0, s')
     \<and> (\<forall>schedule. snd (run_threads empty_registry schedule ((\<lambda>_. Testing)(0 := Got (Some 0)), s')) = s')"
proof -
  let ?s = "sg_create empty_registry no_instance"
  have g: "get_metrics_registry no_instance = (Some 0, ?s)"
    by (simp add: get_metrics_registry_def get_instance_def no_instance_def sg_create_def)
  let ?th = "(\<lambda>_. Testing)(0 := Got (Some 0))"
  have run: "run_threads empty_registry [0, 0, 0] (\<lambda>_. Testing, no_instance) = (?th, ?s)"
    by (simp add: run_threads_def step_thread_def no_instance_def sg_create_def)
  have ok: "sg_ref ?s = Some 0" "\<forall>t. ?th t \<noteq> Creating" by (simp_all add: no_instance_def)
  note settles = shared_instance_settles [OF run ok, unfolded Let_def]
  show ?thesis using g settles by (auto simp: get_metrics_registry_def)
qed

end
