(* ===== verification/RegistryThreads.thy ===== *)
theory RegistryThreads
  imports AsMetrics
begin

text \<open>
  The threads that use the counter registry, one statement at a time. Every method of
  \<^verbatim>\<open>MetricsRegistry\<close> takes the registry's lock, reads (\<^verbatim>\<open>+=\<close> reads the counter before it stores the
  sum, \<^verbatim>\<open>snapshot\<close> copies one field after the other), stores and releases the lock. Between any
  two of these steps the scheduler can run another thread.
\<close>

section \<open>The steps of a method\<close>

datatype registry_call = Recording metric_op | Snapshotting

text \<open>What the right-hand side of \<^verbatim>\<open>+=\<close> reads; \<^verbatim>\<open>set_peer_status\<close> reads nothing.\<close>

fun metric_load :: "metric_op \<Rightarrow> metrics_registry \<Rightarrow> int" where
  "metric_load CallStarted m = mr_calls_total m"
| "metric_load (CallEnded d) m = counter_get (mr_calls_by_disposition m) (disposition_value d)"
| "metric_load (ErrorSeen c) m = counter_get (mr_errors_by_code m) c"
| "metric_load (RuleHit r) m = counter_get (mr_rule_hits m) r"
| "metric_load (CounterAdd n a) m = counter_get (mr_counters m) n"
| "metric_load (PeerStatusSet p st) m = 0"

fun metric_store :: "metric_op \<Rightarrow> int \<Rightarrow> metrics_registry \<Rightarrow> metrics_registry" where
  "metric_store CallStarted v m = m\<lparr>mr_calls_total := v + 1\<rparr>"
| "metric_store (CallEnded d) v m =
     m\<lparr>mr_calls_by_disposition := AList.update (disposition_value d) (v + 1) (mr_calls_by_disposition m)\<rparr>"
| "metric_store (ErrorSeen c) v m = m\<lparr>mr_errors_by_code := AList.update c (v + 1) (mr_errors_by_code m)\<rparr>"
| "metric_store (RuleHit r) v m = m\<lparr>mr_rule_hits := AList.update r (v + 1) (mr_rule_hits m)\<rparr>"
| "metric_store (CounterAdd n a) v m = m\<lparr>mr_counters := AList.update n (v + a) (mr_counters m)\<rparr>"
| "metric_store (PeerStatusSet p st) v m = m\<lparr>mr_peer_status := AList.update p st (mr_peer_status m)\<rparr>"

definition blank_snapshot :: metrics_snapshot where
  "blank_snapshot = \<lparr>ms_calls_total = 0, ms_calls_by_disposition = [], ms_errors_by_code = [],
     ms_rule_hits = [], ms_peer_status = [], ms_counters = []\<rparr>"

text \<open>The argument number \<open>k\<close> of the snapshot, in the order they are evaluated.\<close>

definition copy_field :: "nat \<Rightarrow> metrics_registry \<Rightarrow> metrics_snapshot \<Rightarrow> metrics_snapshot" where
  "copy_field k m s =
     (if k = 0 then s\<lparr>ms_calls_total := mr_calls_total m\<rparr>
      else if k = 1 then s\<lparr>ms_calls_by_disposition := mr_calls_by_disposition m\<rparr>
      else if k = 2 then s\<lparr>ms_errors_by_code := mr_errors_by_code m\<rparr>
      else if k = 3 then s\<lparr>ms_rule_hits := mr_rule_hits m\<rparr>
      else if k = 4 then s\<lparr>ms_peer_status := map (\<lambda>(name, st). (name, peer_status_value st)) (mr_peer_status m)\<rparr>
      else s\<lparr>ms_counters := mr_counters m\<rparr>)"

text \<open>Alone, the steps are the method.\<close>

lemma metric_store_load: "metric_store x (metric_load x m) m = apply_metric_op x m"
  by (cases x) (simp_all add: metric_op_defs counter_add_def)

lemma copy_fields: "fold (\<lambda>k. copy_field k m) [0..<6] blank_snapshot = snapshot m"
  by (simp add: upt_rec copy_field_def blank_snapshot_def snapshot_def)

section \<open>The threads\<close>

text \<open>
  Where a thread is in its current call: before the lock, behind it, with the value it read,
  having copied \<open>k\<close> fields, or about to release the lock and return.
\<close>

datatype caller_at =
    Outside
  | Entered
  | Loaded int
  | Copying nat metrics_snapshot
  | Leaving "metrics_snapshot list"

record registry_threads =
  rt_registry :: metrics_registry
  rt_lock :: "nat option"
  rt_at :: "nat \<Rightarrow> caller_at"
  rt_todo :: "nat \<Rightarrow> registry_call list"
  rt_got :: "nat \<Rightarrow> metrics_snapshot list"

abbreviation goes :: "nat \<Rightarrow> caller_at \<Rightarrow> registry_threads \<Rightarrow> registry_threads" where
  "goes t a s \<equiv> s\<lparr>rt_at := (rt_at s)(t := a)\<rparr>"

text \<open>
  One step of thread \<open>t\<close>. A thread that finds the lock taken waits; one that has made all its
  calls does nothing.
\<close>

fun call_step :: "nat \<Rightarrow> registry_call \<Rightarrow> caller_at \<Rightarrow> registry_threads \<Rightarrow> registry_threads" where
  "call_step t call Outside s = (if rt_lock s = None then goes t Entered (s\<lparr>rt_lock := Some t\<rparr>) else s)"
| "call_step t (Recording x) Entered s = goes t (Loaded (metric_load x (rt_registry s))) s"
| "call_step t (Recording x) (Loaded v) s = goes t (Leaving []) (s\<lparr>rt_registry := metric_store x v (rt_registry s)\<rparr>)"
| "call_step t Snapshotting Entered s = goes t (Copying 0 blank_snapshot) s"
| "call_step t Snapshotting (Copying k acc) s =
     (if k < 6 then goes t (Copying (Suc k) (copy_field k (rt_registry s) acc)) s else goes t (Leaving [acc]) s)"
| "call_step t call (Leaving out) s = goes t Outside
     (s\<lparr>rt_lock := None, rt_todo := (rt_todo s)(t := tl (rt_todo s t)), rt_got := (rt_got s)(t := rt_got s t @ out)\<rparr>)"
| "call_step t call a s = s"

definition caller_step :: "nat \<Rightarrow> registry_threads \<Rightarrow> registry_threads" where
  "caller_step t s = (if rt_todo s t = [] then s else call_step t (hd (rt_todo s t)) (rt_at s t) s)"

definition callers_start :: "metrics_registry \<Rightarrow> (nat \<Rightarrow> registry_call list) \<Rightarrow> registry_threads" where
  "callers_start m calls = \<lparr>rt_registry = m, rt_lock = None, rt_at = (\<lambda>_. Outside), rt_todo = calls, rt_got = (\<lambda>_. [])\<rparr>"

definition run_callers :: "nat list \<Rightarrow> registry_threads \<Rightarrow> registry_threads" where
  "run_callers schedule s = fold caller_step schedule s"

lemma run_callers_simps [simp]:
  "run_callers [] s = s" "run_callers (t # ts) s = run_callers ts (caller_step t s)"
  "run_callers (ts @ ts') s = run_callers ts' (run_callers ts s)"
  by (simp_all add: run_callers_def)

section \<open>One call after the other\<close>

fun serve_call :: "registry_call \<Rightarrow> metrics_registry \<Rightarrow> metrics_registry" where
  "serve_call (Recording x) = apply_metric_op x"
| "serve_call Snapshotting = id"

text \<open>The registry after the calls of an order, and the snapshots a thread has got in it.\<close>

definition served :: "(nat \<times> registry_call) list \<Rightarrow> metrics_registry \<Rightarrow> metrics_registry" where
  "served order m = fold (\<lambda>(t, call). serve_call call) order m"

fun seen_by :: "nat \<Rightarrow> (nat \<times> registry_call) list \<Rightarrow> metrics_registry \<Rightarrow> metrics_snapshot list" where
  "seen_by t [] m = []"
| "seen_by t ((u, call) # order) m =
     (if u = t \<and> call = Snapshotting then [snapshot m] else []) @ seen_by t order (serve_call call m)"

lemma served_snoc [simp]: "served (order @ [(t, call)]) m = serve_call call (served order m)"
  by (simp add: served_def)

lemma seen_by_snoc [simp]:
  "seen_by t (order @ [(u, call)]) m =
     seen_by t order m @ (if u = t \<and> call = Snapshotting then [snapshot (served order m)] else [])"
  by (induction t order m rule: seen_by.induct) (simp_all add: served_def)

definition calls_of_thread :: "nat \<Rightarrow> (nat \<times> registry_call) list \<Rightarrow> registry_call list" where
  "calls_of_thread t order = map snd (filter (\<lambda>x. fst x = t) order)"

lemma calls_of_thread_snoc [simp]:
  "calls_of_thread t (order @ [(u, call)]) = calls_of_thread t order @ (if u = t then [call] else [])"
  by (simp add: calls_of_thread_def)

section \<open>The lock makes the calls whole\<close>

text \<open>
  What holds of the thread behind the lock, \<open>m\<close> being the registry after the calls that have
  returned and \<open>r\<close> the registry as it is.
\<close>

fun inside :: "registry_call \<Rightarrow> caller_at \<Rightarrow> metrics_registry \<Rightarrow> metrics_registry \<Rightarrow> bool" where
  "inside call Entered m r = (r = m)"
| "inside (Recording x) (Loaded v) m r = (r = m \<and> v = metric_load x m)"
| "inside (Recording x) (Leaving out) m r = (r = apply_metric_op x m \<and> out = [])"
| "inside Snapshotting (Copying k acc) m r =
     (r = m \<and> k \<le> 6 \<and> acc = fold (\<lambda>j. copy_field j m) [0..<k] blank_snapshot)"
| "inside Snapshotting (Leaving out) m r = (r = m \<and> out = [snapshot m])"
| "inside call a m r = False"

definition linear ::
    "metrics_registry \<Rightarrow> (nat \<Rightarrow> registry_call list) \<Rightarrow> (nat \<times> registry_call) list \<Rightarrow> registry_threads \<Rightarrow> bool" where
  "linear m calls order s \<longleftrightarrow>
     (\<forall>t. calls_of_thread t order @ rt_todo s t = calls t \<and> rt_got s t = seen_by t order m)
   \<and> (case rt_lock s of
        None \<Rightarrow> (\<forall>t. rt_at s t = Outside) \<and> rt_registry s = served order m
      | Some t \<Rightarrow> (\<forall>u. u \<noteq> t \<longrightarrow> rt_at s u = Outside) \<and> rt_todo s t \<noteq> []
          \<and> inside (hd (rt_todo s t)) (rt_at s t) (served order m) (rt_registry s))"

lemma linear_start: "linear m calls [] (callers_start m calls)"
  by (simp add: linear_def callers_start_def calls_of_thread_def served_def)

text \<open>A step behind the lock that does not release it.\<close>

lemma inside_step:
  assumes "inside call a m (rt_registry s)" "\<And>out. a \<noteq> Leaving out"
  obtains a' r where "call_step t call a s = goes t a' (s\<lparr>rt_registry := r\<rparr>)" "inside call a' m r"
proof -
  have id: "s\<lparr>rt_registry := rt_registry s\<rparr> = s" by (cases s) simp
  consider x where "call = Recording x" "a = Entered" | x v where "call = Recording x" "a = Loaded v"
    | "call = Snapshotting" "a = Entered" | k acc where "call = Snapshotting" "a = Copying k acc"
    using assms by (cases call; cases a) auto
  then show ?thesis
  proof cases
    case 1
    then show ?thesis using that [of "rt_registry s" "Loaded (metric_load x m)"] assms(1) id by simp
  next
    case 2
    then show ?thesis
      using that [of "metric_store x v (rt_registry s)" "Leaving []"] assms(1) by (simp add: metric_store_load)
  next
    case 3
    then show ?thesis using that [of "rt_registry s" "Copying 0 blank_snapshot"] assms(1) id by simp
  next
    case 4
    show ?thesis
    proof (cases "k < 6")
      case True
      then show ?thesis
        using that [of "rt_registry s" "Copying (Suc k) (copy_field k m acc)"] 4 assms(1) id by simp
    next
      case False
      then have "k = 6" using 4 assms(1) by simp
      then show ?thesis using that [of "rt_registry s" "Leaving [acc]"] 4 assms(1) id by (simp add: copy_fields)
    qed
  qed
qed

text \<open>The release, which ends the call.\<close>

lemma linear_release:
  assumes lin: "linear m calls order s" and l: "rt_lock s = Some t"
    and s': "s' = goes t Outside (s\<lparr>rt_lock := None, rt_todo := (rt_todo s)(t := tl (rt_todo s t)),
        rt_got := (rt_got s)(t := rt_got s t @ out)\<rparr>)"
    and r: "rt_registry s = serve_call (hd (rt_todo s t)) (served order m)"
    and out: "out = (if hd (rt_todo s t) = Snapshotting then [snapshot (served order m)] else [])"
  shows "linear m calls (order @ [(t, hd (rt_todo s t))]) s'"
proof -
  have ne: "rt_todo s t \<noteq> []" and o: "\<And>u. u \<noteq> t \<Longrightarrow> rt_at s u = Outside"
    and c: "\<And>u. calls_of_thread u order @ rt_todo s u = calls u" "\<And>u. rt_got s u = seen_by u order m"
    using lin l by (simp_all add: linear_def)
  have "calls_of_thread t order @ [hd (rt_todo s t)] @ tl (rt_todo s t) = calls t" using ne c(1) [of t] by simp
  then show ?thesis using o c r unfolding s' linear_def out by (cases "hd (rt_todo s t)") simp_all
qed

lemma linear_step:
  assumes lin: "linear m calls order s"
  shows "\<exists>order'. linear m calls order' (caller_step t s)"
proof (cases "rt_todo s t = []")
  case True
  then show ?thesis using lin by (auto simp: caller_step_def)
next
  case False
  note todo = this
  let ?call = "hd (rt_todo s t)"
  consider "rt_lock s = None" | u where "rt_lock s = Some u" "u \<noteq> t" | "rt_lock s = Some t"
    by (cases "rt_lock s") auto
  then show ?thesis
  proof cases
    case 1
    then have "caller_step t s = goes t Entered (s\<lparr>rt_lock := Some t\<rparr>)"
      using lin todo by (simp add: caller_step_def linear_def)
    then show ?thesis using lin todo 1 by (intro exI [of _ order]) (simp add: linear_def)
  next
    case 2
    then have "caller_step t s = s" using lin todo by (simp add: caller_step_def linear_def)
    then show ?thesis using lin by auto
  next
    case 3
    have i: "inside ?call (rt_at s t) (served order m) (rt_registry s)" using lin 3 by (simp add: linear_def)
    show ?thesis
    proof (cases "\<exists>out. rt_at s t = Leaving out")
      case True
      then obtain out where a: "rt_at s t = Leaving out" by blast
      have "linear m calls (order @ [(t, ?call)]) (caller_step t s)"
        by (rule linear_release [OF lin 3, of _ out])
           (use todo a i in \<open>cases ?call; simp add: caller_step_def\<close>)+
      then show ?thesis by blast
    next
      case False
      then obtain a r where "call_step t ?call (rt_at s t) s = goes t a (s\<lparr>rt_registry := r\<rparr>)"
          "inside ?call a (served order m) r" using inside_step [OF i] by blast
      then have "linear m calls order (caller_step t s)"
        using lin todo 3 by (simp add: caller_step_def linear_def)
      then show ?thesis by blast
    qed
  qed
qed

lemma linear_run: "linear m calls order s \<Longrightarrow> \<exists>order'. linear m calls order' (run_callers schedule s)"
proof (induction schedule arbitrary: order s)
  case Nil
  then show ?case by auto
next
  case (Cons t schedule)
  then show ?case using linear_step by fastforce
qed

section \<open>Every call returns\<close>

text \<open>The steps a thread has still to make, at most ten for a call.\<close>

fun steps_made :: "caller_at \<Rightarrow> nat" where
  "steps_made Outside = 0"
| "steps_made Entered = 1"
| "steps_made (Loaded v) = 2"
| "steps_made (Copying k acc) = 2 + k"
| "steps_made (Leaving out) = 9"

definition steps_left :: "nat \<Rightarrow> registry_threads \<Rightarrow> nat" where
  "steps_left t s = 10 * length (rt_todo s t) - steps_made (rt_at s t)"

lemma inside_made: "inside call a m r \<Longrightarrow> steps_made a \<le> 9 \<and> a \<noteq> Outside"
  by (cases call; cases a) simp_all

lemma inside_makes:
  assumes "inside call a m r" "call_step t call a s = goes t a' s'" "\<And>out. a \<noteq> Leaving out"
  shows "steps_made a < steps_made a'"
proof -
  have "rt_at (call_step t call a s) t = a'" using assms(2) by simp
  then show ?thesis using assms(1,3) by (cases call; cases a) (auto split: if_splits)
qed

lemma step_progress:
  assumes lin: "linear m calls order s" and todo: "rt_todo s t \<noteq> []" and l: "rt_lock s = None \<or> rt_lock s = Some t"
  shows "steps_left t (caller_step t s) < steps_left t s"
    "u \<noteq> t \<Longrightarrow> steps_left u (caller_step t s) = steps_left u s"
proof -
  let ?call = "hd (rt_todo s t)"
  have pos: "10 \<le> 10 * length (rt_todo s t)" using todo by (cases "rt_todo s t") simp_all
  have "steps_left t (caller_step t s) < steps_left t s
    \<and> (\<forall>u. u \<noteq> t \<longrightarrow> steps_left u (caller_step t s) = steps_left u s)"
  proof (cases "rt_lock s")
    case None
    then have "caller_step t s = goes t Entered (s\<lparr>rt_lock := Some t\<rparr>)" "rt_at s t = Outside"
      using lin todo by (simp_all add: caller_step_def linear_def)
    then show ?thesis using pos by (simp add: steps_left_def)
  next
    case (Some u)
    then have i: "inside ?call (rt_at s t) (served order m) (rt_registry s)" using l lin by (simp add: linear_def)
    show ?thesis
    proof (cases "\<exists>out. rt_at s t = Leaving out")
      case True
      then show ?thesis
        using todo pos by (cases ?call) (auto simp: caller_step_def steps_left_def)
    next
      case False
      then obtain a r where a: "call_step t ?call (rt_at s t) s = goes t a (s\<lparr>rt_registry := r\<rparr>)"
          "inside ?call a (served order m) r" using inside_step [OF i] by blast
      have "steps_made (rt_at s t) < steps_made a" using inside_makes [OF i a(1)] False by blast
      moreover have "steps_made a < 10 * length (rt_todo s t)" using inside_made [OF a(2)] pos by linarith
      ultimately have "10 * length (rt_todo s t) - steps_made a < 10 * length (rt_todo s t) - steps_made (rt_at s t)"
        by linarith
      then show ?thesis using todo a(1) by (simp add: caller_step_def steps_left_def)
    qed
  qed
  then show "steps_left t (caller_step t s) < steps_left t s"
    "u \<noteq> t \<Longrightarrow> steps_left u (caller_step t s) = steps_left u s" by blast+
qed

lemma calls_return:
  assumes "linear m calls order s" and n: "\<forall>t\<ge>n. calls t = []"
  shows "\<exists>more. \<forall>t. rt_todo (run_callers more s) t = []"
  using assms(1)
proof (induction "\<Sum>t<n. steps_left t s" arbitrary: order s rule: less_induct)
  case less
  show ?case
  proof (cases "\<forall>t. rt_todo s t = []")
    case True
    then show ?thesis by (intro exI [of _ "[]"]) simp
  next
    case False
    then obtain t where t: "rt_todo s t \<noteq> []" "rt_lock s = None \<or> rt_lock s = Some t"
      using less.prems by (cases "rt_lock s") (auto simp: linear_def)
    have "calls_of_thread t order @ rt_todo s t = calls t" using less.prems by (simp add: linear_def)
    then have "t < n" using t(1) n by (metis append_is_Nil_conv not_le)
    then have "(\<Sum>u<n. steps_left u (caller_step t s)) < (\<Sum>u<n. steps_left u s)"
      using step_progress(1) [OF less.prems t] step_progress(2) [OF less.prems t]
      by (intro sum_strict_mono_ex1) (simp_all, metis less_imp_le order_refl, blast)
    moreover obtain order' where "linear m calls order' (caller_step t s)" using linear_step [OF less.prems] by blast
    ultimately obtain more where "\<forall>u. rt_todo (run_callers more (caller_step t s)) u = []"
      using less.hyps by blast
    then show ?thesis by (intro exI [of _ "t # more"]) simp
  qed
qed

section \<open>What is counted\<close>

fun recordings :: "registry_call list \<Rightarrow> metric_op list" where
  "recordings [] = []"
| "recordings (Recording x # calls) = x # recordings calls"
| "recordings (Snapshotting # calls) = recordings calls"

text \<open>What some calls add to the application counter of a name.\<close>

definition total_gain :: "string \<Rightarrow> registry_call list \<Rightarrow> int" where
  "total_gain k calls = sum_list (map (counter_gain k) (recordings calls))"

lemma count_recordings: "count_list (recordings calls) x = count_list calls (Recording x)"
  by (induction calls rule: recordings.induct) auto

lemma recordings_append [simp]: "recordings (xs @ ys) = recordings xs @ recordings ys"
  by (induction xs rule: recordings.induct) simp_all

lemma served_recordings: "served order m = run_metric_ops (recordings (map snd order)) m"
proof (induction order rule: rev_induct)
  case Nil
  then show ?case by (simp add: served_def run_metric_ops_def)
next
  case (snoc x order)
  then show ?case by (cases x; cases "snd x") (simp_all add: run_metric_ops_def)
qed

text \<open>A sum over an order is the sum over the threads.\<close>

lemma sum_over_threads:
  fixes f :: "registry_call list \<Rightarrow> int"
  assumes "\<forall>x\<in>set order. fst x < n" and "f [] = 0" "\<And>xs ys. f (xs @ ys) = f xs + f ys"
  shows "f (map snd order) = (\<Sum>t<n. f (calls_of_thread t order))"
  using assms(1)
proof (induction order rule: rev_induct)
  case Nil
  then show ?case using assms(2) by (simp add: calls_of_thread_def)
next
  case (snoc x order)
  obtain u call where x: "x = (u, call)" by (cases x)
  have "(\<Sum>t<n. f (calls_of_thread t (order @ [x]))) =
      (\<Sum>t<n. f (calls_of_thread t order)) + (\<Sum>t<n. if u = t then f [call] else 0)"
    unfolding x calls_of_thread_snoc assms(3) sum.distrib by (simp add: assms(2) if_distrib [of f] cong: if_cong)
  then show ?case using snoc x by (simp add: assms(3))
qed

lemma counts_over_threads:
  assumes "\<forall>x\<in>set order. fst x < n"
  shows "int (count_list (recordings (map snd order)) x) = (\<Sum>t<n. int (count_list (calls_of_thread t order) (Recording x)))"
    "total_gain k (map snd order) = (\<Sum>t<n. total_gain k (calls_of_thread t order))"
  using sum_over_threads [OF assms, of "\<lambda>xs. int (count_list xs (Recording x))"]
    sum_over_threads [OF assms, of "total_gain k"]
  by (simp_all add: count_recordings total_gain_def)

lemma registry_counts:
  fixes m :: metrics_registry and n :: nat and order :: "(nat \<times> registry_call) list"
  defines "reg \<equiv> served order m"
    and "recorded \<equiv> (\<lambda>x. \<Sum>t<n. int (count_list (calls_of_thread t order) (Recording x)))"
  assumes "\<forall>x\<in>set order. fst x < n"
  shows "mr_calls_total reg = mr_calls_total m + recorded CallStarted
    \<and> counter_get (mr_calls_by_disposition reg) (disposition_value d) =
        counter_get (mr_calls_by_disposition m) (disposition_value d) + recorded (CallEnded d)
    \<and> counter_get (mr_errors_by_code reg) code = counter_get (mr_errors_by_code m) code + recorded (ErrorSeen code)
    \<and> counter_get (mr_rule_hits reg) rule = counter_get (mr_rule_hits m) rule + recorded (RuleHit rule)
    \<and> counter_get (mr_counters reg) name =
        counter_get (mr_counters m) name + (\<Sum>t<n. total_gain name (calls_of_thread t order))"
  unfolding reg_def recorded_def served_recordings run_metric_ops_counts run_metric_ops_fields(1)
    counts_over_threads [OF assms(3), symmetric] by (simp add: total_gain_def)

text \<open>
  C20: No count is lost between threads. Let any number of threads make any calls of the
  registry's methods, with the scheduler switching between them after any single step:
  taking the lock, reading, storing, copying one field, releasing. There is always an order
  of the calls that have returned which keeps each thread's own order, such that every
  snapshot returned is the registry after the calls before it, and, whenever no thread is
  inside a method, the registry is what these calls make of it one after the other. The
  number of calls, the outcome and error counters and the rule hits have then grown by the
  number of times each was recorded, the application counters by the amounts added. And no
  schedule ever blocks the threads: all calls can still return.
\<close>
theorem metrics_interleaving_exact:
  assumes "\<forall>t\<ge>n. calls t = []"
  shows "let s = run_callers schedule (callers_start m calls); reg = rt_registry s;
       returned = (\<lambda>t. take (length (calls t) - length (rt_todo s t)) (calls t));
       recorded = (\<lambda>x. \<Sum>t<n. int (count_list (returned t) (Recording x))) in
     (\<exists>order. (\<forall>t. calls_of_thread t order = returned t \<and> returned t @ rt_todo s t = calls t
          \<and> rt_got s t = seen_by t order m)
        \<and> (rt_lock s = None \<longrightarrow> reg = served order m))
   \<and> (rt_lock s = None \<longrightarrow>
        mr_calls_total reg = mr_calls_total m + recorded CallStarted
      \<and> counter_get (mr_calls_by_disposition reg) (disposition_value d) =
          counter_get (mr_calls_by_disposition m) (disposition_value d) + recorded (CallEnded d)
      \<and> counter_get (mr_errors_by_code reg) code = counter_get (mr_errors_by_code m) code + recorded (ErrorSeen code)
      \<and> counter_get (mr_rule_hits reg) rule = counter_get (mr_rule_hits m) rule + recorded (RuleHit rule)
      \<and> counter_get (mr_counters reg) name =
          counter_get (mr_counters m) name + (\<Sum>t<n. total_gain name (returned t)))
   \<and> (\<exists>more. \<forall>t. rt_todo (run_callers (schedule @ more) (callers_start m calls)) t = [])"
proof -
  let ?s = "run_callers schedule (callers_start m calls)"
  obtain order where lin: "linear m calls order ?s" using linear_run [OF linear_start] by blast
  have split: "calls_of_thread t order @ rt_todo ?s t = calls t" for t using lin by (simp add: linear_def)
  have ret: "take (length (calls t) - length (rt_todo ?s t)) (calls t) = calls_of_thread t order" for t
    unfolding split [of t, symmetric] by simp
  have lt: "\<forall>x\<in>set order. fst x < n"
  proof
    fix x
    assume "x \<in> set order"
    then have "snd x \<in> set (calls_of_thread (fst x) order)" by (force simp: calls_of_thread_def)
    then have "calls (fst x) \<noteq> []" using split [of "fst x"] by auto
    then show "fst x < n" using assms by (meson not_le)
  qed
  have reg: "rt_lock ?s = None \<Longrightarrow> rt_registry ?s = served order m" using lin by (simp add: linear_def)
  have got: "rt_got ?s t = seen_by t order m" for t using lin by (simp add: linear_def)
  show ?thesis
    unfolding Let_def ret
    using registry_counts [OF lt] calls_return [OF lin assms] reg got split by auto
qed

text \<open>Two threads that count a call each, switched between after every step.\<close>

definition sample_calls :: "nat \<Rightarrow> registry_call list" where
  "sample_calls t = (if t < 2 then [Recording CallStarted, Recording (RuleHit ''R-010'')] else [])"

theorem metrics_interleaving_exact_witness:
  "let s = run_callers ([0, 1, 0, 1, 0, 1, 0, 1] @ [1, 0, 1, 0, 1, 0, 1] @ replicate 12 0 @ replicate 12 1)
       (callers_start empty_registry sample_calls) in
   rt_lock s = None \<and> mr_calls_total (rt_registry s) = 2
   \<and> counter_get (mr_rule_hits (rt_registry s)) ''R-010'' = 2"
proof -
  let ?schedule = "[0, 1, 0, 1, 0, 1, 0, 1] @ [1, 0, 1, 0, 1, 0, 1] @ replicate 12 0 @ replicate 12 1"
  let ?s = "run_callers ?schedule (callers_start empty_registry sample_calls)"
  have none: "\<forall>t\<ge>2. sample_calls t = []" by (simp add: sample_calls_def)
  have s: "rt_lock ?s = None" "rt_todo ?s 0 = []" "rt_todo ?s 1 = []"
    by (simp_all add: callers_start_def caller_step_def sample_calls_def numeral_eq_Suc)
  show ?thesis
    using metrics_interleaving_exact [OF none, of ?schedule empty_registry _ _ "''R-010''", unfolded Let_def] s
    by (simp add: sample_calls_def empty_registry_def counter_get_def lessThan_Suc numeral_2_eq_2)
qed

end
