(* ===== verification/Spec2Isabelle.thy ===== *)
theory Spec2Isabelle
  imports AsStack CallWalk CallImplements CallFeed StoreSeam CapacityHarness LogOutput AsSingletons RegistryThreads
begin

text \<open>
  A verification development for \<^verbatim>\<open>as_platform\<close>, the skeleton shared by third-party IMS/SIP
  application servers. An application server sits on a SIP trunk as a back-to-back user agent:
  a call that arrives on the trunk is decided by the application (the \<^verbatim>\<open>decide\<close> hook) and then
  either rejected or relayed to the first of a list of next hops, with failover to the others.
  The platform wraps this in a process: transport, sippy's transaction manager and event loop,
  counters, traces and logs, an HTTP view of them, a state store and a load harness.
  File names below are under \<^verbatim>\<open>src/src/as_platform/\<close>.

  \<^bold>\<open>Parts and how they interact.\<close>
  \<^item> \<open>AsPrelude\<close>: Python statements as state transformers that may raise and keep the state they
    reached (\<open>ret\<close>, \<open>raise\<close>, \<open>bindp\<close>, \<open>block\<close>, \<open>finallyp\<close>), ordered dictionaries, the string
    routines the code uses, popping the oldest entries of a container.
  \<^item> \<open>AsErrors\<close> (\<^verbatim>\<open>errors.py\<close>): the error codes, their statuses and phrases, \<^verbatim>\<open>AsError\<close> with its log
    fields, and the exceptions other code can raise. \<open>AsHop\<close> (\<^verbatim>\<open>hop.py\<close>): the next hop.
  \<^item> \<open>AsMetrics\<close>, \<open>AsLogging\<close>, \<open>AsTracing\<close> (\<^verbatim>\<open>observability/\<close>): the counter registry, the structured
    log event and its formatting, the trace recorder and the SIP message recorder. Every
    operation of the registry and the recorders runs under one lock and is one step of the
    other theories; \<open>RegistryThreads\<close> takes the registry's methods apart (lock, read, store,
    unlock, one thread at a time) and shows that the lock does make them whole. \<open>LogOutput\<close> follows an event to the text on standard
    output (\<^verbatim>\<open>json.dumps\<close>, the root logger, \<^verbatim>\<open>configure_logging\<close>); \<open>AsSingletons\<close> holds the unlocked
    accessors of the shared registry and recorder. \<open>AsRecency\<close> holds the interface of a store bounded by
    recency (locale \<open>recency_store\<close>), provided by the trace recorder and by the state store.
  \<^item> \<open>PyRegex\<close>: backtracking matching of the regular expressions of Python's \<^verbatim>\<open>re\<close> that the code uses;
    \<open>SipAdapter\<close> (\<^verbatim>\<open>sip_adapter.py\<close>) and \<open>RouteHeader\<close> (\<^verbatim>\<open>route_header.py\<close>) are built on it;
    \<open>SipMessage\<close> is what the code reads of sippy's requests and events.
  \<^item> \<open>CallState\<close> and \<open>CallController\<close> (\<^verbatim>\<open>call_controller.py\<close>): the state of a call (\<open>controller\<close>), the
    world it acts on (\<open>world\<close>: observability, the process-wide \<^verbatim>\<open>SipConf\<close>, the armed timers, the
    calls made into sippy), and every method of \<^verbatim>\<open>BaseCallController\<close>. \<open>CallFacts\<close> and \<open>CallSteps\<close> turn
    the methods into equations under the contract of \<^verbatim>\<open>decide\<close>, \<open>CallEvents\<close> states what single
    events do, \<open>CallReach\<close> is the call as a state machine (inputs \<open>call_input\<close>, reachability
    \<open>call_reach\<close>, invariant \<open>call_inv\<close>), \<open>CallProperties\<close> what holds of whole calls,
    \<open>CallWalk\<close> the exact calls into sippy of one that fails on every hop.
  \<^item> \<open>CallMap\<close>: \<^verbatim>\<open>BaseCallMap\<close>, which admits requests from the trunk, creates one controller per call
    and disposes of them. \<open>CallFrame\<close> shows that the handlers of a call only append calls on its own
    user agents; \<open>CallSystem\<close> uses this for several calls of one map in one world, in any order, and
    \<open>CallAccounting\<close> says what the counters and the map hold after any such run, \<open>CallOutcomes\<close> that the
    outcomes counted are the final events callers got, \<open>CallConsole\<close> what the metrics route of the
    API shows of it while the calls run, \<open>CallTraces\<close> what the trace route of a Call-ID shows, and
    \<open>CallFeed\<close> what a client of the event feed is sent. \<open>CallSpec\<close> is the abstract specification of a
    call, a machine of two phases (\<open>call_phase\<close>) that knows nothing of counters, traces, logs and
    timers, with the refinement of single inputs; \<open>CallImplements\<close> shows that the whole map is so many of
    these machines side by side.
  \<^item> \<open>InternalApi\<close> (\<^verbatim>\<open>internal_api.py\<close>): the documents of the HTTP routes, the polling of the event feed,
    the server thread. \<open>JsonDoc\<close>: JSON documents, \<^verbatim>\<open>json.dumps\<close> and \<^verbatim>\<open>json.loads\<close>.
  \<^item> \<open>AsTransport\<close> (\<^verbatim>\<open>transport.py\<close>): the UDP and the TLS binding with the sockets they own, and the
    interface of both (locale \<open>trunk_transport\<close>). \<open>AsBootstrap\<close> (\<^verbatim>\<open>bootstrap.py\<close>, \<^verbatim>\<open>version.py\<close>): the port
    probe, the shutdown flag and its signal handlers, the version chain.
  \<^item> \<open>AsStack\<close> (\<^verbatim>\<open>main.py\<close>): the process shell \<^verbatim>\<open>BaseAsStack\<close>, which owns a transport, a call map, an API
    server and the loop timers; its start, run and stop are composed of the operations above.
  \<^item> \<open>StateStore\<close> and \<open>RedisStore\<close> (\<^verbatim>\<open>state_store.py\<close>): the seam as the locales \<open>state_store\<close> and
    \<open>lru_state_store\<close>, the in-memory store that provides them, and the Redis store with its queue
    between callers and a worker thread. \<open>StoreSeam\<close> puts both behind the seam.
  \<^item> \<open>CapacityHarness\<close> (\<^verbatim>\<open>capacity_harness.py\<close>): the levels of a load run and their accounting.

  \<^bold>\<open>Choices of the model.\<close> Strings are lists of code points below 256, times are milliseconds (integers),
  floats the rational numbers they stand for. A user agent of sippy is a number: the code uses
  its identity, whether it is connected, and what it asks of it. The calls into sippy are
  recorded in order in \<open>w_sip\<close> with the identity in effect; an event that sippy raises in answer
  is a later input. A loop timer is a number with a deadline. What the operating system, the
  application's hooks, the Redis client and the scheduler answer are arguments of the
  definitions; theorems quantify over them or name what they rely on (\<open>decide_ok\<close> and
  \<open>inbound_ok\<close>, the contract the code documents for the hooks; \<open>decide_books\<close> and \<open>decide_outcomes\<close>, that
  a decision counts no call, refusal or outcome; \<open>decide_traces\<close>, that it traces under the Call-ID of
  its call only; \<open>redis_documented\<close>, the documented commands of Redis). A loop that may not end has fuel (\<open>worker_loop\<close>, whose exact need is proved)
  or the value \<open>None\<close> (\<open>run_level\<close>, where a level below zero waits for ever).

  \<^bold>\<open>What is shown.\<close> Of a call: the hops dialled are those of the decision in order, no handler raises
  under the contract, each kind of event has exactly the effects stated, the process identity
  is restored, and what happens to the timers, which includes the faults recorded with the
  theorems. Of the trunk: who is admitted and how,
  that calls, refusals and outcomes are counted exactly over any interleaving of calls, and that
  each call asks of sippy what its specification machine asks, in that order.
  Of the observability side: exact retention, counts that survive any switching between threads, traces and an
  event feed that follow the running calls, the text of a log line and that it reads back. Of the stores: exact bounds of
  a key family, that the threaded store is the sequential one in the order of the calls, that
  its worker drains its queue, that both stores answer alike and both trims agree. Of the process: sockets, timers and
  threads are released by a stop in the right order, whatever the start reached. Of parsing:
  round trips and what an IPv6 Route entry is read as. Of the harness: exact accounting.

  \<^bold>\<open>Not modelled.\<close> sippy, FastAPI and uvicorn, pydantic, ssl and the Redis client (third-party); log
  records that carry an exception; names a package only re-exports; what the hooks of an
  application return, beyond the contracts above (the base class answers with \<^verbatim>\<open>NotImplementedError\<close>,
  which is modelled). What the files hold besides is documentation, licence texts, imports, export
  lists and protocol stubs.
\<close>

end
